(* ===== verification/Prelude.thy ===== *)
theory Prelude
  imports Main "HOL-Library.AList" "HOL-Library.Sublist"
begin

text \<open>
  What every component of the model shares: the exceptions a call of the client can raise,
  results as sums with a bind that stops at the first exception, Python dictionaries as
  association lists, and the generic contract of a component whose operations all keep one
  invariant (locale \<open>invariant_machine\<close>), from which each component obtains that every
  finite run of its operations keeps it.
\<close>

section \<open>Collections of facts\<close>

named_theorems res_simps \<open>unfolding of results and their bind\<close>
named_theorems py_simps \<open>defining equations of the Python string operations\<close>
named_theorems win_simps \<open>frame equations of the window's operations\<close>
named_theorems keep \<open>operations that keep a component's invariant\<close>

section \<open>Exceptions and results\<close>

text \<open>
  The exception classes the code raises or lets through. A \<open>ValueError\<close> carries what
  the code's own message distinguishes; the wording of messages that the interpreter
  composes is not kept. \<open>OutsideAlphabet\<close> is not an exception of the program: it marks
  the edge of the model, a text whose code points are not all below 256.
\<close>

datatype value_error =
    NotABoolean
  | NotAnInt
  | JsonDecodeError
  | UnicodeDecodeError
  | RefreshIntervalRange
  | RotateIntervalRange
  | UnknownCecBackend string
  | MaxLiveViewsRange
  | UnknownHardwareAcceleration string
  | OsdNameTooLong
  | InvalidField string value_error
  | InvalidClientConfiguration value_error
  | DashboardWithoutId
  | NanToInt
  | InvalidUrl
  | DigitOutOfRange
  | ByteOutOfRange

datatype api_reason =
    ServerUrlMissing
  | HttpStatus int
  | Unreachable
  | NotJsonContent string
  | NotJsonBody
  | NoCollection
  | NotAnObject

datatype py_error =
    ValueError value_error
  | ApiError api_reason
  | AuthError int
  | HttpException
  | CecError
  | TypeError
  | OSError
  | OverflowError
  | IndexError
  | RuntimeError
  | OutsideAlphabet

type_synonym 'a result = "py_error + 'a"

definition bind_result :: "'e + 'a \<Rightarrow> ('a \<Rightarrow> 'e + 'b) \<Rightarrow> 'e + 'b" where
  "bind_result r f = (case r of Inl e \<Rightarrow> Inl e | Inr x \<Rightarrow> f x)"

lemma bind_result_simps [simp, res_simps]:
  "bind_result (Inl e) f = Inl e"
  "bind_result (Inr x) f = f x"
  by (simp_all add: bind_result_def)

lemma bind_result_Inr_iff [res_simps]:
  "bind_result r f = Inr y \<longleftrightarrow> (\<exists>x. r = Inr x \<and> f x = Inr y)"
  by (cases r) auto

lemma bind_result_Inl_iff:
  "bind_result r f = Inl e \<longleftrightarrow> r = Inl e \<or> (\<exists>x. r = Inr x \<and> f x = Inl e)"
  by (cases r) auto

lemma bind_result_cong [fundef_cong]:
  assumes "r = r'" and "\<And>x. r' = Inr x \<Longrightarrow> f x = f' x"
  shows "bind_result r f = bind_result r' f'"
  using assms by (cases r') auto

text \<open>Mapping a fallible function over a list stops at the first exception.\<close>

fun map_result :: "('a \<Rightarrow> 'e + 'b) \<Rightarrow> 'a list \<Rightarrow> 'e + 'b list" where
  "map_result f [] = Inr []"
| "map_result f (x # xs) =
     bind_result (f x) (\<lambda>y. bind_result (map_result f xs) (\<lambda>ys. Inr (y # ys)))"

lemma map_result_Inr:
  "(\<And>x. x \<in> set xs \<Longrightarrow> f x = Inr (g x)) \<Longrightarrow> map_result f xs = Inr (map g xs)"
  by (induction xs) auto

text \<open>
  A procedure that changes a state and may raise: the exception, if any, and the state it
  leaves. \<open>then_do\<close> is the sequence of two statements, the second skipped after an exception.
\<close>

type_synonym 's outcome = "py_error option \<times> 's"

definition then_do :: "'s outcome \<Rightarrow> ('s \<Rightarrow> 's outcome) \<Rightarrow> 's outcome" where
  "then_do r f = (case r of (None, s) \<Rightarrow> f s | (Some e, s) \<Rightarrow> (Some e, s))"

lemma then_do_simps [simp, res_simps]:
  "then_do (None, s) f = f s"
  "then_do (Some e, s) f = (Some e, s)"
  by (simp_all add: then_do_def)

text \<open>What both statements keep, the sequence keeps.\<close>

lemma then_do_keeps:
  "P (snd r) \<Longrightarrow> (\<And>s. P s \<Longrightarrow> P (snd (f s))) \<Longrightarrow> P (snd (then_do r f))"
  by (auto simp: then_do_def split: prod.splits option.splits)

section \<open>Association lists as dictionaries\<close>

text \<open>
  A Python dictionary keeps the order in which its keys were first inserted. It is an
  association list with distinct keys: assignment to a key that is present replaces the
  value in place, assignment to a new key appends (\<open>AList.update\<close>).
\<close>

lemma map_of_update [simp]: "map_of (AList.update k v al) = (map_of al)(k \<mapsto> v)"
  by (rule update_conv')

lemma distinct_keys_update:
  "distinct (map fst al) \<Longrightarrow> distinct (map fst (AList.update k v al))"
  by (rule distinct_update)

section \<open>Components that keep an invariant\<close>

text \<open>
  The contract of a stateful component: every operation, named by an event, keeps the
  invariant, provided the event is one the component's callers may cause. A run is a
  sequence of events.
\<close>

locale invariant_machine =
  fixes step :: "'s \<Rightarrow> 'e \<Rightarrow> 's"
    and inv :: "'s \<Rightarrow> bool"
    and guard :: "'e \<Rightarrow> bool"
  assumes step_keeps: "inv s \<Longrightarrow> guard e \<Longrightarrow> inv (step s e)"
begin

lemma run_keeps: "inv s \<Longrightarrow> list_all guard es \<Longrightarrow> inv (foldl step s es)"
  by (induction es arbitrary: s) (auto intro: step_keeps)

lemma run_prefix_keeps:
  "inv s \<Longrightarrow> list_all guard fs \<Longrightarrow> prefix es fs \<Longrightarrow> inv (foldl step s es)"
  by (rule run_keeps) (auto simp: prefix_def)

end

text \<open>
  A component that, in addition, never lets a measured quantity exceed a bound that its
  operations do not change: the bound holds along every run that starts below it.
\<close>

locale bounded_machine = invariant_machine step inv guard
  for step :: "'s \<Rightarrow> 'e \<Rightarrow> 's" and inv :: "'s \<Rightarrow> bool" and guard :: "'e \<Rightarrow> bool" +
  fixes amount :: "'s \<Rightarrow> nat"
    and limit :: "'s \<Rightarrow> nat"
  assumes inv_bound: "inv s \<Longrightarrow> amount s \<le> limit s"
    and step_limit: "limit (step s e) = limit s"
begin

lemma run_limit: "limit (foldl step s es) = limit s"
  by (induction es arbitrary: s) (auto simp: step_limit)

lemma run_bound: "inv s \<Longrightarrow> list_all guard es \<Longrightarrow> amount (foldl step s es) \<le> limit s"
  using inv_bound [OF run_keeps, of s es] by (simp add: run_limit)

end

section \<open>Stores of settings\<close>

text \<open>
  The contract between the components that record settings and the store that keeps them: a
  recorded setting reads back, and whatever else happens to the store leaves it alone as long
  as it is about something else. \<open>None\<close> is a store that could not be written.
\<close>

locale settings_store =
  fixes save :: "'k \<Rightarrow> 'v \<Rightarrow> 's \<Rightarrow> 's option"
    and lookup :: "'s \<Rightarrow> 'k \<Rightarrow> 'w option"
    and stored :: "'v \<Rightarrow> 'w"
    and happens :: "'s \<Rightarrow> 'e \<Rightarrow> 's"
    and spares :: "'k \<Rightarrow> 'e \<Rightarrow> bool"
  assumes save_lookup: "save k v s = Some s' \<Longrightarrow> lookup s' k = Some (stored v)"
    and others_spared: "spares k e \<Longrightarrow> lookup (happens s e) k = lookup s k"
begin

lemma spared: "list_all (spares k) es \<Longrightarrow> lookup (foldl happens s es) k = lookup s k"
  by (induction es arbitrary: s) (simp_all add: others_spared)

lemma saved_stays:
  "save k v s = Some s' \<Longrightarrow> list_all (spares k) es \<Longrightarrow> lookup (foldl happens s' es) k = Some (stored v)"
  by (simp add: spared save_lookup)

end

end
