(* ===== verification/Py_Str.thy ===== *)
theory Py_Str
  imports Prelude
begin

text \<open>
  The methods of Python's \<open>str\<close> and the conversions that the client uses, on texts whose
  code points are all below 256: a \<open>char\<close> is such a code point and a \<open>string\<close> such a text,
  so \<open>length\<close> is Python's \<open>len\<close>. On this range every method is given exactly (white space
  includes U+0085 and U+00A0, \<open>isdigit\<close> includes the superscripts, \<open>lower\<close> includes the
  accented capitals). Texts with code points from 256 on are outside the model.
\<close>

section \<open>Characters\<close>

definition cp :: "char \<Rightarrow> int" where
  "cp c = of_char c"

definition is_space :: "char \<Rightarrow> bool" where
  "is_space c \<longleftrightarrow> (9 \<le> cp c \<and> cp c \<le> 13) \<or> (28 \<le> cp c \<and> cp c \<le> 32) \<or> cp c = 133 \<or> cp c = 160"

definition is_decimal :: "char \<Rightarrow> bool" where
  "is_decimal c \<longleftrightarrow> 48 \<le> cp c \<and> cp c \<le> 57"

text \<open>\<open>str.isdigit\<close> also holds of the superscripts U+00B2, U+00B3 and U+00B9.\<close>

definition is_digit_char :: "char \<Rightarrow> bool" where
  "is_digit_char c \<longleftrightarrow> is_decimal c \<or> cp c = 178 \<or> cp c = 179 \<or> cp c = 185"

definition is_printable_char :: "char \<Rightarrow> bool" where
  "is_printable_char c \<longleftrightarrow> (32 \<le> cp c \<and> cp c \<le> 126) \<or> (161 \<le> cp c \<and> cp c \<noteq> 173)"

definition is_upper_ascii :: "char \<Rightarrow> bool" where
  "is_upper_ascii c \<longleftrightarrow> 65 \<le> cp c \<and> cp c \<le> 90"

definition is_lower_ascii :: "char \<Rightarrow> bool" where
  "is_lower_ascii c \<longleftrightarrow> 97 \<le> cp c \<and> cp c \<le> 122"

definition is_alnum_ascii :: "char \<Rightarrow> bool" where
  "is_alnum_ascii c \<longleftrightarrow> is_upper_ascii c \<or> is_lower_ascii c \<or> is_decimal c"

definition is_hex_char :: "char \<Rightarrow> bool" where
  "is_hex_char c \<longleftrightarrow> is_decimal c \<or> (65 \<le> cp c \<and> cp c \<le> 70) \<or> (97 \<le> cp c \<and> cp c \<le> 102)"

definition lower_char :: "char \<Rightarrow> char" where
  "lower_char c =
     (if is_upper_ascii c \<or> (192 \<le> cp c \<and> cp c \<le> 222 \<and> cp c \<noteq> 215) then char_of (cp c + 32)
      else c)"

definition upper_char_ascii :: "char \<Rightarrow> char" where
  "upper_char_ascii c = (if is_lower_ascii c then char_of (cp c - 32) else c)"

lemmas char_class_defs [py_simps] =
  is_space_def is_decimal_def is_digit_char_def is_printable_char_def is_upper_ascii_def
  is_lower_ascii_def is_alnum_ascii_def is_hex_char_def

section \<open>Whole-string operations\<close>

definition py_lower :: "string \<Rightarrow> string" where
  "py_lower s = map lower_char s"

definition py_upper_ascii :: "string \<Rightarrow> string" where
  "py_upper_ascii s = map upper_char_ascii s"

definition lstrip_by :: "(char \<Rightarrow> bool) \<Rightarrow> string \<Rightarrow> string" where
  "lstrip_by p s = dropWhile p s"

definition rstrip_by :: "(char \<Rightarrow> bool) \<Rightarrow> string \<Rightarrow> string" where
  "rstrip_by p s = rev (dropWhile p (rev s))"

definition strip_by :: "(char \<Rightarrow> bool) \<Rightarrow> string \<Rightarrow> string" where
  "strip_by p s = rstrip_by p (lstrip_by p s)"

definition py_strip :: "string \<Rightarrow> string" where
  "py_strip s = strip_by is_space s"

text \<open>\<open>s.isdigit()\<close>: not empty, and digits only.\<close>

definition py_isdigit :: "string \<Rightarrow> bool" where
  "py_isdigit s \<longleftrightarrow> s \<noteq> [] \<and> list_all is_digit_char s"

text \<open>The first occurrence of a separator: what is before it and what is after it.\<close>

fun break_at :: "string \<Rightarrow> string \<Rightarrow> (string \<times> string) option" where
  "break_at sep [] = (if sep = [] then Some ([], []) else None)"
| "break_at sep (c # cs) =
     (if prefix sep (c # cs) then Some ([], drop (length sep) (c # cs))
      else map_option (\<lambda>(a, b). (c # a, b)) (break_at sep cs))"

definition py_contains :: "string \<Rightarrow> string \<Rightarrow> bool" where
  "py_contains sep s \<longleftrightarrow> break_at sep s \<noteq> None"

definition py_partition :: "string \<Rightarrow> string \<Rightarrow> string \<times> string \<times> string" where
  "py_partition sep s =
     (case break_at sep s of Some (a, b) \<Rightarrow> (a, sep, b) | None \<Rightarrow> (s, [], []))"

definition starts_with :: "string \<Rightarrow> string \<Rightarrow> bool" where
  "starts_with p s \<longleftrightarrow> prefix p s"

definition ends_with :: "string \<Rightarrow> string \<Rightarrow> bool" where
  "ends_with p s \<longleftrightarrow> suffix p s"

text \<open>\<open>s.find(c)\<close> for a character: its first index, or -1.\<close>

definition find_char :: "char \<Rightarrow> string \<Rightarrow> int" where
  "find_char c s =
     (let k = length (takeWhile (\<lambda>x. x \<noteq> c) s) in if k < length s then int k else -1)"

text \<open>\<open>s[i:j]\<close> for \<open>0 \<le> i \<le> j\<close>.\<close>

definition slice :: "nat \<Rightarrow> nat \<Rightarrow> string \<Rightarrow> string" where
  "slice i j s = take (j - i) (drop i s)"

text \<open>\<open>s.split(c)\<close> on one character: the fields between the separators, empty ones kept.\<close>

fun split_char :: "char \<Rightarrow> string \<Rightarrow> string list" where
  "split_char c [] = [[]]"
| "split_char c (x # xs) =
     (if x = c then [] # split_char c xs
      else (case split_char c xs of [] \<Rightarrow> [[x]] | f # fs \<Rightarrow> (x # f) # fs))"

text \<open>\<open>s.split()\<close>: the maximal runs without white space.\<close>

fun split_ws :: "string \<Rightarrow> string list" where
  "split_ws [] = []"
| "split_ws (x # xs) =
     (if is_space x then split_ws xs
      else (case xs of
              [] \<Rightarrow> [[x]]
            | y # _ \<Rightarrow>
                if is_space y then [x] # split_ws xs
                else (case split_ws xs of [] \<Rightarrow> [[x]] | f # fs \<Rightarrow> (x # f) # fs)))"

text \<open>\<open>s.splitlines()\<close>: line ends are LF, VT, FF, CR, CR LF, FS, GS, RS and NEL.\<close>

definition is_line_end :: "char \<Rightarrow> bool" where
  "is_line_end c \<longleftrightarrow> (10 \<le> cp c \<and> cp c \<le> 13) \<or> (28 \<le> cp c \<and> cp c \<le> 30) \<or> cp c = 133"

definition after_line_end :: "char \<Rightarrow> string \<Rightarrow> string" where
  "after_line_end c cs =
     (case cs of d # ds \<Rightarrow> if cp c = 13 \<and> cp d = 10 then ds else cs | [] \<Rightarrow> [])"

lemma length_after_line_end [termination_simp]: "length (after_line_end c cs) \<le> length cs"
  by (auto simp: after_line_end_def split: list.splits)

lemma length_after_line_end_less [termination_simp]:
  "length (after_line_end c cs) < Suc (length cs)"
  using length_after_line_end [of c cs] by simp

fun splitlines_acc :: "string \<Rightarrow> string \<Rightarrow> string list" where
  "splitlines_acc acc [] = (if acc = [] then [] else [rev acc])"
| "splitlines_acc acc (c # cs) =
     (if is_line_end c then rev acc # splitlines_acc [] (after_line_end c cs)
      else splitlines_acc (c # acc) cs)"

definition py_splitlines :: "string \<Rightarrow> string list" where
  "py_splitlines s = splitlines_acc [] s"

text \<open>\<open>s.replace(c, "")\<close> for a character.\<close>

definition remove_char :: "char \<Rightarrow> string \<Rightarrow> string" where
  "remove_char c s = filter (\<lambda>x. x \<noteq> c) s"

text \<open>\<open>len(s.encode())\<close>: a code point from 128 to 255 takes two bytes in UTF-8.\<close>

definition utf8_length :: "string \<Rightarrow> nat" where
  "utf8_length s = sum_list (map (\<lambda>c. if cp c < 128 then 1 else 2) s)"

section \<open>Integers as text\<close>

text \<open>
  \<open>int(s)\<close> for a text without surrounding white space (every caller strips it or takes a
  field of \<open>split\<close>): an optional sign, then decimal digits in which single underscores may
  stand between two digits; more than 4300 digits are refused by the interpreter.
\<close>

fun digits_ok :: "bool \<Rightarrow> string \<Rightarrow> bool" where
  "digits_ok after_digit [] = after_digit"
| "digits_ok after_digit (c # cs) =
     (if is_decimal c then digits_ok True cs
      else if cp c = 95 \<and> after_digit then digits_ok False cs
      else False)"

definition digits_value :: "string \<Rightarrow> int" where
  "digits_value s = foldl (\<lambda>n c. 10 * n + (cp c - 48)) 0 (filter is_decimal s)"

definition max_str_digits :: int where
  "max_str_digits = 4300"

definition py_int_digits :: "string \<Rightarrow> int result" where
  "py_int_digits s =
     (if digits_ok False s \<and> int (length (filter is_decimal s)) \<le> max_str_digits
      then Inr (digits_value s) else Inl (ValueError NotAnInt))"

definition py_int :: "string \<Rightarrow> int result" where
  "py_int s =
     (case s of
        [] \<Rightarrow> Inl (ValueError NotAnInt)
      | c # cs \<Rightarrow>
          if cp c = 45 then bind_result (py_int_digits cs) (\<lambda>n. Inr (- n))
          else if cp c = 43 then py_int_digits cs
          else py_int_digits s)"

text \<open>\<open>str(n)\<close>, and the two hexadecimal forms the code formats.\<close>

definition digit_char :: "nat \<Rightarrow> char" where
  "digit_char d = char_of (48 + d)"

fun show_nat :: "nat \<Rightarrow> string" where
  "show_nat n = (if n < 10 then [digit_char n] else show_nat (n div 10) @ [digit_char (n mod 10)])"

declare show_nat.simps [simp del]

definition show_int :: "int \<Rightarrow> string" where
  "show_int n = (if n < 0 then CHR ''-'' # show_nat (nat (- n)) else show_nat (nat n))"

definition hex_digit :: "nat \<Rightarrow> char" where
  "hex_digit d = (if d < 10 then char_of (48 + d) else char_of (87 + d))"

definition show_hex2 :: "nat \<Rightarrow> string" where
  "show_hex2 n = [hex_digit (n div 16 mod 16), hex_digit (n mod 16)]"

definition show_hex4 :: "nat \<Rightarrow> string" where
  "show_hex4 n =
     [hex_digit (n div 4096 mod 16), hex_digit (n div 256 mod 16),
      hex_digit (n div 16 mod 16), hex_digit (n mod 16)]"

section \<open>Facts about the operations\<close>

lemma of_char_less_256: "(of_char c :: nat) < 256"
  by simp

lemma cp_nat: "cp c = int (of_char c)"
  by (simp only: cp_def of_nat_of_char)

lemma cp_bound [simp]: "0 \<le> cp c" "cp c < 256"
  unfolding cp_nat by (simp_all only: of_nat_0_le_iff of_nat_less_numeral_iff of_char_less_256)

lemma char_of_cp [simp]: "char_of (cp c) = c"
  by (simp add: cp_def)

lemma cp_char_of: "cp (char_of n) = int (n mod 256)"
  unfolding cp_nat by simp

lemma cp_inject [simp]: "cp c = cp d \<longleftrightarrow> c = d"
  by (simp add: cp_def)

lemma py_strip_Nil [simp]: "py_strip [] = []"
  by (simp add: py_strip_def strip_by_def lstrip_by_def rstrip_by_def)

lemma rstrip_by_id: "s = [] \<or> \<not> p (last s) \<Longrightarrow> rstrip_by p s = s"
  by (cases s rule: rev_cases) (auto simp: rstrip_by_def)

lemma lstrip_by_id: "s = [] \<or> \<not> p (hd s) \<Longrightarrow> lstrip_by p s = s"
  by (cases s) (auto simp: lstrip_by_def)

lemma rstrip_by_last: "rstrip_by p s \<noteq> [] \<Longrightarrow> \<not> p (last (rstrip_by p s))"
  using hd_dropWhile [of p "rev s"] by (auto simp: rstrip_by_def last_rev)

lemma rstrip_by_prefix: "prefix (rstrip_by p s) s"
proof -
  have "suffix (dropWhile p (rev s)) (rev s)"
    by (rule suffix_dropWhile)
  then show ?thesis
    by (simp add: rstrip_by_def suffix_to_prefix)
qed

lemma rstrip_by_hd: "rstrip_by p s \<noteq> [] \<Longrightarrow> hd (rstrip_by p s) = hd s"
  using rstrip_by_prefix [of p s] by (cases "rstrip_by p s") (auto simp: prefix_def)

lemma lstrip_by_hd: "lstrip_by p s \<noteq> [] \<Longrightarrow> \<not> p (hd (lstrip_by p s))"
  by (simp add: lstrip_by_def hd_dropWhile)

lemma strip_by_ends:
  assumes "strip_by p s \<noteq> []"
  shows "\<not> p (hd (strip_by p s))" and "\<not> p (last (strip_by p s))"
proof -
  have ne: "lstrip_by p s \<noteq> []"
    using assms by (auto simp: strip_by_def rstrip_by_def)
  show "\<not> p (hd (strip_by p s))"
    using assms lstrip_by_hd [OF ne] by (simp add: strip_by_def rstrip_by_hd)
  show "\<not> p (last (strip_by p s))"
    using assms by (simp add: strip_by_def rstrip_by_last)
qed

lemma strip_by_id: "s = [] \<or> (\<not> p (hd s) \<and> \<not> p (last s)) \<Longrightarrow> strip_by p s = s"
  by (auto simp: strip_by_def lstrip_by_id rstrip_by_id)

lemma strip_by_idem [simp]: "strip_by p (strip_by p s) = strip_by p s"
  using strip_by_ends [of p s] by (intro strip_by_id) blast

lemma set_strip_by: "set (strip_by p s) \<subseteq> set s"
  by (auto simp: strip_by_def rstrip_by_def lstrip_by_def dest!: set_dropWhileD)

lemma break_at_append: "break_at sep s = Some (a, b) \<Longrightarrow> s = a @ sep @ b"
proof (induction s arbitrary: a)
  case Nil
  then show ?case by (simp split: if_splits)
next
  case (Cons c cs)
  then show ?case
    by (auto split: if_splits simp: prefix_def)
qed

lemma break_at_char: "break_at [c] s = Some (a, b) \<Longrightarrow> c \<notin> set a"
  by (induction s arbitrary: a) (auto split: if_splits)

lemma break_at_hit:
  "(\<And>c. c \<in> set a \<Longrightarrow> c \<noteq> hd sep) \<Longrightarrow> sep \<noteq> [] \<Longrightarrow> break_at sep (a @ sep @ b) = Some (a, b)"
proof (induction a)
  case Nil
  then show ?case by (cases sep) auto
next
  case (Cons x xs)
  then have "\<not> prefix sep (x # xs @ sep @ b)"
    by (cases sep) auto
  then show ?case using Cons by simp
qed

lemma break_at_None_iff: "break_at sep s = None \<longleftrightarrow> (\<nexists>a b. s = a @ sep @ b)"
proof (induction s)
  case Nil
  then show ?case by simp
next
  case (Cons c cs)
  have "(\<exists>a b. c # cs = a @ sep @ b) \<longleftrightarrow> prefix sep (c # cs) \<or> (\<exists>a b. cs = a @ sep @ b)"
    by (auto simp: prefix_def Cons_eq_append_conv)
  then show ?case using Cons.IH by (auto split: if_splits)
qed

lemma py_contains_iff: "py_contains sep s \<longleftrightarrow> sublist sep s"
  by (auto simp: py_contains_def break_at_None_iff sublist_def)

lemma digits_ok_all: "list_all is_decimal s \<Longrightarrow> digits_ok b s \<longleftrightarrow> b \<or> s \<noteq> []"
  by (induction s arbitrary: b) auto

lemma py_int_digits_all:
  "list_all is_decimal s \<Longrightarrow> s \<noteq> [] \<Longrightarrow> int (length s) \<le> max_str_digits \<Longrightarrow>
     py_int_digits s = Inr (digits_value s)"
  by (simp add: py_int_digits_def digits_ok_all list_all_iff cong: filter_cong)

lemma digits_value_snoc:
  "is_decimal d \<Longrightarrow> digits_value (s @ [d]) = 10 * digits_value s + (cp d - 48)"
  by (simp add: digits_value_def)

lemma cp_digit_char: "d < 10 \<Longrightarrow> cp (digit_char d) = 48 + int d"
  by (simp add: digit_char_def cp_char_of)

lemma is_decimal_digit_char: "d < 10 \<Longrightarrow> is_decimal (digit_char d)"
  by (simp add: is_decimal_def cp_digit_char)

lemma show_nat_decimal: "list_all is_decimal (show_nat n) \<and> show_nat n \<noteq> []"
proof (induction n rule: show_nat.induct)
  case (1 n)
  then show ?case
    by (subst (1 2) show_nat.simps) (auto simp: is_decimal_digit_char)
qed

lemma digits_value_show_nat: "digits_value (show_nat n) = int n"
proof (induction n rule: show_nat.induct)
  case (1 n)
  show ?case
  proof (cases "n < 10")
    case True
    then show ?thesis
      by (subst show_nat.simps)
        (simp add: digits_value_def is_decimal_digit_char cp_digit_char)
  next
    case False
    then have "digits_value (show_nat n) = 10 * int (n div 10) + int (n mod 10)"
      using "1.IH" by (subst show_nat.simps)
        (simp add: digits_value_snoc is_decimal_digit_char cp_digit_char)
    also have "\<dots> = int (10 * (n div 10) + n mod 10)"
      by (simp only: of_nat_add of_nat_mult of_nat_numeral)
    finally show ?thesis by simp
  qed
qed

text \<open>Reading back a printed integer gives the integer, up to the interpreter's digit limit.\<close>

lemma py_int_show_int:
  assumes "int (length (show_int n)) \<le> max_str_digits"
  shows "py_int (show_int n) = Inr n"
proof (cases "n < 0")
  case True
  have "py_int (show_int n) = bind_result (py_int_digits (show_nat (nat (- n)))) (\<lambda>k. Inr (- k))"
    using True by (simp add: py_int_def show_int_def cp_def)
  also have "py_int_digits (show_nat (nat (- n))) = Inr (int (nat (- n)))"
    using True assms show_nat_decimal
    by (subst py_int_digits_all) (auto simp: show_int_def digits_value_show_nat)
  finally show ?thesis using True by simp
next
  case False
  obtain c cs where c: "show_nat (nat n) = c # cs" and d: "is_decimal c"
    using show_nat_decimal [of "nat n"] by (cases "show_nat (nat n)") auto
  have "py_int (show_int n) = py_int_digits (show_nat (nat n))"
    using False c d by (simp add: py_int_def show_int_def is_decimal_def)
  also have "\<dots> = Inr (int (nat n))"
    using False assms show_nat_decimal
    by (subst py_int_digits_all) (auto simp: show_int_def digits_value_show_nat)
  finally show ?thesis using False by simp
qed

end
