(* ===== verification/Py_Value.thy ===== *)
theory Py_Value
  imports Py_Str "HOL-Library.Char_ord" "HOL-Library.List_Lexorder"
begin

text \<open>
  The Python values that \<open>json.loads\<close> produces and the client inspects: their truth value,
  \<open>str\<close>, and the dictionary operations. Files are seen the way the code reads them: absent,
  not readable, not UTF-8, text that \<open>json.loads\<close> rejects, or the JSON value the text holds.
  A file that the client replaces is written through a temporary file; the operations are
  explicit, so that what a power cut leaves behind can be stated.
\<close>

section \<open>Values\<close>

text \<open>
  A finite double is kept as what the code observes of it: its \<open>repr\<close>, its integer part
  (\<open>int(x)\<close>) and whether it is zero.
\<close>

datatype py_float =
    Finite string int bool
  | PosInf
  | NegInf
  | NaN

datatype json =
    JNull
  | JBool bool
  | JInt int
  | JFloat py_float
  | JStr string
  | JList "json list"
  | JDict "(string \<times> json) list"

text \<open>\<open>bool(v)\<close>: the falsy values are None, False, zeros and the empty containers.\<close>

fun truthy :: "json \<Rightarrow> bool" where
  "truthy JNull = False"
| "truthy (JBool b) = b"
| "truthy (JInt n) = (n \<noteq> 0)"
| "truthy (JFloat f) = (case f of Finite _ _ z \<Rightarrow> \<not> z | _ \<Rightarrow> True)"
| "truthy (JStr s) = (s \<noteq> [])"
| "truthy (JList xs) = (xs \<noteq> [])"
| "truthy (JDict kvs) = (kvs \<noteq> [])"

subsection \<open>The text of a value\<close>

fun float_repr :: "py_float \<Rightarrow> string" where
  "float_repr (Finite r _ _) = r"
| "float_repr PosInf = ''inf''"
| "float_repr NegInf = ''-inf''"
| "float_repr NaN = ''nan''"

definition repr_char :: "char \<Rightarrow> char \<Rightarrow> string" where
  "repr_char quote c =
     (if c = quote \<or> cp c = 92 then [CHR 0x5C, c]
      else if cp c = 9 then [CHR 0x5C, CHR ''t'']
      else if cp c = 10 then [CHR 0x5C, CHR ''n'']
      else if cp c = 13 then [CHR 0x5C, CHR ''r'']
      else if is_printable_char c then [c]
      else [CHR 0x5C, CHR ''x''] @ show_hex2 (nat (cp c)))"

text \<open>The quote is a single one unless the text has a single quote and no double quote.\<close>

definition str_repr :: "string \<Rightarrow> string" where
  "str_repr s =
     (let quote = if CHR 0x27 \<in> set s \<and> CHR 0x22 \<notin> set s then CHR 0x22 else CHR 0x27
      in [quote] @ concat (map (repr_char quote) s) @ [quote])"

fun comma_join :: "string list \<Rightarrow> string" where
  "comma_join [] = []"
| "comma_join [s] = s"
| "comma_join (s # t # ss) = s @ '', '' @ comma_join (t # ss)"

fun py_repr :: "json \<Rightarrow> string" where
  "py_repr JNull = ''None''"
| "py_repr (JBool b) = (if b then ''True'' else ''False'')"
| "py_repr (JInt n) = show_int n"
| "py_repr (JFloat f) = float_repr f"
| "py_repr (JStr s) = str_repr s"
| "py_repr (JList xs) = ''['' @ comma_join (map py_repr xs) @ '']''"
| "py_repr (JDict kvs) =
     ''{'' @ comma_join (map (\<lambda>(k, v). str_repr k @ '': '' @ py_repr v) kvs) @ ''}''"

definition py_str :: "json \<Rightarrow> string" where
  "py_str v = (case v of JStr s \<Rightarrow> s | _ \<Rightarrow> py_repr v)"

lemma py_str_JStr [simp]: "py_str (JStr s) = s"
  by (simp add: py_str_def)

lemma py_str_JInt [simp]: "py_str (JInt n) = show_int n"
  by (simp add: py_str_def)

subsection \<open>Membership and subscription\<close>

text \<open>
  \<open>k in v\<close> for a text \<open>k\<close>: a key of a dictionary, an element of a list, a substring of a
  text; anything else is not a container. \<open>v[k]\<close> for a text \<open>k\<close> works on dictionaries only,
  and is used where the key is known to be present.
\<close>

definition py_in :: "string \<Rightarrow> json \<Rightarrow> bool result" where
  "py_in k v =
     (case v of
        JDict kvs \<Rightarrow> Inr (map_of kvs k \<noteq> None)
      | JList xs \<Rightarrow> Inr (JStr k \<in> set xs)
      | JStr s \<Rightarrow> Inr (py_contains k s)
      | _ \<Rightarrow> Inl TypeError)"

definition py_subscript :: "json \<Rightarrow> string \<Rightarrow> json result" where
  "py_subscript v k =
     (case v of
        JDict kvs \<Rightarrow> (case map_of kvs k of Some x \<Rightarrow> Inr x | None \<Rightarrow> Inl TypeError)
      | _ \<Rightarrow> Inl TypeError)"

text \<open>\<open>v[k] = x\<close> for a text \<open>k\<close>: dictionaries only.\<close>

definition py_assign :: "json \<Rightarrow> string \<Rightarrow> json \<Rightarrow> json result" where
  "py_assign v k x =
     (case v of JDict kvs \<Rightarrow> Inr (JDict (AList.update k x kvs)) | _ \<Rightarrow> Inl TypeError)"

lemma py_in_JDict [simp]: "py_in k (JDict kvs) = Inr (map_of kvs k \<noteq> None)"
  by (simp add: py_in_def)

lemma py_subscript_JDict [simp]: "map_of kvs k = Some x \<Longrightarrow> py_subscript (JDict kvs) k = Inr x"
  by (simp add: py_subscript_def)

section \<open>Files\<close>

datatype pyfile =
    Absent
  | Hidden
  | Unreadable
  | NotText
  | NotJson
  | LongNumber
  | TooDeep
  | Document json

text \<open>A path is its directory and its base name; a file system maps paths to files.\<close>

type_synonym path = "string \<times> string"
type_synonym fs = "path \<Rightarrow> pyfile"

text \<open>\<open>Path.is_file\<close>, for a path whose directory may be searched. Where it may not, \<open>is_file\<close> raises
  PermissionError (before Python 3.14); such a path is \<open>Hidden\<close>, and the callers for whom it
  makes a difference test for it.\<close>

definition is_file :: "fs \<Rightarrow> path \<Rightarrow> bool" where
  "is_file fs p \<longleftrightarrow> fs p \<noteq> Absent"

text \<open>\<open>json.loads(path.read_text())\<close>. A document that is not JSON and one that is not UTF-8 both
  raise a ValueError, of different subclasses; an integer with more digits than the interpreter
  reads raises the ValueError of \<open>int()\<close>, which is of neither, and a nesting too deep for it a
  RecursionError, which is a RuntimeError.\<close>

definition read_json :: "fs \<Rightarrow> path \<Rightarrow> json result" where
  "read_json fs p =
     (case fs p of
        Document v \<Rightarrow> Inr v
      | NotJson \<Rightarrow> Inl (ValueError JsonDecodeError)
      | NotText \<Rightarrow> Inl (ValueError UnicodeDecodeError)
      | LongNumber \<Rightarrow> Inl (ValueError NotAnInt)
      | TooDeep \<Rightarrow> Inl RuntimeError
      | _ \<Rightarrow> Inl OSError)"

datatype fs_op =
    Mkdir string
  | WriteText path json
  | Chmod path
  | Replace path path

fun do_op :: "fs_op \<Rightarrow> fs \<Rightarrow> fs" where
  "do_op (Mkdir d) fs = fs"
| "do_op (WriteText p v) fs = fs(p := Document v)"
| "do_op (Chmod p) fs = fs"
| "do_op (Replace p q) fs = fs(q := fs p, p := Absent)"

text \<open>
  Running the operations in order; the code never calls \<open>fsync\<close>, so that they also reach the disk
  in this order is a property of the file system. \<open>fails\<close> tells which ones it refuses;
  the first refusal raises OSError and the rest is not done. A refused write may have
  truncated its target.
\<close>

fun run_ops :: "(fs_op \<Rightarrow> bool) \<Rightarrow> fs_op list \<Rightarrow> fs \<Rightarrow> py_error option \<times> fs" where
  "run_ops fails [] fs = (None, fs)"
| "run_ops fails (x # xs) fs =
     (if fails x then (Some OSError, (case x of WriteText p _ \<Rightarrow> fs(p := NotJson) | _ \<Rightarrow> fs))
      else run_ops fails xs (do_op x fs))"

text \<open>What a power cut after \<open>n\<close> operations leaves: the next one, if it is a write, is torn.\<close>

fun cut_after :: "nat \<Rightarrow> fs_op list \<Rightarrow> fs \<Rightarrow> fs" where
  "cut_after n [] fs = fs"
| "cut_after 0 (x # xs) fs = (case x of WriteText p _ \<Rightarrow> fs(p := NotJson) | _ \<Rightarrow> fs)"
| "cut_after (Suc n) (x # xs) fs = cut_after n xs (do_op x fs)"

text \<open>The paths an operation can change.\<close>

fun touched :: "fs_op \<Rightarrow> path set" where
  "touched (Mkdir d) = {}"
| "touched (WriteText p v) = {p}"
| "touched (Chmod p) = {}"
| "touched (Replace p q) = {p, q}"

lemma do_op_untouched: "p \<notin> touched x \<Longrightarrow> do_op x fs p = fs p"
  by (cases x) auto

lemma run_ops_untouched:
  "\<forall>x \<in> set xs. p \<notin> touched x \<Longrightarrow> snd (run_ops fails xs fs) p = fs p"
  by (induction xs arbitrary: fs) (auto simp: do_op_untouched split: fs_op.split)

lemma cut_after_untouched:
  "\<forall>x \<in> set xs. p \<notin> touched x \<Longrightarrow> cut_after n xs fs p = fs p"
  by (induction n xs fs rule: cut_after.induct) (auto simp: do_op_untouched split: fs_op.split)

lemma run_ops_append:
  "run_ops fails (xs @ ys) fs =
     (case run_ops fails xs fs of
        (None, fs') \<Rightarrow> run_ops fails ys fs'
      | (Some e, fs') \<Rightarrow> (Some e, fs'))"
  by (induction xs arbitrary: fs) auto

lemma cut_after_append:
  "cut_after n (xs @ ys) fs =
     (if n < length xs then cut_after n xs fs
      else cut_after (n - length xs) ys (foldl (\<lambda>s x. do_op x s) fs xs))"
  by (induction n xs fs rule: cut_after.induct) auto

lemma run_ops_None:
  "fst (run_ops fails xs fs) = None \<Longrightarrow>
     snd (run_ops fails xs fs) = foldl (\<lambda>s x. do_op x s) fs xs"
  by (induction xs arbitrary: fs) (auto split: if_splits)

lemma run_ops_never_fails: "fst (run_ops (\<lambda>_. False) xs fs) = None"
  by (induction xs arbitrary: fs) auto

text \<open>
  The contract of a writer that replaces a file through a temporary one: it prepares the
  temporary file without touching the target, then renames it. Whatever happens to its
  operations, the target holds its old content or the new one, and only a complete run puts
  the new one there.
\<close>

locale atomic_writer =
  fixes ops :: "'v \<Rightarrow> fs_op list"
    and prep :: "'v \<Rightarrow> fs_op list"
    and tmp :: path
    and target :: path
    and content :: "'v \<Rightarrow> json"
  assumes rename_last: "ops v = prep v @ [Replace tmp target]"
    and prep_apart: "x \<in> set (prep v) \<Longrightarrow> touched x \<subseteq> {tmp}"
    and prep_content: "foldl (\<lambda>s x. do_op x s) fs (prep v) tmp = Document (content v)"
    and tmp_apart: "tmp \<noteq> target"
begin

lemma prep_keeps_target: "x \<in> set (prep v) \<Longrightarrow> target \<notin> touched x"
  using prep_apart tmp_apart by blast

lemma succeeded:
  assumes "run_ops fails (ops v) fs = (None, fs')"
  shows "fs' target = Document (content v)"
proof -
  from assms obtain fs1 where 1: "run_ops fails (prep v) fs = (None, fs1)"
    and 2: "run_ops fails [Replace tmp target] fs1 = (None, fs')"
    by (auto simp: rename_last run_ops_append simp del: run_ops.simps
        split: prod.splits option.splits)
  have "fs1 tmp = Document (content v)"
    using 1 run_ops_None [of fails "prep v" fs] by (simp add: prep_content)
  with 2 show ?thesis
    using tmp_apart by (auto split: if_splits)
qed

lemma failed:
  assumes "run_ops fails (ops v) fs = (Some e, fs')"
  shows "fs' target = fs target"
proof (cases "run_ops fails (prep v) fs")
  case (Pair r fs1)
  have "fs1 target = fs target"
    using run_ops_untouched [of "prep v" target fails fs] prep_keeps_target Pair by auto
  with assms Pair show ?thesis
    by (auto simp: rename_last run_ops_append split: option.splits if_splits)
qed

lemma others:
  assumes "p \<noteq> target" and "p \<noteq> tmp"
  shows "snd (run_ops fails (ops v) fs) p = fs p"
  using assms prep_apart [of _ v] by (intro run_ops_untouched) (fastforce simp: rename_last)

lemma cut: "cut_after n (ops v) fs target \<in> {fs target, Document (content v)}"
proof (cases "n < length (prep v)")
  case True
  then show ?thesis
    using cut_after_untouched [of "prep v" target n fs] prep_keeps_target
    by (simp add: rename_last cut_after_append)
next
  case False
  let ?fs = "foldl (\<lambda>s x. do_op x s) fs (prep v)"
  have old: "?fs target = fs target"
    using run_ops_untouched [of "prep v" target "\<lambda>_. False" fs] prep_keeps_target
      run_ops_None [of "\<lambda>_. False" "prep v" fs]
    by (metis option.exhaust_sel run_ops_never_fails)
  show ?thesis
    using False old tmp_apart prep_content [of fs v]
    by (cases "n - length (prep v)") (auto simp: rename_last cut_after_append)
qed

end

end
