(* ===== verification/Server_Url.thy ===== *)
theory Server_Url
  imports Py_Value
begin

text \<open>
  \<open>normalise_server_url\<close>, \<open>_valid_authority\<close> and \<open>_valid_port\<close> of \<open>config.py\<close>: what makes a
  typed or discovered address usable. The lemmas say which addresses are accepted, that an
  accepted one is a well-formed http or https URL that normalising again leaves alone, and
  which inputs make the check raise instead of answering.
\<close>

section \<open>The checks\<close>

definition valid_port :: "string \<Rightarrow> bool result" where
  "valid_port port =
     (if py_isdigit port
      then bind_result (py_int port) (\<lambda>n. Inr (0 < n \<and> n \<le> 65535))
      else Inr False)"

text \<open>The two \<open>re.fullmatch\<close> patterns of \<open>_valid_authority\<close>.\<close>

definition ipv6_host :: "string \<Rightarrow> bool" where
  "ipv6_host h \<longleftrightarrow> h \<noteq> [] \<and> list_all (\<lambda>c. is_hex_char c \<or> c = CHR '':'' \<or> c = CHR ''.'') h"

definition plain_host :: "string \<Rightarrow> bool" where
  "plain_host h \<longleftrightarrow>
     h \<noteq> [] \<and> is_alnum_ascii (hd h) \<and> is_alnum_ascii (last h) \<and>
     list_all (\<lambda>c. is_alnum_ascii c \<or> c = CHR ''.'' \<or> c = CHR ''-'') h"

definition valid_authority :: "string \<Rightarrow> bool result" where
  "valid_authority authority =
     (if starts_with ''['' authority then
        (let close = find_char (CHR '']'') authority in
         if close < 2 then Inr False
         else
           (let host = slice 1 (nat close) authority;
                port = drop (nat close + 1) authority
            in bind_result
                 (if port \<noteq> []
                  then (if starts_with '':'' port then valid_port (drop 1 port) else Inr False)
                  else Inr True)
                 (\<lambda>ok. if \<not> ok then Inr False else Inr (ipv6_host host))))
      else
        (case py_partition '':'' authority of
           (host, sep, port) \<Rightarrow>
             bind_result (if sep \<noteq> [] then valid_port port else Inr True)
               (\<lambda>ok. if \<not> ok then Inr False else Inr (plain_host host))))"

definition with_scheme :: "string \<Rightarrow> string" where
  "with_scheme text = (if py_contains ''://'' text then text else ''http://'' @ text)"

definition normalise_server_url :: "string \<Rightarrow> string result" where
  "normalise_server_url raw =
     (let text = py_strip raw in
      if text = [] then Inr []
      else
        (case py_partition ''://'' (with_scheme text) of
           (scheme, _, rest0) \<Rightarrow>
             let rest = rstrip_by (\<lambda>c. c = CHR ''/'') rest0 in
             if py_lower scheme \<notin> {''http'', ''https''} \<or> rest = [] then Inr []
             else bind_result (valid_authority (takeWhile (\<lambda>c. c \<noteq> CHR ''/'') rest))
                    (\<lambda>ok. if \<not> ok then Inr [] else Inr (py_lower scheme @ ''://'' @ rest))))"

section \<open>Ports\<close>

lemma py_int_digits_error: "py_int_digits s = Inl e \<Longrightarrow> e = ValueError NotAnInt"
  by (auto simp: py_int_digits_def split: if_splits)

lemma py_int_error: "py_int s = Inl e \<Longrightarrow> e = ValueError NotAnInt"
  by (auto simp: py_int_def bind_result_Inl_iff dest: py_int_digits_error
      split: list.splits if_splits)

text \<open>A text of ASCII digits, not longer than the interpreter's limit, is always read.\<close>

lemma py_int_of_digits:
  assumes "list_all is_decimal s" and "s \<noteq> []" and "int (length s) \<le> max_str_digits"
  shows "py_int s = Inr (digits_value s)"
proof -
  have "is_decimal (hd s)" using assms by (cases s) auto
  then have "py_int s = py_int_digits s"
    using assms(2) by (cases s) (auto simp: py_int_def is_decimal_def)
  then show ?thesis using assms by (simp add: py_int_digits_all)
qed

text \<open>A port that the check accepts consists of ASCII digits.\<close>

lemma digits_ok_digit_chars:
  "digits_ok b s \<Longrightarrow> list_all is_digit_char s \<Longrightarrow> list_all is_decimal s"
  by (induction s arbitrary: b) (auto simp: is_digit_char_def split: if_splits)

lemma py_int_isdigit_decimal:
  assumes "py_isdigit s" and "py_int s = Inr n"
  shows "list_all is_decimal s"
proof -
  obtain c cs where s: "s = c # cs" and c: "is_digit_char c" "list_all is_digit_char cs"
    using assms(1) by (cases s) (auto simp: py_isdigit_def)
  have "py_int_digits s = Inr n"
    using assms(2) c(1) by (auto simp: py_int_def s is_digit_char_def is_decimal_def split: if_splits)
  then have "digits_ok False s"
    by (auto simp: py_int_digits_def split: if_splits)
  then show ?thesis
    using assms(1) by (auto simp: py_isdigit_def intro: digits_ok_digit_chars)
qed

lemma valid_port_True:
  "valid_port p = Inr True \<Longrightarrow> list_all is_decimal p \<and> p \<noteq> []"
  by (auto simp: valid_port_def bind_result_Inr_iff py_isdigit_def
      intro: py_int_isdigit_decimal split: if_splits)

text \<open>A text that \<open>isdigit\<close> takes for a number and \<open>int\<close> does not: a digit is no ASCII digit (a
  superscript), or there are more digits than the interpreter reads.\<close>

definition unreadable_port :: "string \<Rightarrow> bool" where
  "unreadable_port p \<longleftrightarrow> p \<noteq> [] \<and> list_all is_digit_char p \<and>
     (list_all is_decimal p \<longrightarrow> max_str_digits < int (length p))"

lemma valid_port_raises: "valid_port p = Inl e \<longleftrightarrow> e = ValueError NotAnInt \<and> unreadable_port p"
proof (cases "py_isdigit p")
  case True
  then obtain c cs where p: "p = c # cs" and c: "is_digit_char c" "list_all is_digit_char cs"
    by (cases p) (auto simp: py_isdigit_def)
  have i: "py_int p = py_int_digits p"
    using c(1) by (auto simp: py_int_def p is_digit_char_def is_decimal_def)
  have d: "digits_ok False p \<longleftrightarrow> list_all is_decimal p"
    using True py_int_of_digits digits_ok_digit_chars [of False p] digits_ok_all [of p]
    by (auto simp: py_isdigit_def)
  have n: "list_all is_decimal p \<Longrightarrow> filter is_decimal p = p" by (simp add: list_all_iff)
  show ?thesis
    using True by (auto simp: valid_port_def unreadable_port_def py_isdigit_def i py_int_digits_def d n not_le
        bind_result_Inl_iff split: if_splits)
qed (auto simp: valid_port_def unreadable_port_def py_isdigit_def)

section \<open>Authorities\<close>

definition authority_char :: "char \<Rightarrow> bool" where
  "authority_char c \<longleftrightarrow> is_alnum_ascii c \<or> c \<in> {CHR ''.'', CHR ''-'', CHR '':'', CHR ''['', CHR '']''}"

lemma is_decimal_authority: "is_decimal c \<Longrightarrow> authority_char c"
  by (simp add: authority_char_def is_alnum_ascii_def)

lemma is_hex_authority: "is_hex_char c \<Longrightarrow> authority_char c"
  by (auto simp: authority_char_def char_class_defs)

lemma bracketed_split:
  assumes "starts_with ''['' a" and "\<not> find_char (CHR '']'') a < 2"
  defines "k \<equiv> nat (find_char (CHR '']'') a)"
  shows "a = ''['' @ slice 1 k a @ '']'' @ drop (k + 1) a"
proof -
  let ?pre = "takeWhile (\<lambda>x. x \<noteq> CHR '']'') a"
  have k: "k = length ?pre" and lt: "length ?pre < length a" and two: "2 \<le> k"
    using assms(2) by (auto simp: find_char_def k_def Let_def split: if_splits)
  have "a = take k a @ drop k a" by simp
  also have "drop k a = a ! k # drop (k + 1) a"
    using lt k by (simp add: Cons_nth_drop_Suc)
  also have "a ! k = CHR '']''"
    using nth_length_takeWhile [OF lt] k by simp
  also have "take k a = CHR ''['' # slice 1 k a"
    using assms(1) two by (cases a) (auto simp: starts_with_def slice_def take_Cons')
  finally show ?thesis by simp
qed

lemma valid_authority_chars:
  assumes "valid_authority a = Inr True"
  shows "list_all authority_char a \<and> a \<noteq> []"
proof (cases "starts_with ''['' a")
  case True
  let ?c = "find_char (CHR '']'') a"
  let ?h = "slice 1 (nat ?c) a" and ?p = "drop (nat ?c + 1) a"
  have c: "\<not> ?c < 2" and h: "ipv6_host ?h"
    and p: "?p = [] \<or> (starts_with '':'' ?p \<and> valid_port (drop 1 ?p) = Inr True)"
    using assms True
    by (auto simp: valid_authority_def Let_def bind_result_Inr_iff split: if_splits)
  have "?p = [] \<or> (\<exists>q. ?p = '':'' @ q \<and> valid_port q = Inr True)"
    using p by (metis One_nat_def append_eq_conv_conj length_Cons list.size(3) prefix_def starts_with_def)
  then have "list_all authority_char ?p"
    by (auto simp: authority_char_def list_all_iff is_alnum_ascii_def dest!: valid_port_True)
  moreover have "list_all authority_char ?h"
    using h is_hex_authority by (fastforce simp: ipv6_host_def list_all_iff authority_char_def)
  moreover have "authority_char (CHR ''['')" and "authority_char (CHR '']'')"
    by (simp_all add: authority_char_def)
  ultimately have "list_all authority_char (''['' @ ?h @ '']'' @ ?p)" by simp
  then have "list_all authority_char a"
    by (rule subst [OF bracketed_split [OF True c, symmetric]])
  then show ?thesis using True by (auto simp: starts_with_def)
next
  case False
  obtain host sep port where part: "py_partition '':'' a = (host, sep, port)"
    by (metis prod_cases3)
  have h: "plain_host host" and p: "sep = [] \<or> valid_port port = Inr True"
    using assms False part by (auto simp: valid_authority_def bind_result_Inr_iff split: if_splits)
  have hc: "list_all authority_char host" "host \<noteq> []"
    using h by (auto simp: plain_host_def list_all_iff authority_char_def)
  have "a = host \<or> (a = host @ '':'' @ port \<and> sep = '':'')"
    using part by (auto simp: py_partition_def dest: break_at_append split: option.splits)
  moreover have "valid_port port = Inr True \<Longrightarrow> list_all authority_char port"
    by (auto simp: list_all_iff is_decimal_authority dest!: valid_port_True)
  ultimately show ?thesis
    using hc p by (auto simp: authority_char_def)
qed

text \<open>What stands before the port of an authority: a bracketed host, or one without a colon.\<close>

definition host_part :: "string \<Rightarrow> bool" where
  "host_part h \<longleftrightarrow>
     (if starts_with ''['' h then 2 < length h \<and> last h = CHR '']'' \<and> CHR '']'' \<notin> set (butlast h)
      else CHR '':'' \<notin> set h)"

lemma valid_authority_plain:
  assumes "host_part h" and "\<not> starts_with ''['' h"
  shows "valid_authority (h @ '':'' @ port) =
    bind_result (valid_port port) (\<lambda>ok. if \<not> ok then Inr False else Inr (plain_host h))"
proof -
  have "break_at '':'' (h @ '':'' @ port) = Some (h, port)"
    using assms by (intro break_at_hit) (auto simp: host_part_def)
  moreover have "\<not> starts_with ''['' (h @ '':'' @ port)"
    using assms(2) by (cases h) (auto simp: starts_with_def)
  ultimately show ?thesis by (simp add: valid_authority_def py_partition_def)
qed

lemma valid_authority_bracketed:
  assumes "host_part h" and "starts_with ''['' h"
  shows "valid_authority (h @ '':'' @ port) =
    bind_result (valid_port port)
      (\<lambda>ok. if \<not> ok then Inr False else Inr (ipv6_host (slice 1 (length h - 1) h)))"
proof -
  obtain b where h: "h = b @ '']''" and b: "CHR '']'' \<notin> set b" "2 \<le> length b"
    using assms by (cases h rule: rev_cases) (auto simp: host_part_def)
  have t: "takeWhile (\<lambda>x. x \<noteq> CHR '']'') (h @ '':'' @ port) = b"
    unfolding h by (simp, subst takeWhile_append2) (use b(1) in auto)
  have c: "find_char (CHR '']'') (h @ '':'' @ port) = int (length b)"
    unfolding find_char_def t by (simp add: h)
  have s: "starts_with ''['' (h @ '':'' @ port)" using assms(2) by (simp add: starts_with_def)
  have d: "drop (length b + 1) (h @ '':'' @ port) = '':'' @ port" by (simp add: h)
  have l: "slice 1 (length b) (h @ '':'' @ port) = slice 1 (length h - 1) h"
    by (simp add: slice_def h)
  show ?thesis
    using s b(2) by (simp only: valid_authority_def c Let_def if_True nat_int d l) (simp add: starts_with_def)
qed

lemma bracketed_host_part:
  assumes "starts_with ''['' a" and "\<not> find_char (CHR '']'') a < 2"
  shows "host_part (''['' @ slice 1 (nat (find_char (CHR '']'') a)) a @ '']'')"
proof -
  let ?c = "nat (find_char (CHR '']'') a)"
  let ?pre = "takeWhile (\<lambda>x. x \<noteq> CHR '']'') a"
  have k: "?c = length ?pre" "length ?pre < length a" "2 \<le> ?c"
    using assms(2) by (auto simp: find_char_def Let_def split: if_splits)
  have "''['' @ slice 1 ?c a = take ?c a"
    using assms(1) k(3) by (cases a) (auto simp: starts_with_def slice_def take_Cons')
  also have "\<dots> = ?pre" unfolding k(1) by (rule takeWhile_eq_take [symmetric])
  finally have p: "''['' @ slice 1 ?c a = ?pre" .
  then have "CHR '']'' \<notin> set (''['' @ slice 1 ?c a)" by (auto dest: set_takeWhileD)
  moreover have "2 \<le> length (''['' @ slice 1 ?c a)" using k(1,3) unfolding p by simp
  ultimately show ?thesis
    by (cases "slice 1 ?c a") (simp_all add: host_part_def starts_with_def)
qed

lemma valid_authority_raises:
  "valid_authority a = Inl e \<longleftrightarrow> e = ValueError NotAnInt \<and>
     (\<exists>h port. a = h @ '':'' @ port \<and> host_part h \<and> unreadable_port port)"
proof
  assume r: "valid_authority a = Inl e"
  have "\<exists>h port. a = h @ '':'' @ port \<and> host_part h \<and> valid_port port = Inl e"
  proof (cases "starts_with ''['' a")
    case True
    let ?c = "find_char (CHR '']'') a"
    let ?h = "slice 1 (nat ?c) a" and ?p = "drop (nat ?c + 1) a"
    have c: "\<not> ?c < 2" and p: "starts_with '':'' ?p" "valid_port (drop 1 ?p) = Inl e"
      using r True by (auto simp: valid_authority_def Let_def bind_result_Inl_iff split: if_splits)
    have "?p = '':'' @ drop 1 ?p" using p(1) by (cases ?p) (auto simp: starts_with_def)
    with bracketed_split [OF True c] have "a = (''['' @ ?h @ '']'') @ '':'' @ drop 1 ?p" by simp
    then show ?thesis using bracketed_host_part [OF True c] p(2) by blast
  next
    case False
    then obtain h port where b: "break_at '':'' a = Some (h, port)" and p: "valid_port port = Inl e"
      using r by (auto simp: valid_authority_def py_partition_def bind_result_Inl_iff split: option.splits if_splits)
    have a: "a = h @ '':'' @ port" using b by (rule break_at_append)
    then have "\<not> starts_with ''['' h" using False by (auto simp: starts_with_def)
    then have "host_part h" using break_at_char [OF b] by (simp add: host_part_def)
    then show ?thesis using a p by blast
  qed
  then show "e = ValueError NotAnInt \<and> (\<exists>h port. a = h @ '':'' @ port \<and> host_part h \<and> unreadable_port port)"
    by (auto simp: valid_port_raises)
next
  assume "e = ValueError NotAnInt \<and> (\<exists>h port. a = h @ '':'' @ port \<and> host_part h \<and> unreadable_port port)"
  then obtain h port where a: "a = h @ '':'' @ port" "host_part h" "valid_port port = Inl e"
    by (auto simp: valid_port_raises)
  then show "valid_authority a = Inl e"
    using valid_authority_plain [OF a(2)] valid_authority_bracketed [OF a(2)]
    by (cases "starts_with ''['' h") simp_all
qed

section \<open>Normalised addresses\<close>

text \<open>What an accepted address looks like.\<close>

definition server_url_ok :: "string \<Rightarrow> bool" where
  "server_url_ok u \<longleftrightarrow>
     (\<exists>scheme \<in> {''http'', ''https''}. \<exists>rest.
        u = scheme @ ''://'' @ rest \<and> rest \<noteq> [] \<and> last rest \<noteq> CHR ''/'' \<and>
        valid_authority (takeWhile (\<lambda>c. c \<noteq> CHR ''/'') rest) = Inr True)"

lemma normalise_cases:
  assumes "normalise_server_url raw = r"
  obtains (empty) "r = Inr []"
  | (checked) scheme rest where
      "py_partition ''://'' (with_scheme (py_strip raw)) = (scheme, ''://'', rest)"
      "py_lower scheme \<in> {''http'', ''https''}"
      "rstrip_by (\<lambda>c. c = CHR ''/'') rest \<noteq> []"
      "bind_result
         (valid_authority (takeWhile (\<lambda>c. c \<noteq> CHR ''/'') (rstrip_by (\<lambda>c. c = CHR ''/'') rest)))
         (\<lambda>ok. if \<not> ok then Inr []
               else Inr (py_lower scheme @ ''://'' @ rstrip_by (\<lambda>c. c = CHR ''/'') rest)) = r"
proof (cases "py_strip raw = []")
  case True
  then show ?thesis using assms empty by (simp add: normalise_server_url_def)
next
  case False
  obtain s sep rest where part: "py_partition ''://'' (with_scheme (py_strip raw)) = (s, sep, rest)"
    by (metis prod_cases3)
  show ?thesis
  proof (cases "py_lower s \<notin> {''http'', ''https''} \<or> rstrip_by (\<lambda>c. c = CHR ''/'') rest = []")
    case True
    then show ?thesis
      using assms False part empty by (auto simp: normalise_server_url_def Let_def)
  next
    case ok: False
    have "sep = ''://''"
      using part ok by (auto simp: py_partition_def rstrip_by_def split: option.splits)
    then show ?thesis
      using assms False part ok checked [of s rest]
      by (auto simp: normalise_server_url_def Let_def)
  qed
qed

lemma normalise_ok:
  assumes "normalise_server_url raw = Inr u" and "u \<noteq> []"
  shows "server_url_ok u"
  using assms(1)
proof (cases rule: normalise_cases)
  case empty
  with assms(2) show ?thesis by simp
next
  case (checked scheme rest)
  let ?rest = "rstrip_by (\<lambda>c. c = CHR ''/'') rest"
  have v: "valid_authority (takeWhile (\<lambda>c. c \<noteq> CHR ''/'') ?rest) = Inr True"
    and u: "u = py_lower scheme @ ''://'' @ ?rest"
    using checked(4) assms(2) by (auto simp: bind_result_Inr_iff split: if_splits)
  moreover have "last ?rest \<noteq> CHR ''/''"
    using rstrip_by_last [OF checked(3)] by simp
  ultimately show ?thesis
    using checked(2,3) by (auto simp: server_url_ok_def)
qed

lemma py_strip_id: "s = [] \<or> (\<not> is_space (hd s) \<and> \<not> is_space (last s)) \<Longrightarrow> py_strip s = s"
  by (simp add: py_strip_def strip_by_id)

text \<open>Normalising a well-formed address returns it, unless it ends in white space.\<close>

lemma normalise_fixpoint:
  assumes ok: "server_url_ok u" and last: "\<not> is_space (last u)"
  shows "normalise_server_url u = Inr u"
proof -
  obtain scheme rest where s: "scheme \<in> {''http'', ''https''}"
    and u: "u = scheme @ ''://'' @ rest" and r: "rest \<noteq> []" "last rest \<noteq> CHR ''/''"
    and v: "valid_authority (takeWhile (\<lambda>c. c \<noteq> CHR ''/'') rest) = Inr True"
    using ok unfolding server_url_ok_def by blast
  have colon: "\<And>c. c \<in> set scheme \<Longrightarrow> c \<noteq> hd ''://''" using s by auto
  have part: "break_at ''://'' u = Some (scheme, rest)"
    unfolding u by (rule break_at_hit [OF colon]) simp_all
  have "is_space (CHR ''h'') = False" by (simp add: is_space_def cp_def)
  then have strip: "py_strip u = u"
    using s last by (intro py_strip_id) (auto simp: u)
  have low: "py_lower scheme = scheme"
    using s by (auto simp: py_lower_def lower_char_def is_upper_ascii_def cp_def)
  show ?thesis
    using part strip low s r v
    by (auto simp: normalise_server_url_def with_scheme_def py_contains_def py_partition_def Let_def
        rstrip_by_id u)
qed

text \<open>Trimming slashes does not change what is before the first one.\<close>

lemma before_slash_trimmed:
  "takeWhile (\<lambda>c. c \<noteq> CHR ''/'') (rstrip_by (\<lambda>c. c = CHR ''/'') s) = takeWhile (\<lambda>c. c \<noteq> CHR ''/'') s"
proof (induction s rule: rev_induct)
  case (snoc x xs)
  then show ?case
    by (cases "x = CHR ''/''") (simp_all add: rstrip_by_def takeWhile_append)
qed (simp add: rstrip_by_def)

text \<open>The address of which normalisation reads a port that it cannot.\<close>

definition unreadable_address :: "string \<Rightarrow> bool" where
  "unreadable_address text \<longleftrightarrow>
     (\<exists>scheme h port path. text = scheme @ ''://'' @ h @ '':'' @ port @ path \<and>
        py_lower scheme \<in> {''http'', ''https''} \<and> CHR ''/'' \<notin> set h \<and> (path = [] \<or> hd path = CHR ''/'') \<and>
        host_part h \<and> unreadable_port port)"

lemma normalise_raises:
  "normalise_server_url raw = Inl e \<longleftrightarrow>
     e = ValueError NotAnInt \<and> unreadable_address (with_scheme (py_strip raw))"
proof
  assume "normalise_server_url raw = Inl e"
  then show "e = ValueError NotAnInt \<and> unreadable_address (with_scheme (py_strip raw))"
  proof (cases rule: normalise_cases)
    case (checked scheme rest)
    let ?a = "takeWhile (\<lambda>c. c \<noteq> CHR ''/'') rest" and ?path = "dropWhile (\<lambda>c. c \<noteq> CHR ''/'') rest"
    have "valid_authority ?a = Inl e"
      using checked(4) unfolding before_slash_trimmed by (auto simp: bind_result_Inl_iff split: if_splits)
    then obtain h port where a: "?a = h @ '':'' @ port" "host_part h" "unreadable_port port"
      and e: "e = ValueError NotAnInt"
      by (auto simp: valid_authority_raises)
    have "with_scheme (py_strip raw) = scheme @ ''://'' @ rest"
      using checked(1) by (auto simp: py_partition_def dest: break_at_append split: option.splits)
    also have "rest = h @ '':'' @ port @ ?path"
      using takeWhile_dropWhile_id [of "\<lambda>c. c \<noteq> CHR ''/''" rest] unfolding a(1) by simp
    finally have w: "with_scheme (py_strip raw) = scheme @ ''://'' @ h @ '':'' @ port @ ?path" .
    have "CHR ''/'' \<notin> set ?a" by (auto dest: set_takeWhileD)
    then have "CHR ''/'' \<notin> set h" unfolding a(1) by simp
    moreover have "?path = [] \<or> hd ?path = CHR ''/''"
      using hd_dropWhile [of "\<lambda>c. c \<noteq> CHR ''/''" rest] by blast
    ultimately show ?thesis
      using e w a(2,3) checked(2) unfolding unreadable_address_def by blast
  qed simp
next
  assume r: "e = ValueError NotAnInt \<and> unreadable_address (with_scheme (py_strip raw))"
  then obtain scheme h port path where w: "with_scheme (py_strip raw) = scheme @ ''://'' @ h @ '':'' @ port @ path"
    and s: "py_lower scheme \<in> {''http'', ''https''}" and h: "CHR ''/'' \<notin> set h" "host_part h"
    and path: "path = [] \<or> hd path = CHR ''/''" and port: "unreadable_port port"
    unfolding unreadable_address_def by blast
  let ?rest = "h @ '':'' @ port @ path"
  have "CHR '':'' \<notin> set scheme"
  proof
    assume "CHR '':'' \<in> set scheme"
    then have "lower_char (CHR '':'') \<in> set (py_lower scheme)" by (simp add: py_lower_def)
    moreover have "lower_char (CHR '':'') = CHR '':''" by code_simp
    ultimately show False using s by auto
  qed
  then have b: "break_at ''://'' (with_scheme (py_strip raw)) = Some (scheme, ?rest)"
    unfolding w by (intro break_at_hit) auto
  have p: "CHR ''/'' \<notin> set port"
  proof
    assume "CHR ''/'' \<in> set port"
    then have "is_digit_char (CHR ''/'')" using port by (simp add: unreadable_port_def list_all_iff)
    moreover have "\<not> is_digit_char (CHR ''/'')" by code_simp
    ultimately show False by blast
  qed
  have "c \<noteq> CHR ''/''" if "c \<in> set (h @ '':'' @ port)" for c using that h(1) p by auto
  from takeWhile_append2 [of "h @ '':'' @ port" "\<lambda>c. c \<noteq> CHR ''/''" path, OF this]
  have "takeWhile (\<lambda>c. c \<noteq> CHR ''/'') ?rest = h @ '':'' @ port @ takeWhile (\<lambda>c. c \<noteq> CHR ''/'') path"
    by simp
  moreover have "takeWhile (\<lambda>c. c \<noteq> CHR ''/'') path = []" using path by (cases path) auto
  ultimately have t: "takeWhile (\<lambda>c. c \<noteq> CHR ''/'') (rstrip_by (\<lambda>c. c = CHR ''/'') ?rest) = h @ '':'' @ port"
    by (simp add: before_slash_trimmed)
  then have ne: "rstrip_by (\<lambda>c. c = CHR ''/'') ?rest \<noteq> []" by auto
  have "py_strip raw \<noteq> []"
  proof
    assume "py_strip raw = []"
    then have "break_at ''://'' ''http://'' = Some (scheme, ?rest)" using b by (simp add: with_scheme_def py_contains_def)
    then show False by simp
  qed
  moreover have "valid_authority (h @ '':'' @ port) = Inl e"
    using r h(2) port by (auto simp: valid_authority_raises)
  ultimately show "normalise_server_url raw = Inl e"
    using b s ne by (simp add: normalise_server_url_def Let_def py_partition_def t [simplified])
qed

section \<open>The addresses of the test suite\<close>

lemma normalise_examples:
  "normalise_server_url ''10.0.0.5:3000'' = Inr ''http://10.0.0.5:3000''"
  "normalise_server_url ''  https://vt.example/  '' = Inr ''https://vt.example''"
  "normalise_server_url ''[2001:db8::1]:3000'' = Inr ''http://[2001:db8::1]:3000''"
  "normalise_server_url ''ftp://vt.example'' = Inr []"
  "normalise_server_url ''http://'' = Inr []"
  "normalise_server_url ''://nope'' = Inr []"
  "normalise_server_url '';;;'' = Inr []"
  "normalise_server_url ''10.0.0.5:notaport'' = Inr []"
  "normalise_server_url ''10.0.0.5:99999'' = Inr []"
  by code_simp+

section \<open>Properties\<close>

text \<open>C28. An address that \<open>normalise_server_url\<close> accepts is \<open>http://\<close> or \<open>https://\<close> in lower
  case, followed by a non-empty rest that does not end in a slash and whose part before the
  first slash passed the authority check; every character of that authority is an ASCII
  letter or digit, a dot, a dash, a colon or a square bracket.\<close>

theorem normalise_accepts:
  assumes "normalise_server_url raw = Inr u" and "u \<noteq> []"
  shows "\<exists>scheme rest. (scheme = ''http'' \<or> scheme = ''https'') \<and> u = scheme @ ''://'' @ rest \<and>
    rest \<noteq> [] \<and> last rest \<noteq> CHR ''/'' \<and>
    valid_authority (takeWhile (\<lambda>c. c \<noteq> CHR ''/'') rest) = Inr True \<and>
    list_all authority_char (takeWhile (\<lambda>c. c \<noteq> CHR ''/'') rest)"
  using normalise_ok [OF assms] valid_authority_chars unfolding server_url_ok_def by blast

lemma normalise_accepts_witness:
  "\<exists>scheme rest. (scheme = ''http'' \<or> scheme = ''https'') \<and>
    ''http://10.0.0.5:3000/a'' = scheme @ ''://'' @ rest \<and> rest \<noteq> [] \<and> last rest \<noteq> CHR ''/'' \<and>
    valid_authority (takeWhile (\<lambda>c. c \<noteq> CHR ''/'') rest) = Inr True \<and>
    list_all authority_char (takeWhile (\<lambda>c. c \<noteq> CHR ''/'') rest)"
proof -
  have "normalise_server_url '' 10.0.0.5:3000/a/ '' = Inr ''http://10.0.0.5:3000/a''"
    by code_simp
  then show ?thesis by (rule normalise_accepts) simp
qed

text \<open>Normalising is idempotent on what it accepts: an accepted address that does not end
  in white space is returned unchanged, so an address saved by the setup screen or by
  discovery reads back as itself.\<close>

theorem normalise_idempotent:
  assumes "normalise_server_url raw = Inr u" and "u \<noteq> []" and "\<not> is_space (last u)"
  shows "normalise_server_url u = Inr u"
  using normalise_ok [OF assms(1,2)] assms(3) by (rule normalise_fixpoint)

lemma normalise_idempotent_witness:
  "normalise_server_url ''https://vt.example'' = Inr ''https://vt.example''"
proof -
  have "normalise_server_url ''HTTPS://vt.example//'' = Inr ''https://vt.example''"
    by code_simp
  then show ?thesis
    by (rule normalise_idempotent) (simp_all add: is_space_def cp_def)
qed

text \<open>C29. Which addresses make normalisation raise instead of answering: exactly those that, with
  the default scheme in front if they have none, are \<open>scheme://host:port\<close>, perhaps with a path,
  where the scheme is http or https in any case, the host is bracketed or has no colon, and the
  port is a text of digits that \<open>int()\<close> refuses, because one of them is no ASCII digit (a
  superscript) or there are more than 4300. The exception is always the ValueError of \<open>int()\<close>.\<close>

theorem normalise_raises_only:
  "normalise_server_url raw = Inl e \<longleftrightarrow> e = ValueError NotAnInt \<and>
    (\<exists>scheme host port path.
       with_scheme (py_strip raw) = scheme @ ''://'' @ host @ '':'' @ port @ path \<and>
       py_lower scheme \<in> {''http'', ''https''} \<and> CHR ''/'' \<notin> set host \<and>
       (path = [] \<or> hd path = CHR ''/'') \<and>
       (if starts_with ''['' host
        then 2 < length host \<and> last host = CHR '']'' \<and> CHR '']'' \<notin> set (butlast host)
        else CHR '':'' \<notin> set host) \<and>
       port \<noteq> [] \<and> list_all is_digit_char port \<and> (4300 < length port \<or> (\<exists>c \<in> set port. \<not> is_decimal c)))"
proof -
  have "unreadable_port p \<longleftrightarrow>
      p \<noteq> [] \<and> list_all is_digit_char p \<and> (4300 < length p \<or> (\<exists>c \<in> set p. \<not> is_decimal c))" for p
    by (auto simp: unreadable_port_def max_str_digits_def list_all_iff)
  then show ?thesis
    unfolding normalise_raises unreadable_address_def host_part_def by simp
qed

lemma normalise_raises_only_witness:
  "normalise_server_url (''10.0.0.5:'' @ [CHR 0xB2]) = Inl (ValueError NotAnInt) \<and>
   normalise_server_url (''10.0.'' @ [CHR 0xB2] @ ''.5:80'') = Inr []"
proof -
  have w: "with_scheme (py_strip (''10.0.0.5:'' @ [CHR 0xB2])) =
      ''http'' @ ''://'' @ ''10.0.0.5'' @ '':'' @ [CHR 0xB2] @ []"
    and c: "py_lower ''http'' = ''http''" "\<not> starts_with ''['' ''10.0.0.5''" "is_digit_char (CHR 0xB2)"
      "\<not> is_decimal (CHR 0xB2)"
    by code_simp+
  have "normalise_server_url (''10.0.0.5:'' @ [CHR 0xB2]) = Inl (ValueError NotAnInt)"
    unfolding normalise_raises_only
    by (intro conjI exI [of _ "''http''"] exI [of _ "''10.0.0.5''"] exI [of _ "[CHR 0xB2]"] exI [of _ "[]"])
      (use w c in simp_all)
  moreover have "normalise_server_url (''10.0.'' @ [CHR 0xB2] @ ''.5:80'') = Inr []" by code_simp
  ultimately show ?thesis by blast
qed

end
