(* ===== verification/Models.thy ===== *)
theory Models
  imports Server_Url "HOL-Library.Multiset"
begin

text \<open>
  \<open>models.py\<close>: a dashboard, how it is read from an entry of the server's answer under its
  aliases, and the order in which dashboards are shown. The key the code sorts by is a type
  of its own with the lexicographic order, so that the library's stable sort applies to it.
\<close>

section \<open>Reading a payload\<close>

datatype payload_field = IdField | NameField | OrderField | EnabledField | GroupField

definition aliases :: "payload_field \<Rightarrow> string list" where
  "aliases f =
     (case f of
        IdField \<Rightarrow> [''id'', ''dashboardId'', ''dashboard_id'', ''uuid'']
      | NameField \<Rightarrow> [''name'', ''title'', ''label'']
      | OrderField \<Rightarrow> [''sortOrder'', ''sort_order'', ''order'', ''position'']
      | EnabledField \<Rightarrow> [''isEnabled'', ''is_enabled'', ''enabled'']
      | GroupField \<Rightarrow> [''group'', ''groupName'', ''group_name'', ''category'', ''folder''])"

fun pick_alias :: "(string \<times> json) list \<Rightarrow> string list \<Rightarrow> json" where
  "pick_alias payload [] = JNull"
| "pick_alias payload (a # as) =
     (case map_of payload a of
        Some v \<Rightarrow> if v \<noteq> JNull then v else pick_alias payload as
      | None \<Rightarrow> pick_alias payload as)"

definition pick :: "(string \<times> json) list \<Rightarrow> payload_field \<Rightarrow> json" where
  "pick payload f = pick_alias payload (aliases f)"

definition view_url :: "string \<Rightarrow> string \<Rightarrow> string" where
  "view_url base_url dashboard_id =
     rstrip_by (\<lambda>c. c = CHR ''/'') base_url @ ''/view'' @ ''/'' @ dashboard_id"

text \<open>A dashboard; the fields carry the prefix \<open>d_\<close> because \<open>id\<close> is a constant of HOL.\<close>

record dashboard =
  d_id :: string
  d_name :: string
  d_url :: string
  d_order :: int
  d_group :: string

definition as_order :: "json \<Rightarrow> int result" where
  "as_order v =
     (case v of
        JBool _ \<Rightarrow> Inr 0
      | JNull \<Rightarrow> Inr 0
      | JInt n \<Rightarrow> Inr n
      | JFloat f \<Rightarrow>
          (case f of
             Finite _ n _ \<Rightarrow> Inr n
           | NaN \<Rightarrow> Inl (ValueError NanToInt)
           | _ \<Rightarrow> Inl OverflowError)
      | _ \<Rightarrow>
          (let text = py_strip (py_str v) in
           if py_isdigit (lstrip_by (\<lambda>c. c = CHR ''-'') text) then py_int text else Inr 0))"

definition from_payload :: "(string \<times> json) list \<Rightarrow> string \<Rightarrow> dashboard result" where
  "from_payload payload base_url =
     (let raw_id = pick payload IdField in
      if \<not> truthy raw_id then Inl (ValueError DashboardWithoutId)
      else
        (let name = pick payload NameField; grp = pick payload GroupField in
         bind_result (as_order (pick payload OrderField)) (\<lambda>ord.
           Inr \<lparr>d_id = py_str raw_id,
                d_name = (if truthy name then py_str name else py_str raw_id),
                d_url = view_url base_url (py_str raw_id),
                d_order = ord,
                d_group = (if truthy grp then py_str grp else [])\<rparr>)))"

definition is_enabled :: "(string \<times> json) list \<Rightarrow> bool" where
  "is_enabled payload =
     (let v = pick payload EnabledField in if v = JNull then True else truthy v)"

section \<open>The order of dashboards\<close>

datatype order_key = OrderKey (key_order: int) (key_name: string)

instantiation order_key :: linorder
begin

definition less_eq_order_key :: "order_key \<Rightarrow> order_key \<Rightarrow> bool" where
  "less_eq_order_key a b \<longleftrightarrow>
     key_order a < key_order b \<or> (key_order a = key_order b \<and> key_name a \<le> key_name b)"

definition less_order_key :: "order_key \<Rightarrow> order_key \<Rightarrow> bool" where
  "less_order_key a b \<longleftrightarrow>
     key_order a < key_order b \<or> (key_order a = key_order b \<and> key_name a < key_name b)"

instance
proof
  fix a b c :: order_key
  show "a < b \<longleftrightarrow> a \<le> b \<and> \<not> b \<le> a"
    by (auto simp: less_eq_order_key_def less_order_key_def)
  show "a \<le> a" by (simp add: less_eq_order_key_def)
  show "a \<le> b \<Longrightarrow> b \<le> c \<Longrightarrow> a \<le> c"
    by (auto simp: less_eq_order_key_def)
  show "a \<le> b \<Longrightarrow> b \<le> a \<Longrightarrow> a = b"
    by (auto simp: less_eq_order_key_def intro: order_key.expand)
  show "a \<le> b \<or> b \<le> a"
    by (auto simp: less_eq_order_key_def)
qed

end

definition dashboard_key :: "dashboard \<Rightarrow> order_key" where
  "dashboard_key d = OrderKey (d_order d) (py_lower (d_name d))"

text \<open>Python's \<open>sorted\<close> is stable, as is the library's \<open>sort_key\<close>.\<close>

definition sort_dashboards :: "dashboard list \<Rightarrow> dashboard list" where
  "sort_dashboards ds = sort_key dashboard_key ds"

section \<open>Facts about payloads\<close>

lemma pick_alias_first:
  "pick_alias payload as = v \<Longrightarrow> v \<noteq> JNull \<Longrightarrow>
     \<exists>us a ws. as = us @ a # ws \<and> map_of payload a = Some v \<and>
       (\<forall>u \<in> set us. map_of payload u = None \<or> map_of payload u = Some JNull)"
proof (induction as)
  case Nil
  then show ?case by simp
next
  case (Cons a as)
  show ?case
  proof (cases "map_of payload a = None \<or> map_of payload a = Some JNull")
    case True
    then obtain us a' ws where "as = us @ a' # ws" "map_of payload a' = Some v"
      "\<forall>u \<in> set us. map_of payload u = None \<or> map_of payload u = Some JNull"
      using Cons by auto
    then show ?thesis using True by (intro exI [of _ "a # us"]) auto
  next
    case False
    then show ?thesis
      using Cons.prems by (intro exI [of _ "[]"] exI [of _ a] exI [of _ as]) auto
  qed
qed

lemma pick_alias_None:
  "pick_alias payload as = JNull \<longleftrightarrow>
     (\<forall>a \<in> set as. map_of payload a = None \<or> map_of payload a = Some JNull)"
  by (induction as) (auto split: option.splits)

lemma as_order_show_int:
  assumes "int (length (show_int n)) \<le> max_str_digits"
  shows "as_order (JStr (show_int n)) = Inr n"
proof -
  obtain c cs where digits: "show_nat (nat \<bar>n\<bar>) = c # cs" and c: "is_decimal c"
    and cs: "list_all is_decimal cs"
    using show_nat_decimal [of "nat \<bar>n\<bar>"] by (cases "show_nat (nat \<bar>n\<bar>)") auto
  have form: "show_int n = (if n < 0 then ''-'' else []) @ c # cs"
    using digits by (cases "n < 0") (simp_all add: show_int_def)
  have nospace: "list_all (\<lambda>x. \<not> is_space x) (show_int n)"
    using c cs by (auto simp: form list_all_iff is_space_def is_decimal_def cp_def)
  then have "py_strip (show_int n) = show_int n"
    unfolding py_strip_def by (intro strip_by_id) (cases "show_int n = []"; simp add: list_all_iff)
  moreover have "c \<noteq> CHR ''-''" using c by (auto simp: is_decimal_def cp_def)
  then have "lstrip_by (\<lambda>x. x = CHR ''-'') (show_int n) = c # cs"
    by (simp add: form lstrip_by_def)
  moreover have "py_isdigit (c # cs)"
    using c cs by (simp add: py_isdigit_def is_digit_char_def list_all_iff)
  ultimately show ?thesis
    using py_int_show_int [OF assms] by (simp add: as_order_def Let_def)
qed

lemma as_order_error:
  assumes "as_order v = Inl e"
  shows "(e = OverflowError \<and> (v = JFloat PosInf \<or> v = JFloat NegInf)) \<or>
    (e = ValueError NanToInt \<and> v = JFloat NaN) \<or> e = ValueError NotAnInt"
  using assms py_int_error
  by (auto simp: as_order_def Let_def split: json.splits py_float.splits if_splits)

lemma from_payload_error:
  "from_payload payload base_url = Inl e \<Longrightarrow>
     (\<exists>v. e = ValueError v) \<or> (e = OverflowError \<and> pick payload OrderField \<in> {JFloat PosInf, JFloat NegInf})"
  by (auto simp: from_payload_def Let_def bind_result_Inl_iff dest: as_order_error split: if_splits)

lemma from_payload_Inr:
  "from_payload payload base_url = Inr d \<Longrightarrow>
     truthy (pick payload IdField) \<and> d_id d = py_str (pick payload IdField) \<and>
     d_url d = view_url base_url (d_id d) \<and> as_order (pick payload OrderField) = Inr (d_order d)"
  by (auto simp: from_payload_def Let_def bind_result_Inr_iff split: if_splits)

section \<open>Facts about the order\<close>

lemma set_sort_dashboards [simp]: "set (sort_dashboards ds) = set ds"
  by (simp add: sort_dashboards_def)

lemma sort_dashboards_sorted: "sorted (map dashboard_key (sort_dashboards ds))"
  by (simp add: sort_dashboards_def)

lemma sort_dashboards_fixpoint:
  "sorted (map dashboard_key ds) \<Longrightarrow> sort_dashboards ds = ds"
  by (simp add: sort_dashboards_def sort_key_id_if_sorted)

section \<open>Properties\<close>

text \<open>C31. The dashboards are shown in the order of their \<open>order\<close> value and, among equal ones,
  of their lower-case name; nothing is lost or repeated, and dashboards that agree in both
  keep the order the server gave.\<close>

theorem sort_dashboards_correct:
  "sorted_wrt (\<lambda>a b. d_order a < d_order b \<or>
      (d_order a = d_order b \<and> py_lower (d_name a) \<le> py_lower (d_name b))) (sort_dashboards ds) \<and>
    mset (sort_dashboards ds) = mset ds \<and>
    filter (\<lambda>d. d_order d = n \<and> py_lower (d_name d) = t) (sort_dashboards ds)
      = filter (\<lambda>d. d_order d = n \<and> py_lower (d_name d) = t) ds"
proof -
  have k: "(\<lambda>d. d_order d = n \<and> py_lower (d_name d) = t) = (\<lambda>d. dashboard_key d = OrderKey n t)"
    by (auto simp: dashboard_key_def)
  have "sorted_wrt (\<lambda>a b. dashboard_key a \<le> dashboard_key b) (sort_dashboards ds)"
    using sort_dashboards_sorted [of ds] by (simp add: sorted_map)
  moreover have "filter (\<lambda>d. dashboard_key d = OrderKey n t) (sort_dashboards ds)
      = filter (\<lambda>d. dashboard_key d = OrderKey n t) ds"
    unfolding sort_dashboards_def by (rule sort_key_stable)
  ultimately show ?thesis
    by (simp add: k) (simp add: sort_dashboards_def dashboard_key_def less_eq_order_key_def)
qed

text \<open>A dashboard read from an entry has the id of the first alias, in the order \<open>id\<close>,
  \<open>dashboardId\<close>, \<open>dashboard_id\<close>, \<open>uuid\<close>, whose value is not null, and the page the server
  renders for that id.\<close>

theorem from_payload_id:
  assumes "from_payload payload base_url = Inr d"
  shows "\<exists>us a ws v. [''id'', ''dashboardId'', ''dashboard_id'', ''uuid''] = us @ a # ws \<and>
    map_of payload a = Some v \<and> truthy v \<and> d_id d = py_str v \<and>
    (\<forall>u \<in> set us. map_of payload u = None \<or> map_of payload u = Some JNull) \<and>
    d_url d = rstrip_by (\<lambda>c. c = CHR ''/'') base_url @ ''/view/'' @ d_id d"
proof -
  note d = from_payload_Inr [OF assms]
  then have "pick payload IdField \<noteq> JNull" by auto
  then obtain us a ws where "aliases IdField = us @ a # ws"
    "map_of payload a = Some (pick payload IdField)"
    "\<forall>u \<in> set us. map_of payload u = None \<or> map_of payload u = Some JNull"
    using pick_alias_first [OF pick_def [symmetric]] by blast
  then show ?thesis
    using d by (intro exI [of _ us] exI [of _ a] exI [of _ ws] exI [of _ "pick payload IdField"])
      (simp add: aliases_def view_url_def)
qed

lemma from_payload_id_witness:
  "\<exists>d. from_payload [(''id'', JNull), (''uuid'', JInt 7)] ''http://vt/'' = Inr d \<and>
    d_url d = ''http://vt/view/7''"
proof -
  have p: "from_payload [(''id'', JNull), (''uuid'', JInt 7)] ''http://vt/'' =
      Inr \<lparr>d_id = ''7'', d_name = ''7'', d_url = ''http://vt/view/7'', d_order = 0, d_group = []\<rparr>"
    by code_simp
  have "rstrip_by (\<lambda>c. c = CHR ''/'') ''http://vt/'' = ''http://vt''" by code_simp
  then show ?thesis using p from_payload_id [OF p] by auto
qed

text \<open>The sort order of an entry fails to be read in three ways only, although the code
  means it never to fail: an infinite number raises OverflowError, a NaN raises ValueError,
  and so does a text that, after its leading dashes, \<open>isdigit\<close> accepts and \<open>int\<close> does not:
  two dashes or more, a superscript digit, or too many digits.\<close>

theorem as_order_raises_only:
  assumes "as_order v = Inl e"
  shows "(e = OverflowError \<and> (v = JFloat PosInf \<or> v = JFloat NegInf)) \<or>
    (e = ValueError NanToInt \<and> v = JFloat NaN) \<or>
    (e = ValueError NotAnInt \<and>
      (let text = py_strip (py_str v) in
        py_isdigit (lstrip_by (\<lambda>c. c = CHR ''-'') text) \<and>
        (starts_with ''--'' text \<or> (\<exists>c \<in> set text. is_digit_char c \<and> \<not> is_decimal c) \<or>
         4300 < int (length text))))"
proof (cases "\<exists>f. v = JFloat f")
  case True
  then show ?thesis using assms by (auto simp: as_order_def split: py_float.splits)
next
  case False
  let ?t = "py_strip (py_str v)"
  let ?u = "lstrip_by (\<lambda>c. c = CHR ''-'') ?t"
  have d: "py_isdigit ?u" and e: "py_int ?t = Inl e"
    using assms False by (auto simp: as_order_def Let_def split: json.splits if_splits)
  have "starts_with ''--'' ?t \<or> (\<exists>c \<in> set ?t. is_digit_char c \<and> \<not> is_decimal c) \<or>
      4300 < int (length ?t)"
  proof (rule ccontr)
    assume n: "\<not> ?thesis"
    have sub: "set ?u \<subseteq> set ?t" by (auto simp: lstrip_by_def dest: set_dropWhileD)
    then have dec: "list_all is_decimal ?u" and ne: "?u \<noteq> []"
      using d n by (auto simp: py_isdigit_def list_all_iff)
    have len: "int (length ?u) \<le> max_str_digits"
      using n length_dropWhile_le [of "\<lambda>c. c = CHR ''-''" ?t]
      by (simp add: max_str_digits_def lstrip_by_def)
    have u: "py_int_digits ?u = Inr (digits_value ?u)"
      using dec ne len by (rule py_int_digits_all)
    have "?t = ?u \<or> ?t = CHR ''-'' # ?u"
      using n by (cases ?t; cases "tl ?t") (auto simp: lstrip_by_def starts_with_def)
    moreover have "is_decimal (hd ?u)" using dec ne by (cases ?u) auto
    ultimately have "\<exists>n. py_int ?t = Inr n"
      using u ne by (cases ?u) (auto simp: py_int_def is_decimal_def cp_def)
    with e show False by simp
  qed
  then show ?thesis
    using d py_int_error [OF e] by (simp add: Let_def)
qed

lemma as_order_raises_only_witness:
  "as_order (JStr ''--5'') = Inl (ValueError NotAnInt) \<and>
   as_order (JFloat PosInf) = Inl OverflowError \<and>
   py_isdigit (lstrip_by (\<lambda>c. c = CHR ''-'') (py_strip ''--5''))"
proof -
  have e: "as_order (JStr ''--5'') = Inl (ValueError NotAnInt)"
    and i: "as_order (JFloat PosInf) = Inl OverflowError"
    by code_simp+
  show ?thesis using e i as_order_raises_only [OF e] by (simp add: Let_def)
qed

end
