(* ===== verification/Menu.thy ===== *)
theory Menu
  imports Models
begin

text \<open>
  \<open>ui/menu.py\<close>: the dashboard chooser. Its state is the list it shows, the selected index, the
  rows of its list box and the one that is highlighted, and whether it is revealed. A row is
  what its labels say. The lemmas say that what is highlighted is always what OK would open, that
  moving wraps around and can be undone, and that the chooser only ever activates a
  dashboard that exists.
\<close>

text \<open>A row shows a badge (its number, or a dot after the ninth), the name, and the group if there
  is one.\<close>

datatype row_badge = BadgeNumber int | BadgeDot

record menu_row =
  row_badge :: row_badge
  row_title :: string
  row_subtitle :: "string option"

definition build_row :: "int \<Rightarrow> dashboard \<Rightarrow> menu_row" where
  "build_row number d =
     \<lparr>row_badge = (if number \<le> 9 then BadgeNumber number else BadgeDot), row_title = d_name d,
      row_subtitle = (if d_group d \<noteq> [] then Some (d_group d) else None)\<rparr>"

fun build_rows :: "int \<Rightarrow> dashboard list \<Rightarrow> menu_row list" where
  "build_rows number [] = []"
| "build_rows number (d # ds) = build_row number d # build_rows (number + 1) ds"

record menu =
  menu_dashboards :: "dashboard list"
  menu_rows :: "menu_row list"
  menu_selected :: int
  menu_highlight :: "int option"
  menu_revealed :: bool

definition make_menu :: menu where
  "make_menu =
     \<lparr>menu_dashboards = [], menu_rows = [], menu_selected = 0, menu_highlight = None, menu_revealed = False\<rparr>"

definition menu_select :: "int \<Rightarrow> menu \<Rightarrow> menu" where
  "menu_select index m =
     (if menu_dashboards m = [] then m
      else
        (let selected = max 0 (min index (int (length (menu_dashboards m)) - 1))
         in m\<lparr>menu_selected := selected, menu_highlight := Some selected\<rparr>))"

text \<open>\<open>set_dashboards\<close> removes every row, the highlighted one included, and adds the new ones.\<close>

definition menu_set_dashboards :: "dashboard list \<Rightarrow> menu \<Rightarrow> menu" where
  "menu_set_dashboards ds m =
     menu_select (min (menu_selected m) (max (int (length ds) - 1) 0))
       (m\<lparr>menu_dashboards := ds, menu_rows := build_rows 1 ds, menu_highlight := None\<rparr>)"

definition menu_open :: "int \<Rightarrow> menu \<Rightarrow> menu" where
  "menu_open current_index m =
     (if menu_dashboards m = [] then m else (menu_select current_index m)\<lparr>menu_revealed := True\<rparr>)"

definition menu_close :: "menu \<Rightarrow> menu" where
  "menu_close m = m\<lparr>menu_revealed := False\<rparr>"

definition menu_toggle :: "int \<Rightarrow> menu \<Rightarrow> menu" where
  "menu_toggle current_index m =
     (if menu_revealed m then menu_close m else menu_open current_index m)"

definition menu_move :: "int \<Rightarrow> menu \<Rightarrow> menu" where
  "menu_move delta m =
     (if menu_dashboards m = [] then m
      else menu_select ((menu_selected m + delta) mod int (length (menu_dashboards m))) m)"

text \<open>The index \<open>activate_selected\<close> hands to the callback, if any.\<close>

definition menu_activated :: "menu \<Rightarrow> int option" where
  "menu_activated m = (if menu_dashboards m = [] then None else Some (menu_selected m))"

section \<open>What the menu keeps\<close>

definition menu_inv :: "menu \<Rightarrow> bool" where
  "menu_inv m \<longleftrightarrow>
     menu_rows m = build_rows 1 (menu_dashboards m) \<and>
     (if menu_dashboards m = [] then menu_highlight m = None \<and> 0 \<le> menu_selected m
      else 0 \<le> menu_selected m \<and> menu_selected m < int (length (menu_dashboards m)) \<and>
           menu_highlight m = Some (menu_selected m))"

datatype menu_event =
    MenuSetDashboards "dashboard list"
  | MenuOpen int
  | MenuClose
  | MenuToggle int
  | MenuMove int
  | MenuSelect int

fun menu_step :: "menu \<Rightarrow> menu_event \<Rightarrow> menu" where
  "menu_step m (MenuSetDashboards ds) = menu_set_dashboards ds m"
| "menu_step m (MenuOpen i) = menu_open i m"
| "menu_step m MenuClose = menu_close m"
| "menu_step m (MenuToggle i) = menu_toggle i m"
| "menu_step m (MenuMove d) = menu_move d m"
| "menu_step m (MenuSelect i) = menu_select i m"

lemma menu_select_dashboards [simp]:
  "menu_dashboards (menu_select i m) = menu_dashboards m"
  "menu_revealed (menu_select i m) = menu_revealed m"
  "menu_rows (menu_select i m) = menu_rows m"
  by (simp_all add: menu_select_def Let_def)

lemma menu_frame [simp]:
  "menu_dashboards (menu_close m) = menu_dashboards m"
  "menu_dashboards (menu_open i m) = menu_dashboards m"
  "menu_dashboards (menu_toggle i m) = menu_dashboards m"
  "menu_dashboards (menu_move d m) = menu_dashboards m"
  "menu_dashboards (menu_set_dashboards ds m) = ds"
  by (simp_all add: menu_close_def menu_open_def menu_toggle_def menu_move_def menu_set_dashboards_def)

lemma menu_inv_select [keep]: "menu_inv m \<Longrightarrow> menu_inv (menu_select i m)"
  by (auto simp: menu_inv_def menu_select_def Let_def)

lemma menu_inv_set [keep]: "menu_inv m \<Longrightarrow> menu_inv (menu_set_dashboards ds m)"
  by (auto simp: menu_inv_def menu_set_dashboards_def menu_select_def Let_def split: if_splits)

lemma menu_inv_frame: "menu_inv (m\<lparr>menu_revealed := b\<rparr>) = menu_inv m"
  by (simp add: menu_inv_def)

lemma menu_inv_ops [keep]:
  "menu_inv m \<Longrightarrow> menu_inv (menu_close m)"
  "menu_inv m \<Longrightarrow> menu_inv (menu_open i m)"
  "menu_inv m \<Longrightarrow> menu_inv (menu_toggle i m)"
  "menu_inv m \<Longrightarrow> menu_inv (menu_move d m)"
  by (simp_all add: menu_close_def menu_open_def menu_toggle_def menu_move_def menu_inv_frame
      menu_inv_select)

interpretation chooser: invariant_machine menu_step menu_inv "\<lambda>_. True"
proof unfold_locales
  show "menu_inv (menu_step m e)" if "menu_inv m" for m e
    using that by (cases e) (simp_all add: keep)
qed

lemma make_menu_inv: "menu_inv make_menu"
  by (simp add: menu_inv_def make_menu_def)

lemma build_rows_length [simp]: "length (build_rows n ds) = length ds"
  by (induction ds arbitrary: n) simp_all

lemma build_rows_nth: "i < length ds \<Longrightarrow> build_rows n ds ! i = build_row (n + int i) (ds ! i)"
proof (induction ds arbitrary: n i)
  case (Cons d ds)
  then show ?case by (cases i) (simp_all add: algebra_simps)
qed simp

lemma menu_rows_badge:
  assumes "menu_inv m" and "i < length (menu_rows m)"
  shows "row_badge (menu_rows m ! i) = (if i < 9 then BadgeNumber (int i + 1) else BadgeDot)"
  using assms by (simp add: menu_inv_def build_rows_nth build_row_def)

lemma menu_move_selected:
  assumes "menu_dashboards m \<noteq> []"
  shows "menu_selected (menu_move d m) = (menu_selected m + d) mod int (length (menu_dashboards m))"
proof -
  let ?n = "int (length (menu_dashboards m))"
  have "0 < ?n" using assms by simp
  then have "0 \<le> (menu_selected m + d) mod ?n" "(menu_selected m + d) mod ?n < ?n"
    by simp_all
  then show ?thesis
    using assms by (simp add: menu_move_def menu_select_def Let_def)
qed

section \<open>Properties\<close>

text \<open>After any sequence of uses, what OK opens is an existing dashboard, and it is the one
  that is highlighted on screen: with dashboards, the selected index is in range and is the
  highlighted row; without any, nothing is highlighted and nothing can be opened.\<close>

theorem menu_shows_what_it_opens:
  assumes "m = foldl menu_step make_menu es"
  shows "(case menu_activated m of
      Some i \<Rightarrow> 0 \<le> i \<and> i < int (length (menu_dashboards m)) \<and> menu_highlight m = Some i
    | None \<Rightarrow> menu_dashboards m = [] \<and> menu_highlight m = None)"
proof -
  have "menu_inv m"
    unfolding assms by (rule chooser.run_keeps [OF make_menu_inv]) (simp add: list_all_iff)
  then show ?thesis by (auto simp: menu_inv_def menu_activated_def)
qed

lemma menu_shows_what_it_opens_witness:
  "\<exists>d m. m = foldl menu_step make_menu [MenuSetDashboards [d, d, d], MenuOpen 2, MenuMove 1, MenuMove (-1),
      MenuSetDashboards [d]] \<and> menu_activated m = Some 0 \<and> menu_highlight m = Some 0 \<and>
    length (menu_dashboards m) = (1 :: nat)"
proof -
  let ?d = "\<lparr>d_id = ''a'', d_name = ''a'', d_url = ''u'', d_order = 0, d_group = []\<rparr>"
  let ?es = "[MenuSetDashboards [?d, ?d, ?d], MenuOpen 2, MenuMove 1, MenuMove (-1), MenuSetDashboards [?d]]"
  have a: "menu_activated (foldl menu_step make_menu ?es) = Some 0" by code_simp
  have l: "length (menu_dashboards (foldl menu_step make_menu ?es)) = 1" by code_simp
  show ?thesis
    using menu_shows_what_it_opens [OF refl, of ?es] a l by (intro exI [of _ ?d]) simp
qed

text \<open>Moving through the chooser wraps around at both ends and can be undone: it selects the
  index modulo the number of dashboards, and moving back by the same amount restores the
  menu.\<close>

theorem menu_move_wraps:
  assumes "menu_inv m" and "menu_dashboards m \<noteq> []"
  shows "menu_selected (menu_move d m) = (menu_selected m + d) mod int (length (menu_dashboards m)) \<and>
    menu_move (- d) (menu_move d m) = m"
proof -
  let ?n = "int (length (menu_dashboards m))"
  have inv: "menu_inv (menu_move (- d) (menu_move d m))" using assms(1) by (simp add: keep)
  have "menu_selected (menu_move (- d) (menu_move d m)) = ((menu_selected m + d) mod ?n + - d) mod ?n"
    using assms(2) by (simp add: menu_move_selected)
  also have "\<dots> = menu_selected m mod ?n" by (simp add: mod_simps)
  also have "\<dots> = menu_selected m" using assms by (simp add: menu_inv_def)
  finally have s: "menu_selected (menu_move (- d) (menu_move d m)) = menu_selected m" .
  have "menu_highlight (menu_move (- d) (menu_move d m)) = menu_highlight m"
    using inv assms s by (simp add: menu_inv_def)
  moreover have "menu_revealed (menu_move (- d) (menu_move d m)) = menu_revealed m"
    "menu_rows (menu_move (- d) (menu_move d m)) = menu_rows m"
    by (simp_all add: menu_move_def)
  ultimately show ?thesis
    using s assms(2) by (simp add: menu_move_selected)
qed

lemma menu_move_wraps_witness:
  "\<exists>m. length (menu_dashboards m) = (3 :: nat) \<and> menu_selected m = 2 \<and>
     menu_selected (menu_move 1 m) = 0 \<and> menu_move (-1) (menu_move 1 m) = m"
proof -
  let ?d = "\<lparr>d_id = ''a'', d_name = ''a'', d_url = ''u'', d_order = 0, d_group = []\<rparr>"
  let ?m = "menu_open 2 (menu_set_dashboards [?d, ?d, ?d] make_menu)"
  have i: "menu_inv ?m" by (simp add: keep make_menu_inv)
  have s: "menu_selected ?m = 2" "length (menu_dashboards ?m) = 3" by code_simp+
  show ?thesis
    using menu_move_wraps [OF i, of 1] s by (intro exI [of _ ?m]) auto
qed

end
