(* ===== verification/Config.thy ===== *)
theory Config
  imports Server_Url
begin

text \<open>
  \<open>config.py\<close>: the configuration record with its validation, the three layers it is loaded
  from (the client's own self-config.json, the configure hook's config.json, the
  environment), the memory profile, the device id and the files the client writes. The
  lemmas say that a loaded configuration is always in range, which layer decides each
  field, what a damaged file does, that a saved setting survives, and that a power cut
  during a save loses nothing.
\<close>

section \<open>The record and its validation\<close>

record config =
  server_url :: string
  api_token :: string
  device_id :: string
  cec_backend :: string
  cec_device :: string
  osd_name :: string
  refresh_interval :: int
  rotate_interval :: int
  start_dashboard :: string
  verify_tls :: bool
  request_timeout :: int
  allowed_hosts :: string
  max_live_views :: int
  hardware_acceleration :: string
  dhcp_discovery :: bool

definition default_config :: config where
  "default_config =
     \<lparr>server_url = '''', api_token = '''', device_id = '''', cec_backend = ''auto'',
      cec_device = ''/dev/cec0'', osd_name = ''VisionTAK'', refresh_interval = 300,
      rotate_interval = 0, start_dashboard = '''', verify_tls = True, request_timeout = 15,
      allowed_hosts = ''*'', max_live_views = 3, hardware_acceleration = ''auto'',
      dhcp_discovery = False\<rparr>"

text \<open>\<open>Config.__post_init__\<close>: the checks in the code's order; the first that fails raises.\<close>

definition post_init :: "config \<Rightarrow> config result" where
  "post_init c =
     (if refresh_interval c \<noteq> 0 \<and> refresh_interval c < 10 then Inl (ValueError RefreshIntervalRange)
      else if rotate_interval c \<noteq> 0 \<and> rotate_interval c < 5 then Inl (ValueError RotateIntervalRange)
      else if cec_backend c \<notin> {''auto'', ''kernel'', ''libcec'', ''none''}
        then Inl (ValueError (UnknownCecBackend (cec_backend c)))
      else if max_live_views c < 1 then Inl (ValueError MaxLiveViewsRange)
      else if hardware_acceleration c \<notin> {''auto'', ''always'', ''never''}
        then Inl (ValueError (UnknownHardwareAcceleration (hardware_acceleration c)))
      else if utf8_length (osd_name c) > 14 then Inl (ValueError OsdNameTooLong)
      else Inr c)"

text \<open>What every configuration object satisfies, since construction runs the checks.\<close>

definition config_ok :: "config \<Rightarrow> bool" where
  "config_ok c \<longleftrightarrow>
     (refresh_interval c = 0 \<or> 10 \<le> refresh_interval c) \<and>
     (rotate_interval c = 0 \<or> 5 \<le> rotate_interval c) \<and>
     cec_backend c \<in> {''auto'', ''kernel'', ''libcec'', ''none''} \<and>
     1 \<le> max_live_views c \<and>
     hardware_acceleration c \<in> {''auto'', ''always'', ''never''} \<and>
     utf8_length (osd_name c) \<le> 14"

section \<open>Fields, their types and their text\<close>

datatype field_type = StrField | IntField | BoolField

datatype field_value = VStr string | VInt int | VBool bool

definition config_fields :: "(string \<times> field_type) list" where
  "config_fields =
     [(''server_url'', StrField), (''api_token'', StrField), (''device_id'', StrField),
      (''cec_backend'', StrField), (''cec_device'', StrField), (''osd_name'', StrField),
      (''refresh_interval'', IntField), (''rotate_interval'', IntField),
      (''start_dashboard'', StrField), (''verify_tls'', BoolField),
      (''request_timeout'', IntField), (''allowed_hosts'', StrField),
      (''max_live_views'', IntField), (''hardware_acceleration'', StrField),
      (''dhcp_discovery'', BoolField)]"

text \<open>\<open>_coerce\<close>: every layer's raw value goes through its text.\<close>

definition coerce :: "json \<Rightarrow> field_type \<Rightarrow> field_value result" where
  "coerce raw target =
     (case target of
        BoolField \<Rightarrow>
          (let text = py_lower (py_strip (py_str raw)) in
           if text \<in> {''1'', ''true'', ''yes'', ''on''} then Inr (VBool True)
           else if text \<in> {''0'', ''false'', ''no'', ''off''} then Inr (VBool False)
           else Inl (ValueError NotABoolean))
      | IntField \<Rightarrow> bind_result (py_int (py_strip (py_str raw))) (\<lambda>n. Inr (VInt n))
      | StrField \<Rightarrow> Inr (VStr (py_strip (py_str raw))))"

section \<open>Picking the known fields out of a mapping\<close>

datatype key_style = EnvStyle | SnapStyle

definition config_key :: "key_style \<Rightarrow> string \<Rightarrow> string" where
  "config_key style field =
     (case style of
        EnvStyle \<Rightarrow> ''VISIONTAK_'' @ py_upper_ascii field
      | SnapStyle \<Rightarrow> map (\<lambda>c. if c = CHR ''_'' then CHR ''-'' else c) field)"

text \<open>\<open>key not in source or source[key] in (None, "")\<close> skips a field.\<close>

definition pick_field :: "key_style \<Rightarrow> json \<Rightarrow> string \<Rightarrow> json option result" where
  "pick_field style source field =
     (let key = config_key style field in
      bind_result (py_in key source) (\<lambda>present.
        if \<not> present then Inr None
        else bind_result (py_subscript source key) (\<lambda>v.
          if v = JNull \<or> v = JStr [] then Inr None else Inr (Some v))))"

fun pick_fields :: "key_style \<Rightarrow> json \<Rightarrow> string list \<Rightarrow> (string \<rightharpoonup> json) result" where
  "pick_fields style source [] = Inr Map.empty"
| "pick_fields style source (f # fs) =
     bind_result (pick_field style source f) (\<lambda>v.
       bind_result (pick_fields style source fs) (\<lambda>out.
         Inr (case v of None \<Rightarrow> out | Some x \<Rightarrow> out(f \<mapsto> x))))"

definition from_mapping :: "key_style \<Rightarrow> json \<Rightarrow> (string \<rightharpoonup> json) result" where
  "from_mapping style source = pick_fields style source (map fst config_fields)"

section \<open>The board's memory\<close>

definition LOW_MEMORY_MIB :: int where "LOW_MEMORY_MIB = 1536"

definition HIGH_MEMORY_MIB :: int where "HIGH_MEMORY_MIB = 3072"

definition HIGH_MEMORY_LIVE_VIEWS :: int where "HIGH_MEMORY_LIVE_VIEWS = 6"

fun meminfo_total :: "string list \<Rightarrow> int option" where
  "meminfo_total [] = None"
| "meminfo_total (line # lines) =
     (if starts_with ''MemTotal:'' line then
        (case split_ws line of
           _ # field # _ \<Rightarrow> (case py_int field of Inr n \<Rightarrow> Some (n div 1024) | Inl _ \<Rightarrow> None)
         | _ \<Rightarrow> None)
      else meminfo_total lines)"

text \<open>\<open>_total_memory_mib\<close>, from the text of /proc/meminfo, or None where it cannot be read.\<close>

definition total_memory_mib :: "string option \<Rightarrow> int option" where
  "total_memory_mib meminfo =
     (case meminfo of None \<Rightarrow> None | Some text \<Rightarrow> meminfo_total (py_splitlines text))"

definition set_default :: "string \<Rightarrow> json \<Rightarrow> (string \<rightharpoonup> json) \<Rightarrow> (string \<rightharpoonup> json)" where
  "set_default k v m = (if m k = None then m(k \<mapsto> v) else m)"

definition memory_profile :: "int option \<Rightarrow> (string \<rightharpoonup> json) \<Rightarrow> (string \<rightharpoonup> json)" where
  "memory_profile total_mib values =
     (case total_mib of
        None \<Rightarrow> values
      | Some mib \<Rightarrow>
          if mib < LOW_MEMORY_MIB then
            set_default ''hardware_acceleration'' (JStr ''never'')
              (set_default ''max_live_views'' (JInt 1) values)
          else if mib \<ge> HIGH_MEMORY_MIB then
            set_default ''max_live_views'' (JInt HIGH_MEMORY_LIVE_VIEWS) values
          else values)"

section \<open>Loading\<close>

type_synonym environ = "(string \<times> string) list"

text \<open>\<open>environ.get(k)\<close> in a boolean context: present and not empty.\<close>

definition env_get :: "environ \<Rightarrow> string \<Rightarrow> string option" where
  "env_get env k = (case map_of env k of Some v \<Rightarrow> if v = [] then None else Some v | None \<Rightarrow> None)"

definition base_dir :: "environ \<Rightarrow> string" where
  "base_dir env =
     (case env_get env ''SNAP_DATA'' of
        Some d \<Rightarrow> d
      | None \<Rightarrow> (case env_get env ''VISIONTAK_DATA_DIR'' of Some d \<Rightarrow> d | None \<Rightarrow> ''.''))"

definition data_dir_or :: "string option \<Rightarrow> environ \<Rightarrow> string" where
  "data_dir_or data_dir env = (case data_dir of Some d \<Rightarrow> d | None \<Rightarrow> base_dir env)"

definition config_path :: "string \<Rightarrow> path" where
  "config_path dir = (dir, ''config.json'')"

definition state_path :: "string \<Rightarrow> path" where
  "state_path dir = (dir, ''self-config.json'')"

text \<open>The client's own state: a ValueError of any kind is logged and the file ignored.\<close>

definition load_state :: "fs \<Rightarrow> string \<Rightarrow> (string \<rightharpoonup> json) result" where
  "load_state fs dir =
     (if is_file fs (state_path dir) then
        (case bind_result (read_json fs (state_path dir)) (from_mapping SnapStyle) of
           Inr m \<Rightarrow> Inr m
         | Inl (ValueError _) \<Rightarrow> Inr Map.empty
         | Inl e \<Rightarrow> Inl e)
      else Inr Map.empty)"

text \<open>The hook's file: a ValueError is reported as an invalid client configuration.\<close>

definition load_hook_file :: "fs \<Rightarrow> string \<Rightarrow> (string \<rightharpoonup> json) result" where
  "load_hook_file fs dir =
     (if is_file fs (config_path dir) then
        (case bind_result (read_json fs (config_path dir)) (from_mapping SnapStyle) of
           Inr m \<Rightarrow> Inr m
         | Inl (ValueError v) \<Rightarrow> Inl (ValueError (InvalidClientConfiguration v))
         | Inl e \<Rightarrow> Inl e)
      else Inr Map.empty)"

definition environ_values :: "environ \<Rightarrow> (string \<rightharpoonup> json) result" where
  "environ_values env = from_mapping EnvStyle (JDict (map (\<lambda>(k, v). (k, JStr v)) env))"

text \<open>The raw values of all layers, with the two kinds of default that \<open>load\<close> adds.\<close>

definition load_values ::
  "fs \<Rightarrow> environ \<Rightarrow> string option \<Rightarrow> string option \<Rightarrow> string \<Rightarrow> (string \<rightharpoonup> json) result" where
  "load_values fs env data_dir meminfo hostname =
     (let dir = data_dir_or data_dir env in
      bind_result (load_state fs dir) (\<lambda>state.
        bind_result (load_hook_file fs dir) (\<lambda>hook.
          bind_result (environ_values env) (\<lambda>vars.
            Inr (memory_profile (total_memory_mib meminfo)
                   (set_default ''device_id'' (JStr hostname) (Map.empty ++ state ++ hook ++ vars)))))))"

definition coerce_field :: "string \<Rightarrow> field_type \<Rightarrow> json \<Rightarrow> field_value result" where
  "coerce_field f t v =
     (case coerce v t of Inl (ValueError e) \<Rightarrow> Inl (ValueError (InvalidField f e)) | r \<Rightarrow> r)"

fun coerce_fields ::
  "(string \<rightharpoonup> json) \<Rightarrow> (string \<times> field_type) list \<Rightarrow> (string \<rightharpoonup> field_value) result" where
  "coerce_fields values [] = Inr Map.empty"
| "coerce_fields values ((f, t) # fts) =
     (case values f of
        None \<Rightarrow> coerce_fields values fts
      | Some v \<Rightarrow>
          bind_result (coerce_field f t v) (\<lambda>c.
            bind_result (coerce_fields values fts) (\<lambda>out. Inr (out(f \<mapsto> c)))))"

definition str_of :: "field_value option \<Rightarrow> string \<Rightarrow> string" where
  "str_of v d = (case v of Some (VStr s) \<Rightarrow> s | _ \<Rightarrow> d)"

definition int_of_field :: "field_value option \<Rightarrow> int \<Rightarrow> int" where
  "int_of_field v d = (case v of Some (VInt n) \<Rightarrow> n | _ \<Rightarrow> d)"

definition bool_of :: "field_value option \<Rightarrow> bool \<Rightarrow> bool" where
  "bool_of v d = (case v of Some (VBool b) \<Rightarrow> b | _ \<Rightarrow> d)"

text \<open>\<open>Config(**values)\<close>: the given fields, the class's defaults for the rest, then the checks.\<close>

definition make_config :: "(string \<rightharpoonup> field_value) \<Rightarrow> config" where
  "make_config m =
     \<lparr>server_url = str_of (m ''server_url'') (server_url default_config),
      api_token = str_of (m ''api_token'') (api_token default_config),
      device_id = str_of (m ''device_id'') (device_id default_config),
      cec_backend = str_of (m ''cec_backend'') (cec_backend default_config),
      cec_device = str_of (m ''cec_device'') (cec_device default_config),
      osd_name = str_of (m ''osd_name'') (osd_name default_config),
      refresh_interval = int_of_field (m ''refresh_interval'') (refresh_interval default_config),
      rotate_interval = int_of_field (m ''rotate_interval'') (rotate_interval default_config),
      start_dashboard = str_of (m ''start_dashboard'') (start_dashboard default_config),
      verify_tls = bool_of (m ''verify_tls'') (verify_tls default_config),
      request_timeout = int_of_field (m ''request_timeout'') (request_timeout default_config),
      allowed_hosts = str_of (m ''allowed_hosts'') (allowed_hosts default_config),
      max_live_views = int_of_field (m ''max_live_views'') (max_live_views default_config),
      hardware_acceleration =
        str_of (m ''hardware_acceleration'') (hardware_acceleration default_config),
      dhcp_discovery = bool_of (m ''dhcp_discovery'') (dhcp_discovery default_config)\<rparr>"

definition load ::
  "fs \<Rightarrow> environ \<Rightarrow> string option \<Rightarrow> string option \<Rightarrow> string \<Rightarrow> config result" where
  "load fs env data_dir meminfo hostname =
     bind_result (load_values fs env data_dir meminfo hostname) (\<lambda>values.
       bind_result (coerce_fields values config_fields) (\<lambda>fields.
         post_init (make_config fields)))"

section \<open>Files the client and the hook write\<close>

definition state_tmp :: "string \<Rightarrow> path" where
  "state_tmp dir = (dir, ''self-config.json.tmp'')"

definition persist_ops :: "string \<Rightarrow> json \<Rightarrow> fs_op list" where
  "persist_ops dir current =
     [Mkdir dir, WriteText (state_tmp dir) current, Chmod (state_tmp dir),
      Replace (state_tmp dir) (state_path dir)]"

definition persist_current :: "fs \<Rightarrow> string \<Rightarrow> json result" where
  "persist_current fs dir =
     (if is_file fs (state_path dir) then
        (case read_json fs (state_path dir) of
           Inl (ValueError JsonDecodeError) \<Rightarrow> Inr (JDict [])
         | r \<Rightarrow> r)
      else Inr (JDict []))"

text \<open>
  \<open>persist\<close>: the exception it raises if any, the file system it leaves, and the \<open>snapctl set\<close>
  commands it issues. A failing \<open>snapctl\<close> is only logged.
\<close>

definition persist ::
  "(fs_op \<Rightarrow> bool) \<Rightarrow> environ \<Rightarrow> string option \<Rightarrow> string \<Rightarrow> string \<Rightarrow> fs \<Rightarrow>
   py_error option \<times> fs \<times> (string \<times> string) list" where
  "persist fails env data_dir key value fs =
     (let dir = data_dir_or data_dir env in
      case bind_result (persist_current fs dir) (\<lambda>cur. py_assign cur key (JStr value)) of
        Inl e \<Rightarrow> (Some e, fs, [])
      | Inr current \<Rightarrow>
          (case run_ops fails (persist_ops dir current) fs of
             (Some e, fs') \<Rightarrow> (Some e, fs', [])
           | (None, fs') \<Rightarrow>
               (None, fs',
                if env_get env ''SNAP_INSTANCE_NAME'' \<noteq> None \<or> env_get env ''SNAP_NAME'' \<noteq> None
                then [(key, value)] else [])))"

fun sort_keys :: "json \<Rightarrow> json" where
  "sort_keys (JDict kvs) = JDict (sort_key fst (map (\<lambda>(k, v). (k, sort_keys v)) kvs))"
| "sort_keys (JList xs) = JList (map sort_keys xs)"
| "sort_keys v = v"

definition config_tmp :: "string \<Rightarrow> path" where
  "config_tmp dir = (dir, ''config.json.tmp'')"

definition write_snap_config_ops :: "string \<Rightarrow> (string \<times> json) list \<Rightarrow> fs_op list" where
  "write_snap_config_ops dir values =
     [Mkdir dir, WriteText (config_tmp dir) (sort_keys (JDict values)),
      Replace (config_tmp dir) (config_path dir)]"

definition write_snap_config ::
  "(fs_op \<Rightarrow> bool) \<Rightarrow> string \<Rightarrow> (string \<times> json) list \<Rightarrow> fs \<Rightarrow> py_error option \<times> fs" where
  "write_snap_config fails dir values fs = run_ops fails (write_snap_config_ops dir values) fs"

section \<open>The device id\<close>

definition WEAK_DEVICE_IDS :: "string set" where
  "WEAK_DEVICE_IDS = {''localhost'', ''localhost.localdomain'', ''ubuntu'', ''raspberrypi'', ''''}"

definition DEVICE_ID_MIN_LEN :: nat where "DEVICE_ID_MIN_LEN = 8"

definition DEVICE_ID_PREFIX :: string where "DEVICE_ID_PREFIX = ''visiontak_client_''"

definition strong_device_id :: "string \<Rightarrow> bool" where
  "strong_device_id s \<longleftrightarrow>
     py_lower (py_strip s) \<notin> WEAK_DEVICE_IDS \<and> DEVICE_ID_MIN_LEN \<le> length (py_strip s)"

text \<open>\<open>ensure_device_id\<close>, given the text of the fresh UUID: the configuration to go on with, and
  what saving the new id does to the files and to snapd's configuration.\<close>

definition ensure_device_id ::
  "(fs_op \<Rightarrow> bool) \<Rightarrow> environ \<Rightarrow> string \<Rightarrow> config \<Rightarrow> fs \<Rightarrow>
   config \<times> fs \<times> (string \<times> string) list" where
  "ensure_device_id fails env uuid config fs =
     (if strong_device_id (device_id config) then (config, fs, [])
      else
        (let new_id = DEVICE_ID_PREFIX @ uuid in
         case persist fails env None ''device-id'' new_id fs of
           (_, fs', cmds) \<Rightarrow> (config\<lparr>device_id := new_id\<rparr>, fs', cmds)))"

section \<open>Validation\<close>

lemma post_init_Inr_iff: "post_init c = Inr c' \<longleftrightarrow> c' = c \<and> config_ok c"
  by (auto simp: post_init_def config_ok_def)

lemma default_config_ok: "config_ok default_config"
  by (simp add: config_ok_def default_config_def utf8_length_def cp_def)

lemma load_config_ok: "load fs env data_dir meminfo hostname = Inr c \<Longrightarrow> config_ok c"
  by (auto simp: load_def bind_result_Inr_iff post_init_Inr_iff)

section \<open>Which layer decides a field\<close>

text \<open>The fields of a configuration by name.\<close>

definition config_alist :: "config \<Rightarrow> (string \<times> field_value) list" where
  "config_alist c =
     [(''server_url'', VStr (server_url c)), (''api_token'', VStr (api_token c)),
      (''device_id'', VStr (device_id c)), (''cec_backend'', VStr (cec_backend c)),
      (''cec_device'', VStr (cec_device c)), (''osd_name'', VStr (osd_name c)),
      (''refresh_interval'', VInt (refresh_interval c)),
      (''rotate_interval'', VInt (rotate_interval c)),
      (''start_dashboard'', VStr (start_dashboard c)), (''verify_tls'', VBool (verify_tls c)),
      (''request_timeout'', VInt (request_timeout c)), (''allowed_hosts'', VStr (allowed_hosts c)),
      (''max_live_views'', VInt (max_live_views c)),
      (''hardware_acceleration'', VStr (hardware_acceleration c)),
      (''dhcp_discovery'', VBool (dhcp_discovery c))]"

definition config_get :: "config \<Rightarrow> string \<Rightarrow> field_value option" where
  "config_get c f = map_of (config_alist c) f"

text \<open>The value a file gives a field: only a dictionary with a value that is neither null nor
  empty gives one.\<close>

definition usable_value :: "json option \<Rightarrow> json option" where
  "usable_value v = (case v of Some x \<Rightarrow> if x = JNull \<or> x = JStr [] then None else Some x | None \<Rightarrow> None)"

definition file_value :: "pyfile \<Rightarrow> string \<Rightarrow> json option" where
  "file_value file f =
     (case file of
        Document (JDict kvs) \<Rightarrow> usable_value (map_of kvs (config_key SnapStyle f))
      | _ \<Rightarrow> None)"

definition env_value :: "environ \<Rightarrow> string \<Rightarrow> json option" where
  "env_value env f = map_option JStr (env_get env (config_key EnvStyle f))"

text \<open>The environment wins over the hook's file, which wins over the client's own state.\<close>

definition explicit_value :: "fs \<Rightarrow> environ \<Rightarrow> string \<Rightarrow> string \<Rightarrow> json option" where
  "explicit_value fs env dir f =
     (case env_value env f of
        Some v \<Rightarrow> Some v
      | None \<Rightarrow>
          (case file_value (fs (config_path dir)) f of
             Some v \<Rightarrow> Some v
           | None \<Rightarrow> file_value (fs (state_path dir)) f))"

text \<open>What a field is when nobody set it: the hostname, the memory profile, or the default.\<close>

definition low_memory :: "int option \<Rightarrow> bool" where
  "low_memory total_mib \<longleftrightarrow> (case total_mib of Some m \<Rightarrow> m < LOW_MEMORY_MIB | None \<Rightarrow> False)"

definition high_memory :: "int option \<Rightarrow> bool" where
  "high_memory total_mib \<longleftrightarrow> (case total_mib of Some m \<Rightarrow> m \<ge> HIGH_MEMORY_MIB | None \<Rightarrow> False)"

definition unset_value :: "int option \<Rightarrow> string \<Rightarrow> string \<Rightarrow> field_value option" where
  "unset_value total_mib hostname f =
     (if f = ''device_id'' then Some (VStr (py_strip hostname))
      else if f = ''max_live_views'' then
        Some (VInt (if low_memory total_mib then 1 else if high_memory total_mib then 6 else 3))
      else if f = ''hardware_acceleration'' then
        Some (VStr (if low_memory total_mib then ''never'' else ''auto''))
      else config_get default_config f)"

lemma pick_field_JDict:
  "pick_field style (JDict kvs) f = Inr (usable_value (map_of kvs (config_key style f)))"
  by (cases "map_of kvs (config_key style f)")
    (simp_all add: pick_field_def Let_def usable_value_def py_subscript_def)

lemma pick_field_other:
  "pick_field style source f = Inr v \<Longrightarrow> (\<And>kvs. source \<noteq> JDict kvs) \<Longrightarrow> v = None"
  by (cases source)
    (auto simp: pick_field_def Let_def py_in_def py_subscript_def bind_result_Inr_iff split: if_splits)

lemma pick_fields_Inr:
  "pick_fields style source fs = Inr m \<Longrightarrow>
     (\<forall>f \<in> set fs. pick_field style source f = Inr (m f)) \<and> (\<forall>f. f \<notin> set fs \<longrightarrow> m f = None)"
proof (induction fs arbitrary: m)
  case Nil
  then show ?case by auto
next
  case (Cons f fs)
  then obtain v out where v: "pick_field style source f = Inr v"
    and out: "pick_fields style source fs = Inr out"
    and m: "m = (case v of None \<Rightarrow> out | Some x \<Rightarrow> out(f \<mapsto> x))"
    by (auto simp: bind_result_Inr_iff)
  from Cons.IH [OF out] v m show ?case
    by (cases "f \<in> set fs") (auto split: option.splits)
qed

lemma pick_fields_JDict: "\<exists>m. pick_fields style (JDict kvs) fs = Inr m"
  by (induction fs) (auto simp: pick_field_JDict)

lemma from_mapping_JDict:
  "\<exists>m. from_mapping style (JDict kvs) = Inr m"
  by (simp add: from_mapping_def pick_fields_JDict)

lemma from_mapping_snap_value:
  assumes "from_mapping SnapStyle v = Inr m" and "f \<in> fst ` set config_fields"
  shows "m f = file_value (Document v) f"
proof -
  have p: "pick_field SnapStyle v f = Inr (m f)"
    using assms pick_fields_Inr [of SnapStyle v "map fst config_fields" m]
    by (auto simp: from_mapping_def)
  then show ?thesis
    using pick_field_other [OF p]
    by (cases v) (auto simp: file_value_def pick_field_JDict)
qed

lemma load_state_value:
  assumes "load_state fs dir = Inr m" and "f \<in> fst ` set config_fields"
  shows "m f = file_value (fs (state_path dir)) f"
proof (cases "fs (state_path dir)")
  case (Document v)
  show ?thesis
  proof (cases "from_mapping SnapStyle v")
    case (Inl e)
    have "file_value (Document v) f = None"
    proof (cases v)
      case (JDict kvs)
      then show ?thesis using from_mapping_JDict [of SnapStyle kvs] Inl by simp
    qed (simp_all add: file_value_def)
    then show ?thesis
      using assms Document Inl
      by (auto simp: load_state_def is_file_def read_json_def split: py_error.splits)
  next
    case (Inr m')
    then show ?thesis
      using assms Document from_mapping_snap_value [OF Inr assms(2)]
      by (simp add: load_state_def is_file_def read_json_def)
  qed
qed (use assms in \<open>auto simp: load_state_def is_file_def read_json_def file_value_def\<close>)

lemma load_hook_value:
  assumes "load_hook_file fs dir = Inr m" and "f \<in> fst ` set config_fields"
  shows "m f = file_value (fs (config_path dir)) f"
  using assms from_mapping_snap_value [of _ m f]
  by (cases "fs (config_path dir)")
    (auto simp: load_hook_file_def is_file_def read_json_def file_value_def bind_result_def
      split: sum.splits py_error.splits)

lemma map_of_strings: "map_of (map (\<lambda>(k, v). (k, JStr v)) env) k = map_option JStr (map_of env k)"
  by (induction env) auto

lemma environ_values_value:
  assumes "environ_values env = Inr m" and "f \<in> fst ` set config_fields"
  shows "m f = env_value env f"
proof -
  have "pick_field EnvStyle (JDict (map (\<lambda>(k, v). (k, JStr v)) env)) f = Inr (m f)"
    using assms pick_fields_Inr [of EnvStyle "JDict (map (\<lambda>(k, v). (k, JStr v)) env)" _ m]
    by (auto simp: environ_values_def from_mapping_def)
  then show ?thesis
    by (auto simp: pick_field_JDict map_of_strings env_value_def env_get_def usable_value_def
        split: option.splits)
qed

lemma config_field_names:
  "f \<in> fst ` set config_fields \<longleftrightarrow> f \<in> set (map fst (config_alist c))"
  by (simp add: config_fields_def config_alist_def)

lemma distinct_config_fields: "distinct (map fst config_fields)"
  by (simp add: config_fields_def)

lemma coerce_fields_value:
  "coerce_fields vals fts = Inr out \<Longrightarrow> distinct (map fst fts) \<Longrightarrow>
     (\<forall>f. f \<notin> fst ` set fts \<longrightarrow> out f = None) \<and>
     (\<forall>(f, t) \<in> set fts.
        (case vals f of None \<Rightarrow> out f = None | Some v \<Rightarrow> \<exists>c. coerce v t = Inr c \<and> out f = Some c))"
proof (induction vals fts arbitrary: out rule: coerce_fields.induct)
  case (1 vals)
  then show ?case by auto
next
  case (2 vals f t fts)
  show ?case
  proof (cases "vals f")
    case None
    then show ?thesis using 2 by (auto split: option.splits)
  next
    case (Some v)
    then obtain c rest where cf: "coerce_field f t v = Inr c" and r: "coerce_fields vals fts = Inr rest"
      and out: "out = rest(f \<mapsto> c)"
      using 2(3) by (auto simp: bind_result_Inr_iff)
    have c: "coerce v t = Inr c"
      using cf by (auto simp: coerce_field_def split: sum.splits py_error.splits)
    have IH: "(\<forall>f. f \<notin> fst ` set fts \<longrightarrow> rest f = None) \<and>
      (\<forall>(f, t) \<in> set fts.
        (case vals f of None \<Rightarrow> rest f = None | Some v \<Rightarrow> \<exists>c. coerce v t = Inr c \<and> rest f = Some c))"
      using 2(2) [OF Some cf r] 2(4) by simp
    have "f' \<noteq> f" if "(f', t') \<in> set fts" for f' t'
      using that 2(4) by force
    then show ?thesis
      using IH Some c out by (fastforce split: option.splits)
  qed
qed

lemma set_default_value:
  "set_default k v m f = (if f = k \<and> m f = None then Some v else m f)"
  by (cases "f = k") (auto simp: set_default_def)

lemma memory_profile_value:
  "memory_profile mib m f =
     (case m f of
        Some v \<Rightarrow> Some v
      | None \<Rightarrow>
          if f = ''max_live_views'' \<and> low_memory mib then Some (JInt 1)
          else if f = ''max_live_views'' \<and> high_memory mib then Some (JInt 6)
          else if f = ''hardware_acceleration'' \<and> low_memory mib then Some (JStr ''never'')
          else None)"
  by (cases mib; cases "m f"; cases "f = ''max_live_views''"; cases "f = ''hardware_acceleration''")
    (simp_all add: memory_profile_def set_default_value low_memory_def high_memory_def
      LOW_MEMORY_MIB_def HIGH_MEMORY_MIB_def HIGH_MEMORY_LIVE_VIEWS_def)

text \<open>The raw value that reaches the coercion.\<close>

lemma load_values_value:
  assumes "load_values fs env data_dir meminfo hostname = Inr vals"
    and f: "f \<in> fst ` set config_fields"
  defines "dir \<equiv> data_dir_or data_dir env" and "mib \<equiv> total_memory_mib meminfo"
  shows "vals f =
    (case explicit_value fs env dir f of
       Some v \<Rightarrow> Some v
     | None \<Rightarrow>
         if f = ''device_id'' then Some (JStr hostname)
         else if f = ''max_live_views'' \<and> low_memory mib then Some (JInt 1)
         else if f = ''max_live_views'' \<and> high_memory mib then Some (JInt 6)
         else if f = ''hardware_acceleration'' \<and> low_memory mib then Some (JStr ''never'')
         else None)"
proof -
  obtain s h e where s: "load_state fs dir = Inr s" and h: "load_hook_file fs dir = Inr h"
    and e: "environ_values env = Inr e"
    and v: "vals = memory_profile mib (set_default ''device_id'' (JStr hostname) (Map.empty ++ s ++ h ++ e))"
    using assms(1) by (auto simp: load_values_def Let_def bind_result_Inr_iff dir_def mib_def)
  have "(Map.empty ++ s ++ h ++ e) f = explicit_value fs env dir f"
    using load_state_value [OF s f] load_hook_value [OF h f] environ_values_value [OF e f]
    by (simp add: explicit_value_def map_add_def split: option.splits)
  then show ?thesis
    by (cases "explicit_value fs env dir f"; cases "f = ''device_id''")
      (simp_all only: v memory_profile_value set_default_value option.case if_True if_False simp_thms
          option.distinct)
qed

lemma typed_field:
  assumes "\<And>c. v = Some c \<Longrightarrow> \<exists>raw. coerce raw t = Inr c"
  shows "t = StrField \<Longrightarrow> VStr (str_of v s) = (case v of Some c \<Rightarrow> c | None \<Rightarrow> VStr s)"
    and "t = IntField \<Longrightarrow> VInt (int_of_field v n) = (case v of Some c \<Rightarrow> c | None \<Rightarrow> VInt n)"
    and "t = BoolField \<Longrightarrow> VBool (bool_of v b) = (case v of Some c \<Rightarrow> c | None \<Rightarrow> VBool b)"
  using assms
  by (cases v; auto simp: coerce_def str_of_def int_of_field_def bool_of_def bind_result_Inr_iff
      Let_def split: if_splits)+

lemma config_get_make_config:
  assumes "(f, t) \<in> set config_fields" and "\<And>c. m f = Some c \<Longrightarrow> \<exists>v. coerce v t = Inr c"
  shows "config_get (make_config m) f =
    (case m f of Some c \<Rightarrow> Some c | None \<Rightarrow> config_get default_config f)"
  using assms(1) typed_field [OF assms(2)]
  unfolding config_fields_def list.set insert_iff empty_iff Pair_inject
  by (elim disjE conjE; simp add: config_get_def config_alist_def make_config_def split: option.splits)

lemma load_field:
  assumes l: "load fs env data_dir meminfo hostname = Inr c" and ft: "(f, t) \<in> set config_fields"
  defines "dir \<equiv> data_dir_or data_dir env" and "mib \<equiv> total_memory_mib meminfo"
  shows "\<exists>w. config_get c f = Some w \<and>
    (case explicit_value fs env dir f of
       Some v \<Rightarrow> coerce v t = Inr w
     | None \<Rightarrow> unset_value mib hostname f = Some w)"
proof -
  obtain vals fields where v: "load_values fs env data_dir meminfo hostname = Inr vals"
    and fields: "coerce_fields vals config_fields = Inr fields" and c: "c = make_config fields"
    using l by (auto simp: load_def bind_result_Inr_iff post_init_Inr_iff)
  have f: "f \<in> fst ` set config_fields" using ft by force
  note raw = load_values_value [OF v f, folded dir_def mib_def]
  have fv: "case vals f of None \<Rightarrow> fields f = None
      | Some x \<Rightarrow> \<exists>w. coerce x t = Inr w \<and> fields f = Some w"
    using coerce_fields_value [OF fields distinct_config_fields] ft by blast
  have typed: "\<exists>raw. coerce raw t = Inr w" if "fields f = Some w" for w
    using fv that by (cases "vals f") auto
  have get: "config_get c f = (case fields f of Some w \<Rightarrow> Some w | None \<Rightarrow> config_get default_config f)"
    unfolding c using ft typed by (rule config_get_make_config)
  show ?thesis
  proof (cases "explicit_value fs env dir f")
    case (Some x)
    then show ?thesis using raw fv get by auto
  next
    case None
    have t: "(f = ''device_id'' \<or> f = ''hardware_acceleration'' \<longrightarrow> t = StrField) \<and>
      (f = ''max_live_views'' \<longrightarrow> t = IntField)"
      using ft by (auto simp: config_fields_def)
    have d: "config_get default_config ''max_live_views'' = Some (VInt 3)"
      "config_get default_config ''hardware_acceleration'' = Some (VStr ''auto'')"
      by (simp_all add: config_get_def config_alist_def default_config_def)
    have n: "coerce (JInt 1) IntField = Inr (VInt 1)" "coerce (JInt 6) IntField = Inr (VInt 6)"
      "coerce (JStr ''never'') StrField = Inr (VStr ''never'')"
      "coerce (JStr hostname) StrField = Inr (VStr (py_strip hostname))"
      by (code_simp, code_simp, code_simp, simp add: coerce_def)
    have known: "\<exists>w. config_get default_config f = Some w"
      using f config_field_names [of f default_config]
      by (simp add: config_get_def) (metis domD dom_map_of_conv_image_fst)
    consider (dev) "f = ''device_id''" | (views) "f = ''max_live_views''"
      | (accel) "f = ''hardware_acceleration''"
      | (other) "f \<noteq> ''device_id''" "f \<noteq> ''max_live_views''" "f \<noteq> ''hardware_acceleration''"
      by blast
    then show ?thesis
    proof cases
      case dev
      have "vals f = Some (JStr hostname)" using raw None dev by simp
      then show ?thesis using None dev fv get t n(4) by (simp add: unset_value_def)
    next
      case views
      have "vals f = (if low_memory mib then Some (JInt 1)
          else if high_memory mib then Some (JInt 6) else None)"
        using raw None views by simp
      then show ?thesis
        using None views fv get t n(1,2) d(1)
        by (cases "low_memory mib"; cases "high_memory mib") (simp_all add: unset_value_def)
    next
      case accel
      have "vals f = (if low_memory mib then Some (JStr ''never'') else None)"
        using raw None accel by simp
      then show ?thesis
        using None accel fv get t n(3) d(2)
        by (cases "low_memory mib") (simp_all add: unset_value_def)
    next
      case other
      have "vals f = None" using raw None other by simp
      then show ?thesis
        using None other fv get known by (simp add: unset_value_def)
    qed
  qed
qed

section \<open>The files the client and the hook write\<close>

interpretation state_file: atomic_writer
  "persist_ops dir" "\<lambda>v. [Mkdir dir, WriteText (state_tmp dir) v, Chmod (state_tmp dir)]"
  "state_tmp dir" "state_path dir" "\<lambda>v. v" for dir
  by unfold_locales (auto simp: persist_ops_def state_tmp_def state_path_def)

interpretation hook_file: atomic_writer
  "write_snap_config_ops dir"
  "\<lambda>vs. [Mkdir dir, WriteText (config_tmp dir) (sort_keys (JDict vs))]"
  "config_tmp dir" "config_path dir" "\<lambda>vs. sort_keys (JDict vs)" for dir
  by unfold_locales (auto simp: write_snap_config_ops_def config_tmp_def config_path_def)

lemma paths_apart [simp]:
  "state_path d \<noteq> config_path d'" "config_path d \<noteq> state_path d'"
  "state_tmp d \<noteq> config_path d'" "config_path d \<noteq> state_tmp d'"
  "config_tmp d \<noteq> state_path d'" "state_path d \<noteq> config_tmp d'"
  "state_tmp d \<noteq> state_path d'" "config_tmp d \<noteq> config_path d'"
  by (simp_all add: state_path_def config_path_def state_tmp_def config_tmp_def)

lemma persist_success:
  assumes "persist fails env data_dir k v fs = (None, fs', cmds)"
  defines "dir \<equiv> data_dir_or data_dir env"
  obtains kvs where "persist_current fs dir = Inr (JDict kvs)"
    and "fs' (state_path dir) = Document (JDict (AList.update k (JStr v) kvs))"
    and "\<And>p. p \<noteq> state_path dir \<Longrightarrow> p \<noteq> state_tmp dir \<Longrightarrow> fs' p = fs p"
proof -
  from assms obtain kvs where cur: "persist_current fs dir = Inr (JDict kvs)"
    and run: "run_ops fails (persist_ops dir (JDict (AList.update k (JStr v) kvs))) fs = (None, fs')"
    by (auto simp: persist_def Let_def bind_result_def py_assign_def dir_def
        split: sum.splits json.splits prod.splits option.splits)
  show ?thesis
    using that [OF cur state_file.succeeded [OF run]]
      state_file.others [of _ dir fails "JDict (AList.update k (JStr v) kvs)" fs] run
    by auto
qed

section \<open>Device ids\<close>

text \<open>A prefix without white space survives stripping.\<close>

lemma strip_keeps_prefix:
  assumes "p \<noteq> []" and "list_all (\<lambda>c. \<not> is_space c) p"
  shows "prefix p (py_strip (p @ s))"
proof -
  have l: "lstrip_by is_space (p @ s) = p @ s"
    using assms by (cases p) (simp_all add: lstrip_by_id)
  have "\<exists>q. dropWhile is_space (rev s @ rev p) = q @ rev p"
  proof (cases "\<exists>c \<in> set (rev s). \<not> is_space c")
    case True
    then show ?thesis by (auto simp: dropWhile_append1)
  next
    case False
    then have "dropWhile is_space (rev s @ rev p) = dropWhile is_space (rev p)"
      by (subst dropWhile_append2) auto
    also have "\<dots> = rev p"
      using assms by (cases p rule: rev_cases) auto
    finally show ?thesis by auto
  qed
  then show ?thesis
    by (auto simp: py_strip_def strip_by_def l rstrip_by_def)
qed

lemma new_device_id_strong: "strong_device_id (DEVICE_ID_PREFIX @ uuid)"
proof -
  have "list_all (\<lambda>c. \<not> is_space c) DEVICE_ID_PREFIX" by code_simp
  then have "prefix DEVICE_ID_PREFIX (py_strip (DEVICE_ID_PREFIX @ uuid))"
    by (intro strip_keeps_prefix) (simp_all add: DEVICE_ID_PREFIX_def)
  then obtain t where t: "py_strip (DEVICE_ID_PREFIX @ uuid) = DEVICE_ID_PREFIX @ t"
    by (auto simp: prefix_def)
  have "lower_char (CHR ''v'') = CHR ''v''" by code_simp
  then have "py_lower (DEVICE_ID_PREFIX @ t) \<notin> WEAK_DEVICE_IDS"
    by (auto simp: py_lower_def DEVICE_ID_PREFIX_def WEAK_DEVICE_IDS_def)
  then show ?thesis
    by (simp add: strong_device_id_def t DEVICE_ID_MIN_LEN_def) (simp add: DEVICE_ID_PREFIX_def)
qed

section \<open>Further facts used by the properties\<close>

lemma load_state_damaged:
  assumes "fs (state_path dir) = NotJson \<or> fs (state_path dir) = NotText"
  shows "load_state fs dir = Inr Map.empty"
  using assms by (auto simp: load_state_def is_file_def read_json_def)

lemma load_state_absent: "fs (state_path dir) = Absent \<Longrightarrow> load_state fs dir = Inr Map.empty"
  by (simp add: load_state_def is_file_def)

lemma load_hook_file_cong:
  "fs (config_path dir) = fs' (config_path dir) \<Longrightarrow> load_hook_file fs dir = load_hook_file fs' dir"
  by (simp add: load_hook_file_def is_file_def read_json_def)

text \<open>Sorting a dictionary's keys does not change what it maps them to.\<close>

lemma map_of_sort_key:
  "distinct (map fst kvs) \<Longrightarrow> map_of (sort_key fst kvs) k = map_of kvs k"
proof -
  assume d: "distinct (map fst kvs)"
  have "distinct (map fst (sort_key fst kvs))"
    using d by (simp add: distinct_map)
  then have "map_of (sort_key fst kvs) = map_of kvs"
    using d by (simp only: map_of_inject_set set_sort)
  then show ?thesis by simp
qed

lemma map_of_map_snd: "map_of (map (\<lambda>(k, v). (k, g v)) kvs) k = map_option g (map_of kvs k)"
  by (induction kvs) auto

lemma map_of_sort_keys:
  assumes "distinct (map fst kvs)"
  shows "\<exists>kvs'. sort_keys (JDict kvs) = JDict kvs' \<and>
    (\<forall>k. map_of kvs' k = map_option sort_keys (map_of kvs k))"
proof -
  have "distinct (map fst (map (\<lambda>(k, v). (k, sort_keys v)) kvs))"
    using assms by (simp add: case_prod_beta comp_def)
  then show ?thesis
    by (simp add: map_of_sort_key map_of_map_snd)
qed

lemma load_string_field:
  assumes "load fs env data_dir meminfo hostname = Inr c" and "(f, StrField) \<in> set config_fields"
    and "explicit_value fs env (data_dir_or data_dir env) f = Some (JStr s)"
  shows "config_get c f = Some (VStr (py_strip s))"
  using load_field [OF assms(1,2)] assms(3) by (auto simp: coerce_def)

lemma load_cong:
  assumes "fs1 (state_path (data_dir_or data_dir env)) = fs2 (state_path (data_dir_or data_dir env))"
    and "fs1 (config_path (data_dir_or data_dir env)) = fs2 (config_path (data_dir_or data_dir env))"
  shows "load fs1 env data_dir meminfo hostname = load fs2 env data_dir meminfo hostname"
  using assms
  by (simp add: load_def load_values_def Let_def load_state_def load_hook_file_def is_file_def read_json_def)

text \<open>Where the layers give a field the same value, two loads agree on it.\<close>

lemma load_same_value:
  assumes "load fs1 env data_dir meminfo hostname = Inr c1" and "load fs2 env data_dir meminfo hostname = Inr c2"
    and "f \<in> set (map fst config_fields)"
    and "explicit_value fs1 env (data_dir_or data_dir env) f = explicit_value fs2 env (data_dir_or data_dir env) f"
  shows "config_get c1 f = config_get c2 f"
proof -
  obtain t where "(f, t) \<in> set config_fields" using assms(3) by auto
  from load_field [OF assms(1) this] load_field [OF assms(2) this] assms(4) show ?thesis
    by (auto split: option.splits)
qed

lemma strong_device_id_strip: "strong_device_id (py_strip s) = strong_device_id s"
  by (simp add: strong_device_id_def py_strip_def)

text \<open>What a power cut after \<open>n\<close> operations of \<open>persist\<close> leaves.\<close>

definition persist_cut ::
  "nat \<Rightarrow> environ \<Rightarrow> string option \<Rightarrow> string \<Rightarrow> string \<Rightarrow> fs \<Rightarrow> fs" where
  "persist_cut n env data_dir key value fs =
     (let dir = data_dir_or data_dir env in
      case bind_result (persist_current fs dir) (\<lambda>cur. py_assign cur key (JStr value)) of
        Inl e \<Rightarrow> fs
      | Inr current \<Rightarrow> cut_after n (persist_ops dir current) fs)"

section \<open>What else happens to the files\<close>

text \<open>Whatever may happen between two starts: settings are saved, whatever the disk refuses
  (\<open>Persists\<close>), power fails during a save (\<open>PowerCut\<close>), and any other file changes, the
  configure hook's, the cache or a temporary one (\<open>Elsewhere\<close>).\<close>

datatype file_event =
    Persists "fs_op \<Rightarrow> bool" string string
  | PowerCut nat string string
  | Elsewhere path pyfile

fun file_step :: "environ \<Rightarrow> string option \<Rightarrow> fs \<Rightarrow> file_event \<Rightarrow> fs" where
  "file_step env data_dir fs (Persists fails k v) = fst (snd (persist fails env data_dir k v fs))"
| "file_step env data_dir fs (PowerCut n k v) = persist_cut n env data_dir k v fs"
| "file_step env data_dir fs (Elsewhere p x) = fs(p := x)"

text \<open>Events that are about other settings and other files.\<close>

fun spares :: "string \<Rightarrow> string \<Rightarrow> file_event \<Rightarrow> bool" where
  "spares dir key (Persists fails k v) = (k \<noteq> key)"
| "spares dir key (PowerCut n k v) = (k \<noteq> key)"
| "spares dir key (Elsewhere p x) = (p \<noteq> state_path dir)"

text \<open>What self-config.json holds for a key.\<close>

definition state_value :: "string \<Rightarrow> fs \<Rightarrow> string \<Rightarrow> json option" where
  "state_value dir fs k = (case fs (state_path dir) of Document (JDict kvs) \<Rightarrow> map_of kvs k | _ \<Rightarrow> None)"

lemma file_value_state:
  "file_value (fs (state_path dir)) f = usable_value (state_value dir fs (config_key SnapStyle f))"
  by (simp add: file_value_def state_value_def usable_value_def split: pyfile.split json.split)

lemma persist_current_value: "persist_current fs dir = Inr (JDict kvs) \<Longrightarrow> state_value dir fs k = map_of kvs k"
  by (auto simp: persist_current_def state_value_def is_file_def read_json_def
      split: pyfile.splits json.splits sum.splits py_error.splits value_error.splits if_splits)

text \<open>A save that raises leaves both files of the settings as they were.\<close>

lemma persist_failed:
  assumes "persist fails env data_dir k v fs = (Some e, fs', cmds)"
  defines "dir \<equiv> data_dir_or data_dir env"
  shows "cmds = []" and "fs' (config_path dir) = fs (config_path dir)" and "fs' (state_path dir) = fs (state_path dir)"
proof -
  have "cmds = [] \<and> fs' (config_path dir) = fs (config_path dir) \<and> fs' (state_path dir) = fs (state_path dir)"
  proof (cases "bind_result (persist_current fs dir) (\<lambda>cur. py_assign cur k (JStr v))")
    case (Inl x)
    then show ?thesis using assms by (simp add: persist_def Let_def)
  next
    case (Inr current)
    then have run: "run_ops fails (persist_ops dir current) fs = (Some e, fs')" and "cmds = []"
      using assms by (auto simp: persist_def Let_def split: prod.splits option.splits)
    then show ?thesis
      using state_file.others [of _ dir fails current fs] state_file.failed [OF run] by auto
  qed
  then show "cmds = []" and "fs' (config_path dir) = fs (config_path dir)" and "fs' (state_path dir) = fs (state_path dir)"
    by blast+
qed

text \<open>A save that power cuts short leaves the other file, and of its own the old or the new text.\<close>

lemma persist_cut_files:
  assumes "persist_current fs dir = Inr (JDict kvs)" and "dir = data_dir_or data_dir env"
  shows "persist_cut n env data_dir k v fs (config_path dir) = fs (config_path dir)"
    and "persist_cut n env data_dir k v fs (state_path dir) \<in>
      {fs (state_path dir), Document (JDict (AList.update k (JStr v) kvs))}"
proof -
  have l: "persist_cut n env data_dir k v fs = cut_after n (persist_ops dir (JDict (AList.update k (JStr v) kvs))) fs"
    using assms by (simp add: persist_cut_def py_assign_def)
  show "persist_cut n env data_dir k v fs (config_path dir) = fs (config_path dir)"
    unfolding l by (rule cut_after_untouched) (auto simp: persist_ops_def)
  show "persist_cut n env data_dir k v fs (state_path dir) \<in>
      {fs (state_path dir), Document (JDict (AList.update k (JStr v) kvs))}"
    unfolding l by (rule state_file.cut)
qed

lemma persist_cut_raises:
  assumes "\<And>kvs. persist_current fs (data_dir_or data_dir env) \<noteq> Inr (JDict kvs)"
  shows "persist_cut n env data_dir k v fs = fs"
proof (cases "persist_current fs (data_dir_or data_dir env)")
  case (Inr cur)
  then have "\<forall>kvs. cur \<noteq> JDict kvs" using assms by blast
  then have "\<exists>e. py_assign cur k (JStr v) = Inl e" by (cases cur) (simp_all add: py_assign_def)
  then show ?thesis using Inr by (auto simp: persist_cut_def)
qed (simp add: persist_cut_def)

lemma persist_cut_value:
  "k' \<noteq> k \<Longrightarrow> state_value (data_dir_or data_dir env) (persist_cut n env data_dir k v fs) k' =
     state_value (data_dir_or data_dir env) fs k'"
proof (cases "\<exists>kvs. persist_current fs (data_dir_or data_dir env) = Inr (JDict kvs)")
  case True
  then obtain kvs where cur: "persist_current fs (data_dir_or data_dir env) = Inr (JDict kvs)" by blast
  assume "k' \<noteq> k"
  then show ?thesis
    using persist_cut_files(2) [OF cur refl, of n k v] persist_current_value [OF cur, of k']
    by (auto simp: state_value_def)
next
  case False
  then show ?thesis using persist_cut_raises by metis
qed

lemma persist_value:
  assumes "k' \<noteq> k"
  shows "state_value (data_dir_or data_dir env) (fst (snd (persist fails env data_dir k v fs))) k' =
    state_value (data_dir_or data_dir env) fs k'"
proof -
  obtain e fs' cmds where p: "persist fails env data_dir k v fs = (e, fs', cmds)" by (metis prod_cases3)
  have "state_value (data_dir_or data_dir env) fs' k' = state_value (data_dir_or data_dir env) fs k'"
  proof (cases e)
    case None
    obtain kvs where cur: "persist_current fs (data_dir_or data_dir env) = Inr (JDict kvs)"
      and new: "fs' (state_path (data_dir_or data_dir env)) = Document (JDict (AList.update k (JStr v) kvs))"
      using p unfolding None by (rule persist_success)
    then show ?thesis
      using assms persist_current_value [OF cur, of k'] by (simp add: state_value_def [of _ fs'])
  next
    case (Some x)
    then show ?thesis using persist_failed(3) [OF p [unfolded Some]] by (simp add: state_value_def)
  qed
  then show ?thesis by (simp add: p)
qed

text \<open>The settings that \<open>persist\<close> records in a data directory are a store of settings.\<close>

definition save_setting ::
  "(fs_op \<Rightarrow> bool) \<Rightarrow> environ \<Rightarrow> string option \<Rightarrow> string \<Rightarrow> string \<Rightarrow> fs \<Rightarrow> fs option" where
  "save_setting fails env data_dir k v fs =
     (case persist fails env data_dir k v fs of (None, fs', _) \<Rightarrow> Some fs' | _ \<Rightarrow> None)"

interpretation self_config: settings_store
  "save_setting fails env data_dir" "state_value (data_dir_or data_dir env)" JStr
  "file_step env data_dir" "spares (data_dir_or data_dir env)"
  for fails env data_dir
proof unfold_locales
  fix k v fs fs'
  assume "save_setting fails env data_dir k v fs = Some fs'"
  then obtain cmds where "persist fails env data_dir k v fs = (None, fs', cmds)"
    by (auto simp: save_setting_def split: prod.splits option.splits)
  then obtain kvs where "fs' (state_path (data_dir_or data_dir env)) = Document (JDict (AList.update k (JStr v) kvs))"
    by (rule persist_success)
  then show "state_value (data_dir_or data_dir env) fs' k = Some (JStr v)" by (simp add: state_value_def)
next
  fix k e and fs :: fs
  assume "spares (data_dir_or data_dir env) k e"
  then show "state_value (data_dir_or data_dir env) (file_step env data_dir fs e) k =
      state_value (data_dir_or data_dir env) fs k"
    by (cases e) (auto simp: persist_value persist_cut_value state_value_def [of _ "fs(_ := _)"]
        state_value_def [of _ fs])
qed

lemma persisted_value_later:
  assumes "persist fails env data_dir k v fs = (None, fs', cmds)"
    and "list_all (spares (data_dir_or data_dir env) k) es"
  shows "state_value (data_dir_or data_dir env) (foldl (file_step env data_dir) fs' es) k = Some (JStr v)"
  using self_config.saved_stays [of fails env data_dir k v fs fs' es] assms by (simp add: save_setting_def)

lemma explicit_state:
  assumes "state_value dir fs (config_key SnapStyle f) = Some (JStr v)" and "v \<noteq> []"
    and "file_value (fs (config_path dir)) f = None" and "env_value env f = None"
  shows "explicit_value fs env dir f = Some (JStr v)"
  using assms by (simp add: explicit_value_def file_value_state [of fs] usable_value_def)

section \<open>Properties\<close>

text \<open>Whatever the files, the environment and the board say, a configuration that \<open>load\<close>
  returns is in range: the intervals are 0 or at least 10 and 5 seconds, the CEC backend and
  the acceleration mode are known ones, at least one view stays live, and the OSD name fits
  in 14 bytes of UTF-8.\<close>

theorem load_in_range:
  assumes "load fs env data_dir meminfo hostname = Inr c"
  shows "(refresh_interval c = 0 \<or> 10 \<le> refresh_interval c) \<and>
    (rotate_interval c = 0 \<or> 5 \<le> rotate_interval c) \<and>
    cec_backend c \<in> {''auto'', ''kernel'', ''libcec'', ''none''} \<and> 1 \<le> max_live_views c \<and>
    hardware_acceleration c \<in> {''auto'', ''always'', ''never''} \<and> utf8_length (osd_name c) \<le> 14"
  using load_config_ok [OF assms] by (simp add: config_ok_def)

lemma load_in_range_witness:
  "\<exists>c. load (\<lambda>_. Absent) [(''VISIONTAK_REFRESH_INTERVAL'', ''60'')] None None ''tv'' = Inr c \<and>
    10 \<le> refresh_interval c \<and> 1 \<le> max_live_views c"
proof -
  have l: "load (\<lambda>_. Absent) [(''VISIONTAK_REFRESH_INTERVAL'', ''60'')] None None ''tv''
      = Inr (default_config\<lparr>device_id := ''tv'', refresh_interval := 60\<rparr>)"
    by code_simp
  show ?thesis using l load_in_range [OF l] by simp
qed

text \<open>C23. Precedence. Each field of a loaded configuration is the coerced value of the highest
  layer that gives one: the environment, then the hook's config.json, then the client's
  self-config.json (a null or empty value gives none). Where no layer gives one, the device
  id is the hostname, the number of live views and the acceleration mode follow the memory
  profile (under 1536 MiB: one view and no acceleration; from 3072 MiB: six views), and
  every other field has the default of its class.\<close>

theorem load_precedence:
  assumes "load fs env data_dir meminfo hostname = Inr c" and "(f, t) \<in> set config_fields"
  shows "\<exists>w. config_get c f = Some w \<and>
    (case explicit_value fs env (data_dir_or data_dir env) f of
       Some v \<Rightarrow> coerce v t = Inr w
     | None \<Rightarrow> unset_value (total_memory_mib meminfo) hostname f = Some w)"
  using assms by (rule load_field)

lemma load_precedence_witness:
  "\<exists>c. load (\<lambda>p. if p = config_path ''.'' then Document (JDict [(''max-live-views'', JStr ''3'')])
             else Absent) [] None (Some ''MemTotal: 950000 kB'') ''tv'' = Inr c \<and>
    config_get c ''max_live_views'' = Some (VInt 3) \<and>
    config_get c ''hardware_acceleration'' = Some (VStr ''never'')"
proof -
  let ?fs = "\<lambda>p. if p = config_path ''.'' then Document (JDict [(''max-live-views'', JStr ''3'')]) else Absent"
  have l: "load ?fs [] None (Some ''MemTotal: 950000 kB'') ''tv''
      = Inr (default_config\<lparr>device_id := ''tv'', hardware_acceleration := ''never''\<rparr>)"
    by code_simp
  have f: "(''max_live_views'', IntField) \<in> set config_fields"
    "(''hardware_acceleration'', StrField) \<in> set config_fields"
    by (simp_all add: config_fields_def)
  have e: "explicit_value ?fs [] (data_dir_or None []) ''max_live_views'' = Some (JStr ''3'')"
    "explicit_value ?fs [] (data_dir_or None []) ''hardware_acceleration'' = None"
    "coerce (JStr ''3'') IntField = Inr (VInt 3)"
    "unset_value (total_memory_mib (Some ''MemTotal: 950000 kB'')) ''tv'' ''hardware_acceleration''
      = Some (VStr ''never'')"
    by code_simp+
  show ?thesis
    using l e load_precedence [OF l f(1)] load_precedence [OF l f(2)] by auto
qed

text \<open>C21. A setting that \<open>persist\<close> saved comes back at every later start, whatever happens to the
  files in between: other settings are saved, with or without success, power fails during such
  a save, and the configure hook or anybody else changes the other files. Only the environment
  or the hook's file can override it, by setting the field. The loaded field is the saved text
  without surrounding white space.\<close>

theorem persisted_setting_survives:
  assumes "persist fails env data_dir (config_key SnapStyle f) v fs = (None, fs1, cmds)"
    and "(f, StrField) \<in> set config_fields" and "v \<noteq> []"
    and "list_all (spares (data_dir_or data_dir env) (config_key SnapStyle f)) events"
    and "fs2 = foldl (file_step env data_dir) fs1 events"
    and "file_value (fs2 (config_path (data_dir_or data_dir env))) f = None"
    and "env_value env f = None"
    and "load fs2 env data_dir meminfo hostname = Inr c"
  shows "config_get c f = Some (VStr (py_strip v))"
proof -
  have "state_value (data_dir_or data_dir env) fs2 (config_key SnapStyle f) = Some (JStr v)"
    unfolding assms(5) by (rule persisted_value_later [OF assms(1,4)])
  from this assms(3,6,7) have "explicit_value fs2 env (data_dir_or data_dir env) f = Some (JStr v)"
    by (rule explicit_state)
  then show ?thesis by (rule load_string_field [OF assms(8,2)])
qed

lemma persisted_setting_survives_witness:
  "\<exists>c. config_get c ''server_url'' = Some (VStr ''http://vt.example'') \<and> cec_backend c = ''none'' \<and>
     api_token c = ''t''"
proof -
  let ?env = "[(''SNAP_DATA'', ''/d'')]"
  let ?fs0 = "\<lambda>p. if p = state_path ''/d'' then NotJson else Absent"
  let ?r = "persist (\<lambda>_. False) ?env None (config_key SnapStyle ''server_url'') ''http://vt.example'' ?fs0"
  let ?es = "[Persists (\<lambda>_. False) ''api-token'' ''t'', PowerCut 1 ''device-id'' ''x'',
    Elsewhere (config_path ''/d'') (Document (JDict [(''cec-backend'', JStr ''none'')]))]"
  let ?fs2 = "foldl (file_step ?env None) (fst (snd ?r)) ?es"
  let ?c = "default_config\<lparr>server_url := ''http://vt.example'', device_id := ''tv'', cec_backend := ''none'',
    api_token := ''t''\<rparr>"
  have p: "?r = (None, fst (snd ?r), snd (snd ?r))"
    by (rule prod_eqI) (code_simp, simp)
  have l: "load ?fs2 ?env None None ''tv'' = Inr ?c"
    by code_simp
  have f: "(''server_url'', StrField) \<in> set config_fields" by (simp add: config_fields_def)
  have es: "list_all (spares (data_dir_or None ?env) (config_key SnapStyle ''server_url'')) ?es"
    by code_simp
  have h: "file_value (?fs2 (config_path (data_dir_or None ?env))) ''server_url'' = None"
    by code_simp
  have e: "env_value ?env ''server_url'' = None" by code_simp
  have "py_strip ''http://vt.example'' = ''http://vt.example''" by code_simp
  then have "config_get ?c ''server_url'' = Some (VStr ''http://vt.example'')"
    using persisted_setting_survives [OF p f _ es refl h e l] by simp
  then show ?thesis by (intro exI [of _ ?c]) simp
qed

text \<open>C22. A power cut at any point of \<open>persist\<close>, a write torn half-way included, loses nothing. The
  files it leaves load either exactly as before the save or exactly as after it, and every
  field but the one that was being saved loads as before. (The operations are taken to reach
  the disk in the order of the program; the code calls no \<open>fsync\<close> that would force them to.)\<close>

theorem persist_power_cut:
  assumes "persist fails env data_dir k v fs = (None, fs', cmds)"
  shows "load (persist_cut n env data_dir k v fs) env data_dir meminfo hostname \<in>
      {load fs env data_dir meminfo hostname, load fs' env data_dir meminfo hostname} \<and>
    (\<forall>before after. load fs env data_dir meminfo hostname = Inr before \<longrightarrow>
      load (persist_cut n env data_dir k v fs) env data_dir meminfo hostname = Inr after \<longrightarrow>
      (\<forall>f \<in> set (map fst config_fields). config_key SnapStyle f \<noteq> k \<longrightarrow>
        config_get after f = config_get before f))"
proof -
  let ?dir = "data_dir_or data_dir env"
  let ?cut = "persist_cut n env data_dir k v fs"
  obtain kvs where cur: "persist_current fs ?dir = Inr (JDict kvs)"
    and new: "fs' (state_path ?dir) = Document (JDict (AList.update k (JStr v) kvs))"
    and others: "\<And>p. p \<noteq> state_path ?dir \<Longrightarrow> p \<noteq> state_tmp ?dir \<Longrightarrow> fs' p = fs p"
    using assms by (rule persist_success) (blast intro: that)
  note cut = persist_cut_files [OF cur refl, of n k v]
  have "fs' (config_path ?dir) = fs (config_path ?dir)" by (rule others) simp_all
  then have "load ?cut env data_dir meminfo hostname \<in>
      {load fs env data_dir meminfo hostname, load fs' env data_dir meminfo hostname}"
    using cut new by (auto intro: load_cong)
  moreover have "config_get after f = config_get before f"
    if "load fs env data_dir meminfo hostname = Inr before" "load ?cut env data_dir meminfo hostname = Inr after"
      "f \<in> set (map fst config_fields)" "config_key SnapStyle f \<noteq> k" for before after f
  proof (rule load_same_value [OF that(2,1,3)])
    have "file_value (?cut (state_path ?dir)) f = file_value (fs (state_path ?dir)) f"
      using that(4) by (simp add: file_value_state [of ?cut] file_value_state [of fs] persist_cut_value)
    then show "explicit_value ?cut env ?dir f = explicit_value fs env ?dir f"
      unfolding explicit_value_def cut(1) by (rule arg_cong)
  qed
  ultimately show ?thesis by blast
qed

lemma persist_power_cut_witness:
  "\<exists>c. load (persist_cut 1 [] None ''server-url'' ''http://a''
      (\<lambda>p. if p = state_path ''.'' then Document (JDict [(''api-token'', JStr ''t'')]) else Absent)) [] None None ''tv'' =
      Inr c \<and> config_get c ''api_token'' = Some (VStr ''t'')"
proof -
  let ?fs = "\<lambda>p. if p = state_path ''.'' then Document (JDict [(''api-token'', JStr ''t'')]) else Absent"
  let ?r = "persist (\<lambda>_. False) [] None ''server-url'' ''http://a'' ?fs"
  let ?c = "default_config\<lparr>device_id := ''tv'', api_token := ''t''\<rparr>"
  have p: "?r = (None, fst (snd ?r), snd (snd ?r))"
    by (rule prod_eqI) (code_simp, simp)
  have b: "load ?fs [] None None ''tv'' = Inr ?c"
    and a: "load (fst (snd ?r)) [] None None ''tv'' = Inr (?c\<lparr>server_url := ''http://a''\<rparr>)"
    by code_simp+
  note c = persist_power_cut [OF p, of 1 None "''tv''"]
  obtain d where d: "load (persist_cut 1 [] None ''server-url'' ''http://a'' ?fs) [] None None ''tv'' = Inr d"
    using c a b by auto
  have f: "''api_token'' \<in> set (map fst config_fields)" "config_key SnapStyle ''api_token'' \<noteq> ''server-url''"
    by code_simp+
  have "config_get d ''api_token'' = config_get ?c ''api_token''" using c b d f by blast
  then show ?thesis using d by (simp add: config_get_def config_alist_def)
qed

text \<open>A save that raises, whatever made it fail (a file that cannot be read, a state file that is
  no dictionary, a refused operation), mirrors nothing into snapd and leaves the next start's
  configuration as it was.\<close>

theorem persist_failure:
  assumes "persist fails env data_dir k v fs = (Some e, fs', cmds)"
  shows "cmds = [] \<and>
    load fs' env data_dir meminfo hostname = load fs env data_dir meminfo hostname"
  using persist_failed [OF assms] by (auto intro: load_cong)

lemma persist_failure_witness:
  "persist (\<lambda>x. \<exists>p q. x = Replace p q) [(''SNAP_NAME'', ''v'')] None ''device-id'' ''x'' (\<lambda>_. Absent) =
     (Some OSError, snd (persist (\<lambda>x. \<exists>p q. x = Replace p q) [(''SNAP_NAME'', ''v'')] None ''device-id'' ''x'' (\<lambda>_. Absent)))
   \<and> snd (snd (persist (\<lambda>x. \<exists>p q. x = Replace p q) [(''SNAP_NAME'', ''v'')] None ''device-id'' ''x'' (\<lambda>_. Absent))) = []"
proof -
  let ?r = "persist (\<lambda>x. \<exists>p q. x = Replace p q) [(''SNAP_NAME'', ''v'')] None ''device-id'' ''x'' (\<lambda>_. Absent)"
  have "fst ?r = Some OSError"
    by (simp add: persist_def Let_def persist_current_def is_file_def py_assign_def persist_ops_def)
  then have p: "?r = (Some OSError, fst (snd ?r), snd (snd ?r))"
    by (intro prod_eqI) simp_all
  show ?thesis using persist_failure [OF p, of None "''tv''"] p by (metis prod.collapse)
qed

text \<open>C24. The first start with a weak device id and a save that works gives the device a strong id,
  and every later start loads that id (without surrounding white space) and keeps it without
  writing anything, whatever UUID it would draw: also after an address or a token was saved,
  a save failed or was cut short by power, and the configure hook rewrote its file, unless the
  environment or that file sets the id explicitly.\<close>

theorem device_id_stable:
  assumes "\<not> strong_device_id (device_id c)"
    and "persist fails env None ''device-id'' (DEVICE_ID_PREFIX @ uuid) fs = (None, fs1, cmds)"
    and "list_all (spares (data_dir_or None env) ''device-id'') events"
    and "fs2 = foldl (file_step env None) fs1 events"
    and "file_value (fs2 (config_path (data_dir_or None env))) ''device_id'' = None"
    and "env_value env ''device_id'' = None"
    and "load fs2 env None meminfo hostname = Inr c2"
  shows "\<exists>c1. ensure_device_id fails env uuid c fs = (c1, fs1, cmds) \<and>
    strong_device_id (device_id c1) \<and> device_id c2 = py_strip (device_id c1) \<and>
    (\<forall>fails2 uuid2. ensure_device_id fails2 env uuid2 c2 fs2 = (c2, fs2, []))"
proof -
  let ?id = "DEVICE_ID_PREFIX @ uuid"
  have key: "config_key SnapStyle ''device_id'' = ''device-id''" by code_simp
  have "state_value (data_dir_or None env) fs2 (config_key SnapStyle ''device_id'') = Some (JStr ?id)"
    unfolding assms(4) key by (rule persisted_value_later [OF assms(2,3)])
  from this _ assms(5,6) have "explicit_value fs2 env (data_dir_or None env) ''device_id'' = Some (JStr ?id)"
    by (rule explicit_state) (simp add: DEVICE_ID_PREFIX_def)
  then have "config_get c2 ''device_id'' = Some (VStr (py_strip ?id))"
    using load_string_field [OF assms(7)] by (simp add: config_fields_def)
  then have c2: "device_id c2 = py_strip ?id"
    by (simp add: config_get_def config_alist_def)
  then have "strong_device_id (device_id c2)"
    by (simp add: strong_device_id_strip new_device_id_strong)
  then show ?thesis
    using assms(1,2) c2 new_device_id_strong [of uuid]
    by (intro exI [of _ "c\<lparr>device_id := ?id\<rparr>"]) (simp add: ensure_device_id_def Let_def)
qed

lemma device_id_stable_witness:
  "\<exists>(c1 :: config) (c2 :: config). strong_device_id (device_id c1) \<and> device_id c2 = device_id c1 \<and>
    device_id c1 = ''visiontak_client_0f3a'' \<and> api_token c2 = ''t''"
proof -
  let ?env = "[(''SNAP_DATA'', ''/d'')]"
  let ?r = "persist (\<lambda>_. False) ?env None ''device-id'' (DEVICE_ID_PREFIX @ ''0f3a'') (\<lambda>_. Absent)"
  let ?es = "[Persists (\<lambda>_. False) ''api-token'' ''t'', PowerCut 1 ''server-url'' ''x'']"
  let ?fs2 = "foldl (file_step ?env None) (fst (snd ?r)) ?es"
  let ?c2 = "default_config\<lparr>device_id := ''visiontak_client_0f3a'', api_token := ''t''\<rparr>"
  have p: "?r = (None, fst (snd ?r), snd (snd ?r))"
    by (rule prod_eqI) (code_simp, simp)
  have w: "\<not> strong_device_id (device_id (default_config\<lparr>device_id := ''localhost''\<rparr>))"
    and es: "list_all (spares (data_dir_or None ?env) ''device-id'') ?es"
    and h: "file_value (?fs2 (config_path (data_dir_or None ?env))) ''device_id'' = None"
    and e: "env_value ?env ''device_id'' = None"
    and l: "load ?fs2 ?env None None ''localhost'' = Inr ?c2"
    by code_simp+
  from device_id_stable [OF w p es refl h e l] obtain c1 where
    1: "ensure_device_id (\<lambda>_. False) ?env ''0f3a'' (default_config\<lparr>device_id := ''localhost''\<rparr>) (\<lambda>_. Absent)
       = (c1, fst (snd ?r), snd (snd ?r))" and 2: "strong_device_id (device_id c1)"
    by blast
  have "fst (ensure_device_id (\<lambda>_. False) ?env ''0f3a'' (default_config\<lparr>device_id := ''localhost''\<rparr>) (\<lambda>_. Absent))
    = default_config\<lparr>device_id := ''visiontak_client_0f3a''\<rparr>"
    by code_simp
  with 1 have "c1 = default_config\<lparr>device_id := ''visiontak_client_0f3a''\<rparr>" by simp
  with 2 show ?thesis by (intro exI [of _ c1] exI [of _ ?c2]) auto
qed

text \<open>A self-config.json that is not UTF-8 or not JSON never stops a start: the configuration
  is the one loaded without the file.\<close>

theorem damaged_state_is_absent:
  assumes "fs (state_path (data_dir_or data_dir env)) = NotJson \<or>
    fs (state_path (data_dir_or data_dir env)) = NotText"
  shows "load fs env data_dir meminfo hostname =
    load (fs(state_path (data_dir_or data_dir env) := Absent)) env data_dir meminfo hostname"
  using assms load_state_damaged [of fs "data_dir_or data_dir env"]
  by (simp add: load_def load_values_def Let_def load_state_absent load_hook_file_def is_file_def
      read_json_def)

lemma damaged_state_is_absent_witness:
  "load ((\<lambda>_. Absent)(state_path ''.'' := NotJson)) [] None None ''tv''
     = Inr (default_config\<lparr>device_id := ''tv''\<rparr>)"
proof -
  have d: "data_dir_or None [] = ''.''" by code_simp
  have "load (((\<lambda>_. Absent)(state_path ''.'' := NotJson))(state_path ''.'' := Absent)) [] None None ''tv''
      = Inr (default_config\<lparr>device_id := ''tv''\<rparr>)"
    by code_simp
  then show ?thesis
    using damaged_state_is_absent [of "(\<lambda>_. Absent)(state_path ''.'' := NotJson)" None "[]" None "''tv''"] d
    by simp
qed

text \<open>A self-config.json that is valid JSON but not a container, such as null or a number, is
  not covered by the code's handler: the membership test raises TypeError, which is no
  ValueError, so \<open>load\<close> raises it whatever the other layers say.\<close>

theorem non_container_state_stops_load:
  assumes "fs (state_path (data_dir_or data_dir env)) = Document v"
    and "v = JNull \<or> (\<exists>n. v = JInt n) \<or> (\<exists>b. v = JBool b) \<or> (\<exists>x. v = JFloat x)"
  shows "load fs env data_dir meminfo hostname = Inl TypeError"
  using assms by (auto simp: load_def load_values_def Let_def load_state_def is_file_def
     read_json_def from_mapping_def config_fields_def pick_field_def py_in_def)

lemma non_container_state_stops_load_witness:
  "load ((\<lambda>_. Absent)(state_path ''.'' := Document JNull)) [] None None ''tv'' = Inl TypeError"
proof -
  have "data_dir_or None [] = ''.''" by code_simp
  then show ?thesis
    using non_container_state_stops_load [of _ None "[]" JNull None "''tv''"] by simp
qed

end
