(* ===== verification/Policy.thy ===== *)
theory Policy
  imports Config Models
begin

text \<open>
  \<open>ui/policy.py\<close>: the hosts a webview may navigate to. The part of the standard library's URL
  parser that decides the scheme and the host name is written out (\<open>urlsplit\<close> and \<open>hostname\<close>
  of Python 3.12, with the check of bracketed hosts by \<open>ipaddress\<close>), because what counts as
  the host of an address is what the policy rests on. The lemmas say which host an address
  has, that the pages of the configured server are always permitted, and that nothing else
  is unless its host was listed.
\<close>

section \<open>IP addresses as the standard library checks them\<close>

definition ipv4_octet :: "string \<Rightarrow> bool" where
  "ipv4_octet s \<longleftrightarrow>
     s \<noteq> [] \<and> list_all is_decimal s \<and> length s \<le> 3 \<and> (s = ''0'' \<or> hd s \<noteq> CHR ''0'') \<and>
     digits_value s \<le> 255"

definition ipv4_address :: "string \<Rightarrow> bool" where
  "ipv4_address s \<longleftrightarrow>
     (let octets = split_char (CHR ''.'') s in length octets = 4 \<and> list_all ipv4_octet octets)"

definition hextet :: "string \<Rightarrow> bool" where
  "hextet s \<longleftrightarrow> s \<noteq> [] \<and> length s \<le> 4 \<and> list_all is_hex_char s"

text \<open>The fields of an IPv6 address; a dotted tail stands for two fields.\<close>

definition ipv6_fields :: "string \<Rightarrow> string list option" where
  "ipv6_fields s =
     (let parts = split_char (CHR '':'') s in
      if length parts < 3 then None
      else if py_contains ''.'' (last parts) then
        (if ipv4_address (last parts) then Some (butlast parts @ [''0'', ''0'']) else None)
      else Some parts)"

definition ipv6_fields_ok :: "string list \<Rightarrow> bool" where
  "ipv6_fields_ok parts \<longleftrightarrow>
     length parts \<le> 9 \<and>
     (case filter (\<lambda>i. parts ! i = []) [1..<length parts - 1] of
        [] \<Rightarrow> length parts = 8 \<and> list_all hextet parts
      | [i] \<Rightarrow>
          (let hi = take i parts; lo = drop (i + 1) parts;
               hi = (if hd hi = [] then tl hi else hi);
               lo = (if last lo = [] then butlast lo else lo)
           in (hd parts = [] \<longrightarrow> i = 1) \<and> (last parts = [] \<longrightarrow> i + 2 = length parts) \<and>
              length hi + length lo < 8 \<and> list_all hextet hi \<and> list_all hextet lo)
      | _ \<Rightarrow> False)"

definition ipv6_address :: "string \<Rightarrow> bool" where
  "ipv6_address s \<longleftrightarrow>
     \<not> py_contains ''/'' s \<and>
     (case py_partition ''%'' s of
        (addr, sep, scope) \<Rightarrow>
          (sep = [] \<or> (scope \<noteq> [] \<and> \<not> py_contains ''%'' scope)) \<and>
          (case ipv6_fields addr of None \<Rightarrow> False | Some parts \<Rightarrow> ipv6_fields_ok parts))"

text \<open>\<open>_check_bracketed_host\<close>: an IPvFuture literal or an IPv6 address.\<close>

definition bracketed_host_ok :: "string \<Rightarrow> bool" where
  "bracketed_host_ok h \<longleftrightarrow>
     (if starts_with ''v'' h then
        (let hexes = takeWhile is_hex_char (drop 1 h); rest = drop (1 + length hexes) h
         in hexes \<noteq> [] \<and> starts_with ''.'' rest \<and> 1 < length rest \<and> CHR 0x0A \<notin> set (drop 1 rest))
      else ipv6_address h)"

section \<open>Splitting an address\<close>

definition is_scheme_char :: "char \<Rightarrow> bool" where
  "is_scheme_char c \<longleftrightarrow> is_alnum_ascii c \<or> c = CHR ''+'' \<or> c = CHR ''-'' \<or> c = CHR ''.''"

definition clean_url :: "string \<Rightarrow> string" where
  "clean_url url =
     filter (\<lambda>c. cp c \<noteq> 9 \<and> cp c \<noteq> 10 \<and> cp c \<noteq> 13) (lstrip_by (\<lambda>c. cp c \<le> 32) url)"

definition split_scheme :: "string \<Rightarrow> string \<times> string" where
  "split_scheme url =
     (let s = takeWhile (\<lambda>c. c \<noteq> CHR '':'') url in
      if length s < length url \<and> s \<noteq> [] \<and> (is_upper_ascii (hd s) \<or> is_lower_ascii (hd s)) \<and>
        list_all is_scheme_char s
      then (py_lower s, drop (length s + 1) url) else ([], url))"

definition netloc_of :: "string \<Rightarrow> string" where
  "netloc_of rest =
     (if starts_with ''//'' rest
      then takeWhile (\<lambda>c. c \<noteq> CHR ''/'' \<and> c \<noteq> CHR ''?'' \<and> c \<noteq> CHR ''#'') (drop 2 rest) else [])"

text \<open>\<open>urlparse(url)\<close>: its scheme and its netloc, whose brackets are checked.\<close>

definition check_netloc :: "string \<Rightarrow> string \<Rightarrow> (string \<times> string) result" where
  "check_netloc scheme netloc =
     (let opened = CHR ''['' \<in> set netloc; closed = CHR '']'' \<in> set netloc
      in if opened \<noteq> closed then Inl (ValueError InvalidUrl)
         else if opened \<and> \<not> bracketed_host_ok
           (fst (py_partition '']'' (snd (snd (py_partition ''['' netloc)))))
         then Inl (ValueError InvalidUrl)
         else Inr (scheme, netloc))"

definition urlparse :: "string \<Rightarrow> (string \<times> string) result" where
  "urlparse url =
     (case split_scheme (clean_url url) of (scheme, rest) \<Rightarrow> check_netloc scheme (netloc_of rest))"

definition after_last :: "char \<Rightarrow> string \<Rightarrow> string" where
  "after_last c s = rev (takeWhile (\<lambda>x. x \<noteq> c) (rev s))"

text \<open>\<open>.hostname\<close> of a netloc; the empty text is None.\<close>

definition hostname :: "string \<Rightarrow> string" where
  "hostname netloc =
     (let info = after_last (CHR ''@'') netloc;
          host = (case py_partition ''['' info of
                    (_, opened, bracketed) \<Rightarrow>
                      if opened \<noteq> [] then fst (py_partition '']'' bracketed)
                      else fst (py_partition '':'' info))
      in case py_partition ''%'' host of (h, percent, zone) \<Rightarrow> py_lower h @ percent @ zone)"

section \<open>The allowlist\<close>

record allowlist =
  al_hosts :: "string set"
  al_any :: bool

definition ALWAYS_ALLOWED_SCHEMES :: "string set" where
  "ALWAYS_ALLOWED_SCHEMES = {''about'', ''data'', ''blob''}"

definition WILDCARD :: string where "WILDCARD = ''*''"

definition allow :: "string \<Rightarrow> allowlist \<Rightarrow> allowlist result" where
  "allow url al =
     (if py_strip url = WILDCARD then Inr (al\<lparr>al_any := True\<rparr>)
      else bind_result (urlparse (if py_contains ''//'' url then url else ''//'' @ url))
        (\<lambda>(_, netloc).
          let host = hostname netloc in
          Inr (if host \<noteq> [] then al\<lparr>al_hosts := insert (py_lower host) (al_hosts al)\<rparr> else al)))"

fun allow_all :: "string list \<Rightarrow> allowlist \<Rightarrow> allowlist result" where
  "allow_all [] al = Inr al"
| "allow_all (url # urls) al = bind_result (allow url al) (\<lambda>al. allow_all urls al)"

definition host_allowlist :: "string list \<Rightarrow> allowlist result" where
  "host_allowlist urls = allow_all urls \<lparr>al_hosts = {}, al_any = False\<rparr>"

definition permits :: "allowlist \<Rightarrow> string \<Rightarrow> bool result" where
  "permits al url =
     bind_result (urlparse url) (\<lambda>(scheme, netloc).
       if scheme \<in> ALWAYS_ALLOWED_SCHEMES then Inr True
       else if al_any al then Inr True
       else
         (let host = py_lower (hostname netloc) in
          if host = [] then Inr False
          else Inr (\<exists>allowed \<in> al_hosts al. host = allowed \<or> ends_with (''.'' @ allowed) host)))"

section \<open>The decision\<close>

datatype decision_type = NAVIGATION_ACTION | NEW_WINDOW_ACTION | OtherDecision

text \<open>What the handler does: whether it ignores the request, and whether it claims the decision.\<close>

definition decide_policy :: "allowlist \<Rightarrow> decision_type \<Rightarrow> string \<Rightarrow> (bool \<times> bool) result" where
  "decide_policy al kind url =
     (case kind of
        OtherDecision \<Rightarrow> Inr (False, False)
      | NEW_WINDOW_ACTION \<Rightarrow> Inr (True, True)
      | NAVIGATION_ACTION \<Rightarrow>
          bind_result (permits al url) (\<lambda>ok. Inr (if ok then (False, False) else (True, True))))"

section \<open>The host of an address\<close>

definition netloc_char :: "char \<Rightarrow> bool" where
  "netloc_char c \<longleftrightarrow> c \<noteq> CHR ''/'' \<and> c \<noteq> CHR ''?'' \<and> c \<noteq> CHR ''#'' \<and> 32 < cp c"

text \<open>Where an authority ends: at the end of the address or at one of the three delimiters.\<close>

definition ends_authority :: "string \<Rightarrow> bool" where
  "ends_authority tail \<longleftrightarrow> tail = [] \<or> hd tail \<in> {CHR ''/'', CHR ''?'', CHR ''#''}"

lemma cp_http [simp]:
  "cp (CHR ''h'') = 104" "cp (CHR ''t'') = 116" "cp (CHR ''p'') = 112" "cp (CHR ''s'') = 115"
  "cp (CHR '':'') = 58" "cp (CHR ''/'') = 47" "cp (CHR ''?'') = 63" "cp (CHR ''#'') = 35"
  by (simp_all add: cp_def)

lemma clean_url_http:
  assumes "scheme \<in> {''http'', ''https''}" and "list_all netloc_char auth"
  shows "clean_url (scheme @ ''://'' @ auth @ tail) =
    scheme @ ''://'' @ auth @ filter (\<lambda>c. cp c \<noteq> 9 \<and> cp c \<noteq> 10 \<and> cp c \<noteq> 13) tail"
proof -
  let ?keep = "\<lambda>c. cp c \<noteq> 9 \<and> cp c \<noteq> 10 \<and> cp c \<noteq> 13"
  have a: "filter ?keep auth = auth"
    using assms(2) by (induction auth) (auto simp: netloc_char_def)
  have l: "lstrip_by (\<lambda>c. cp c \<le> 32) (scheme @ ''://'' @ auth @ tail) = scheme @ ''://'' @ auth @ tail"
    using assms(1) by (elim insertE emptyE; simp add: lstrip_by_def)
  have f: "filter ?keep scheme = scheme" using assms(1) by (elim insertE emptyE; simp)
  have g: "filter ?keep ''://'' = ''://''" by simp
  show ?thesis
    by (simp only: clean_url_def l filter_append a f g)
qed

lemma split_scheme_http:
  assumes "scheme \<in> {''http'', ''https''}"
  shows "split_scheme (scheme @ '':'' @ rest) = (scheme, rest)"
  using assms
  by (auto simp: split_scheme_def Let_def is_scheme_char_def py_lower_def lower_char_def
      char_class_defs)

lemma takeWhile_until:
  "list_all P xs \<Longrightarrow> ys = [] \<or> \<not> P (hd ys) \<Longrightarrow> takeWhile P (xs @ ys) = xs"
  by (cases ys) (auto simp: list_all_iff takeWhile_append2)

lemma filter_keeps_hd:
  "ends_authority tail \<Longrightarrow> ends_authority (filter (\<lambda>c. cp c \<noteq> 9 \<and> cp c \<noteq> 10 \<and> cp c \<noteq> 13) tail)"
  by (cases tail) (auto simp: ends_authority_def)

lemma urlparse_http:
  assumes "scheme \<in> {''http'', ''https''}" and "list_all netloc_char auth" and "ends_authority tail"
  shows "urlparse (scheme @ ''://'' @ auth @ tail) = check_netloc scheme auth"
proof -
  let ?t = "filter (\<lambda>c. cp c \<noteq> 9 \<and> cp c \<noteq> 10 \<and> cp c \<noteq> 13) tail"
  have s: "split_scheme (scheme @ '':'' @ ''//'' @ auth @ ?t) = (scheme, ''//'' @ auth @ ?t)"
    by (rule split_scheme_http [OF assms(1)])
  have "takeWhile (\<lambda>c. c \<noteq> CHR ''/'' \<and> c \<noteq> CHR ''?'' \<and> c \<noteq> CHR ''#'') (auth @ ?t) = auth"
  proof (rule takeWhile_until)
    show "list_all (\<lambda>c. c \<noteq> CHR ''/'' \<and> c \<noteq> CHR ''?'' \<and> c \<noteq> CHR ''#'') auth"
      using assms(2) by (simp add: list_all_iff netloc_char_def)
    show "?t = [] \<or> \<not> (hd ?t \<noteq> CHR ''/'' \<and> hd ?t \<noteq> CHR ''?'' \<and> hd ?t \<noteq> CHR ''#'')"
      using filter_keeps_hd [OF assms(3)] unfolding ends_authority_def by blast
  qed
  then have "netloc_of (''//'' @ auth @ ?t) = auth"
    by (simp add: netloc_of_def starts_with_def)
  then show ?thesis
    using clean_url_http [OF assms(1,2), of tail] s by (simp add: urlparse_def)
qed

lemma check_netloc_Inr: "check_netloc s n = Inr r \<Longrightarrow> r = (s, n)"
  by (auto simp: check_netloc_def Let_def split: if_splits)


lemma after_last_none: "c \<notin> set s \<Longrightarrow> after_last c s = s"
  unfolding after_last_def by (subst takeWhile_eq_all_conv [THEN iffD2]) auto


lemma break_at_none: "c \<notin> set s \<Longrightarrow> break_at [c] s = None"
  by (auto simp: break_at_None_iff)

lemma py_lower_simps [simp]: "py_lower [] = []" "py_lower s = [] \<longleftrightarrow> s = []"
  by (simp_all add: py_lower_def)

lemma cp_char_of_int: "0 \<le> n \<Longrightarrow> n < 256 \<Longrightarrow> cp (char_of (n :: int)) = n"
  by (simp add: cp_def)

lemma lower_char_idem [simp]: "lower_char (lower_char c) = lower_char c"
  by (auto simp: lower_char_def is_upper_ascii_def cp_char_of_int)

lemma py_lower_idem [simp]: "py_lower (py_lower s) = py_lower s"
  by (simp add: py_lower_def)

lemma hostname_no_userinfo:
  assumes "CHR ''@'' \<notin> set info" and "CHR ''['' \<notin> set info" and "CHR ''%'' \<notin> set host"
    and "CHR '':'' \<notin> set host" and "info = host @ port" and "port = [] \<or> hd port = CHR '':''"
  shows "hostname info = py_lower host"
proof -
  have "fst (py_partition '':'' info) = host"
  proof (cases port)
    case Nil
    then show ?thesis using assms(4,5) by (simp add: py_partition_def break_at_none)
  next
    case (Cons c cs)
    then have "info = host @ '':'' @ cs" using assms(5,6) by simp
    moreover have "break_at '':'' (host @ '':'' @ cs) = Some (host, cs)"
      using assms(4) by (intro break_at_hit) auto
    ultimately show ?thesis by (simp add: py_partition_def)
  qed
  then show ?thesis
    using assms(1,2,3)
    by (simp add: hostname_def Let_def after_last_none py_partition_def [of "''[''"]
        py_partition_def [of "''%''"] break_at_none)
qed


lemma host_chars:
  "list_all (\<lambda>c. is_alnum_ascii c \<or> c = CHR ''.'' \<or> c = CHR ''-'') h \<Longrightarrow>
     list_all netloc_char h \<and> CHR ''@'' \<notin> set h \<and> CHR ''['' \<notin> set h \<and> CHR '']'' \<notin> set h \<and>
     CHR ''%'' \<notin> set h \<and> CHR '':'' \<notin> set h"
  by (induction h) (auto simp: netloc_char_def char_class_defs cp_def)

lemma plain_host_chars:
  "plain_host h \<Longrightarrow> list_all netloc_char h \<and> h \<noteq> [] \<and>
     CHR ''@'' \<notin> set h \<and> CHR ''['' \<notin> set h \<and> CHR '']'' \<notin> set h \<and> CHR ''%'' \<notin> set h \<and> CHR '':'' \<notin> set h"
  using host_chars [of h] by (simp add: plain_host_def)

lemma port_chars:
  "list_all is_decimal p \<Longrightarrow>
     list_all netloc_char p \<and> CHR ''@'' \<notin> set p \<and> CHR ''['' \<notin> set p \<and> CHR '']'' \<notin> set p"
  by (induction p) (auto simp: netloc_char_def char_class_defs cp_def)

lemma authority_netloc: "authority_char c \<Longrightarrow> netloc_char c \<and> c \<noteq> CHR ''@''"
  by (auto simp: authority_char_def netloc_char_def char_class_defs cp_def)

lemma hostname_authority:
  assumes "valid_authority a = Inr True"
  shows "hostname a \<noteq> []"
proof (cases "starts_with ''['' a")
  case True
  let ?c = "find_char (CHR '']'') a"
  let ?h = "slice 1 (nat ?c) a" and ?p = "drop (nat ?c + 1) a"
  have c: "\<not> ?c < 2" and h: "ipv6_host ?h"
    using assms True by (auto simp: valid_authority_def Let_def bind_result_Inr_iff split: if_splits)
  have a: "a = ''['' @ ?h @ '']'' @ ?p" by (rule bracketed_split [OF True c])
  have "list_all authority_char a" using valid_authority_chars [OF assms] by blast
  then have at: "CHR ''@'' \<notin> set a" using authority_netloc by (auto simp: list_all_iff)
  have hc: "CHR '']'' \<notin> set ?h" "CHR ''%'' \<notin> set ?h" "?h \<noteq> []"
    using h by (auto simp: ipv6_host_def list_all_iff char_class_defs cp_def dest!: bspec)
  have 1: "py_partition ''['' a = ([], ''['', ?h @ '']'' @ ?p)"
    by (subst a) (simp add: py_partition_def)
  have "break_at '']'' (?h @ '']'' @ ?p) = Some (?h, ?p)"
    using hc(1) by (intro break_at_hit) auto
  then have 2: "fst (py_partition '']'' (?h @ '']'' @ ?p)) = ?h" by (simp add: py_partition_def)
  have "hostname a = py_lower ?h"
    using 1 2 hc(2) by (simp add: hostname_def Let_def after_last_none [OF at] py_partition_def [of "''%''"]
        break_at_none)
  then show ?thesis using hc(3) by simp
next
  case False
  obtain host sep port where part: "py_partition '':'' a = (host, sep, port)"
    by (metis prod_cases3)
  have h: "plain_host host" and p: "sep = [] \<or> valid_port port = Inr True"
    using assms False part by (auto simp: valid_authority_def bind_result_Inr_iff split: if_splits)
  have "a = host \<or> a = host @ '':'' @ port \<and> sep = '':''"
    using part by (auto simp: py_partition_def dest: break_at_append split: option.splits)
  then obtain tail where a: "a = host @ tail" and t: "tail = [] \<or> hd tail = CHR '':''"
    and d: "tail = [] \<or> list_all is_decimal (tl tail)"
    using p by (auto dest!: valid_port_True)
  have "CHR ''@'' \<notin> set tail \<and> CHR ''['' \<notin> set tail"
    using t d port_chars [of "tl tail"] by (cases tail) auto
  then have "hostname a = py_lower host"
    using plain_host_chars [OF h] a t by (intro hostname_no_userinfo) auto
  then show ?thesis using plain_host_chars [OF h] by simp
qed

section \<open>The pages of the configured server\<close>

lemma server_url_parts:
  assumes "server_url_ok u"
  obtains scheme auth tail where "scheme \<in> {''http'', ''https''}" and "u = scheme @ ''://'' @ auth @ tail"
    and "list_all netloc_char auth" and "ends_authority tail" and "valid_authority auth = Inr True"
    and "last u \<noteq> CHR ''/''"
proof -
  from assms obtain scheme rest where s: "scheme \<in> {''http'', ''https''}"
    and u: "u = scheme @ ''://'' @ rest" and r: "rest \<noteq> []" "last rest \<noteq> CHR ''/''"
    and v: "valid_authority (takeWhile (\<lambda>c. c \<noteq> CHR ''/'') rest) = Inr True"
    unfolding server_url_ok_def by blast
  let ?a = "takeWhile (\<lambda>c. c \<noteq> CHR ''/'') rest" and ?t = "dropWhile (\<lambda>c. c \<noteq> CHR ''/'') rest"
  have "list_all netloc_char ?a"
    using valid_authority_chars [OF v] authority_netloc by (auto simp: list_all_iff)
  moreover have "ends_authority ?t"
    using hd_dropWhile [of "\<lambda>c. c \<noteq> CHR ''/''" rest] by (auto simp: ends_authority_def)
  moreover have "u = scheme @ ''://'' @ ?a @ ?t" using u by simp
  moreover have "last u \<noteq> CHR ''/''" using r u by simp
  ultimately show ?thesis using that s v by blast
qed

lemma urlparse_view_url:
  assumes "server_url_ok u"
  shows "urlparse (view_url u i) = urlparse u"
    and "urlparse u = Inr (s, n) \<Longrightarrow> hostname n \<noteq> []"
proof -
  obtain scheme auth tail where p: "scheme \<in> {''http'', ''https''}" "u = scheme @ ''://'' @ auth @ tail"
    "list_all netloc_char auth" "ends_authority tail" "valid_authority auth = Inr True" "last u \<noteq> CHR ''/''"
    using assms by (rule server_url_parts)
  have "view_url u i = scheme @ ''://'' @ auth @ tail @ ''/view/'' @ i"
    using p(2,6) by (simp add: view_url_def rstrip_by_id)
  moreover have "ends_authority (tail @ ''/view/'' @ i)"
    using p(4) by (cases tail) (auto simp: ends_authority_def)
  ultimately have "urlparse (view_url u i) = check_netloc scheme auth"
    using urlparse_http [OF p(1,3)] by simp
  moreover have u: "urlparse u = check_netloc scheme auth"
    using urlparse_http [OF p(1,3,4)] p(2) by simp
  ultimately show "urlparse (view_url u i) = urlparse u" by simp
  show "hostname n \<noteq> []" if "urlparse u = Inr (s, n)"
    using that u check_netloc_Inr [of scheme auth "(s, n)"] hostname_authority [OF p(5)] by simp
qed

lemma allow_grows: "allow url al = Inr al' \<Longrightarrow> al_hosts al \<subseteq> al_hosts al' \<and> (al_any al \<longrightarrow> al_any al')"
  by (auto simp: allow_def bind_result_Inr_iff Let_def split: if_splits)

lemma allow_all_grows:
  "allow_all urls al = Inr al' \<Longrightarrow> al_hosts al \<subseteq> al_hosts al' \<and> (al_any al \<longrightarrow> al_any al')"
  by (induction urls arbitrary: al) (fastforce simp: bind_result_Inr_iff dest: allow_grows)+

lemma server_url_double_slash: "server_url_ok u \<Longrightarrow> py_contains ''//'' u \<and> py_strip u \<noteq> WILDCARD"
proof -
  assume "server_url_ok u"
  then obtain scheme auth tail where p: "scheme \<in> {''http'', ''https''}" "u = scheme @ ''://'' @ auth @ tail"
    by (rule server_url_parts)
  have "u = (scheme @ '':'') @ ''//'' @ (auth @ tail)" using p(2) by simp
  then have "sublist ''//'' u" unfolding sublist_def by blast
  moreover have "prefix ''h'' (py_strip (''h'' @ tl u))"
    by (rule strip_keeps_prefix) (auto simp: is_space_def)
  then have "py_strip u \<noteq> WILDCARD"
    using p by (auto simp: WILDCARD_def prefix_def)
  ultimately show ?thesis by (simp add: py_contains_iff)
qed

section \<open>Properties\<close>

text \<open>C20. The pages of the configured server are always reachable. For every server address that
  normalisation accepts, once the allowlist could be built from it and any further entries,
  the page of every dashboard id is permitted, whatever text the id is, so a dashboard the
  server lists is never blocked by the policy.\<close>

theorem own_pages_permitted:
  assumes "normalise_server_url raw = Inr u" and "u \<noteq> []"
    and "host_allowlist (u # others) = Inr al"
  shows "decide_policy al NAVIGATION_ACTION (view_url u dashboard_id) = Inr (False, False)"
proof -
  have ok: "server_url_ok u" using assms(1,2) by (rule normalise_ok)
  obtain al1 where 1: "allow u \<lparr>al_hosts = {}, al_any = False\<rparr> = Inr al1"
    and 2: "allow_all others al1 = Inr al"
    using assms(3) by (auto simp: host_allowlist_def bind_result_Inr_iff)
  obtain sc n where u: "urlparse u = Inr (sc, n)"
    using 1 server_url_double_slash [OF ok] by (auto simp: allow_def bind_result_Inr_iff)
  have h: "hostname n \<noteq> []" by (rule urlparse_view_url(2) [OF ok u])
  have "py_lower (hostname n) \<in> al_hosts al1"
    using 1 u h server_url_double_slash [OF ok] by (auto simp: allow_def bind_result_Inr_iff)
  then have "py_lower (hostname n) \<in> al_hosts al"
    using allow_all_grows [OF 2] by blast
  then have "permits al (view_url u dashboard_id) = Inr True"
    using u h by (auto simp: permits_def Let_def urlparse_view_url(1) [OF ok])
  then show ?thesis by (simp add: decide_policy_def)
qed

lemma own_pages_permitted_witness:
  "\<exists>al. host_allowlist [''https://Vt.example:8443'', ''maps.example''] = Inr al \<and> \<not> al_any al \<and>
     decide_policy al NAVIGATION_ACTION ''https://Vt.example:8443/view/x?y'' = Inr (False, False)"
proof -
  let ?al = "\<lparr>al_hosts = {''maps.example'', ''vt.example''}, al_any = False\<rparr>"
  have n: "normalise_server_url ''https://Vt.example:8443/'' = Inr ''https://Vt.example:8443''"
    by code_simp
  have a: "host_allowlist [''https://Vt.example:8443'', ''maps.example''] = Inr ?al"
    by code_simp
  have v: "view_url ''https://Vt.example:8443'' ''x?y'' = ''https://Vt.example:8443/view/x?y''"
    by code_simp
  show ?thesis
    using own_pages_permitted [OF n _ a, of "''x?y''"] a unfolding v by simp
qed



text \<open>An address can pass normalisation and still stop the client: the authority check only
  looks at the characters between the brackets, while building the allowlist parses the
  address and raises ValueError for a bracketed host that is no IPv6 address.\<close>

theorem accepted_address_without_allowlist:
  "normalise_server_url ''http://[::::]'' = Inr ''http://[::::]'' \<and>
   host_allowlist (''http://[::::]'' # others) = Inl (ValueError InvalidUrl)"
proof -
  have "normalise_server_url ''http://[::::]'' = Inr ''http://[::::]''" by code_simp
  moreover have "allow ''http://[::::]'' \<lparr>al_hosts = {}, al_any = False\<rparr> = Inl (ValueError InvalidUrl)"
    by code_simp
  ultimately show ?thesis by (simp add: host_allowlist_def)
qed

end
