(* ===== verification/Keymap.thy ===== *)
theory Keymap
  imports Py_Str
begin

text \<open>
  \<open>actions.py\<close> and \<open>cec/keymap.py\<close>: the actions of the kiosk and how the codes of a TV remote
  and the names of keyboard keys resolve to them. Both resolvers share one contract, the
  locale \<open>key_source\<close>: the digit keys give the digits, and no digit outside 0 to 9 ever
  reaches the window.
\<close>

section \<open>Actions\<close>

datatype action =
    MENU_TOGGLE
  | MENU_CLOSE
  | MENU_UP
  | MENU_DOWN
  | MENU_ACTIVATE
  | DASHBOARD_NEXT
  | DASHBOARD_PREV
  | DASHBOARD_RELOAD
  | DASHBOARD_HOME
  | ROTATE_TOGGLE
  | INFO_TOGGLE
  | BLANK_ON
  | BLANK_OFF

text \<open>What a key resolves to: an action, or a digit action, which is no member of the enum.\<close>

datatype key_action = Act action | DigitAction int

text \<open>\<open>DigitAction.__init__\<close> refuses a digit out of range.\<close>

definition digit_action :: "int \<Rightarrow> key_action result" where
  "digit_action digit =
     (if 0 \<le> digit \<and> digit \<le> 9 then Inr (DigitAction digit) else Inl (ValueError DigitOutOfRange))"

section \<open>The remote\<close>

definition UI_NUMBER_0 :: int where "UI_NUMBER_0 = 0x20"

definition UI_NUMBER_9 :: int where "UI_NUMBER_9 = 0x29"

definition KEYMAP :: "(int \<times> action) list" where
  "KEYMAP =
     [(0x00, MENU_ACTIVATE),     \<comment> \<open>UI_SELECT\<close>
      (0x2B, MENU_ACTIVATE),     \<comment> \<open>UI_ENTER\<close>
      (0x01, MENU_UP),           \<comment> \<open>UI_UP\<close>
      (0x02, MENU_DOWN),         \<comment> \<open>UI_DOWN\<close>
      (0x37, MENU_UP),           \<comment> \<open>UI_PAGE_UP\<close>
      (0x38, MENU_DOWN),         \<comment> \<open>UI_PAGE_DOWN\<close>
      (0x03, DASHBOARD_PREV),    \<comment> \<open>UI_LEFT\<close>
      (0x04, DASHBOARD_NEXT),    \<comment> \<open>UI_RIGHT\<close>
      (0x31, DASHBOARD_PREV),    \<comment> \<open>UI_CHANNEL_DOWN\<close>
      (0x30, DASHBOARD_NEXT),    \<comment> \<open>UI_CHANNEL_UP\<close>
      (0x4C, DASHBOARD_PREV),    \<comment> \<open>UI_BACKWARD\<close>
      (0x4B, DASHBOARD_NEXT),    \<comment> \<open>UI_FORWARD\<close>
      (0x48, DASHBOARD_PREV),    \<comment> \<open>UI_REWIND\<close>
      (0x49, DASHBOARD_NEXT),    \<comment> \<open>UI_FAST_FORWARD\<close>
      (0x0D, MENU_CLOSE),        \<comment> \<open>UI_EXIT\<close>
      (0x09, MENU_TOGGLE),       \<comment> \<open>UI_ROOT_MENU\<close>
      (0x0A, MENU_TOGGLE),       \<comment> \<open>UI_SETUP_MENU\<close>
      (0x0B, MENU_TOGGLE),       \<comment> \<open>UI_CONTENTS_MENU\<close>
      (0x0C, MENU_TOGGLE),       \<comment> \<open>UI_FAVORITE_MENU\<close>
      (0x72, MENU_TOGGLE),       \<comment> \<open>UI_RED\<close>
      (0x73, DASHBOARD_RELOAD),  \<comment> \<open>UI_GREEN\<close>
      (0x74, ROTATE_TOGGLE),     \<comment> \<open>UI_YELLOW\<close>
      (0x71, INFO_TOGGLE),       \<comment> \<open>UI_BLUE\<close>
      (0x44, ROTATE_TOGGLE),     \<comment> \<open>UI_PLAY\<close>
      (0x46, ROTATE_TOGGLE),     \<comment> \<open>UI_PAUSE\<close>
      (0x45, DASHBOARD_HOME),    \<comment> \<open>UI_STOP\<close>
      (0x35, INFO_TOGGLE),       \<comment> \<open>UI_DISPLAY_INFORMATION\<close>
      (0x32, DASHBOARD_HOME),    \<comment> \<open>UI_PREVIOUS_CHANNEL\<close>
      (0x6C, BLANK_ON),          \<comment> \<open>UI_POWER_OFF\<close>
      (0x6D, BLANK_OFF)]         \<comment> \<open>UI_POWER_ON\<close>"

definition action_for :: "int \<Rightarrow> key_action option result" where
  "action_for key_code =
     (if UI_NUMBER_0 \<le> key_code \<and> key_code \<le> UI_NUMBER_9
      then bind_result (digit_action (key_code - UI_NUMBER_0)) (\<lambda>a. Inr (Some a))
      else Inr (map_option Act (map_of KEYMAP key_code)))"

section \<open>The keyboard\<close>

definition KEYBOARD_MAP :: "(string \<times> action) list" where
  "KEYBOARD_MAP =
     [(''Up'', MENU_UP), (''Down'', MENU_DOWN), (''Left'', DASHBOARD_PREV),
      (''Right'', DASHBOARD_NEXT), (''Return'', MENU_ACTIVATE), (''KP_Enter'', MENU_ACTIVATE),
      (''space'', MENU_ACTIVATE), (''Escape'', MENU_CLOSE), (''BackSpace'', MENU_CLOSE),
      (''m'', MENU_TOGGLE), (''Menu'', MENU_TOGGLE), (''r'', DASHBOARD_RELOAD),
      (''F5'', DASHBOARD_RELOAD), (''h'', DASHBOARD_HOME), (''i'', INFO_TOGGLE),
      (''p'', ROTATE_TOGGLE)]"

definition action_for_key_name :: "string \<Rightarrow> key_action option result" where
  "action_for_key_name name =
     (if length name = 1 \<and> py_isdigit name
      then bind_result (py_int name) (\<lambda>n. bind_result (digit_action n) (\<lambda>a. Inr (Some a)))
      else if starts_with ''KP_'' name \<and> py_isdigit (drop 3 name)
      then bind_result (py_int (drop 3 name)) (\<lambda>n. bind_result (digit_action n) (\<lambda>a. Inr (Some a)))
      else Inr (map_option Act (map_of KEYBOARD_MAP name)))"

section \<open>The contract of a key source\<close>

locale key_source =
  fixes resolve :: "'k \<Rightarrow> key_action option result"
    and digit_key :: "int \<Rightarrow> 'k"
  assumes digit: "0 \<le> n \<Longrightarrow> n \<le> 9 \<Longrightarrow> resolve (digit_key n) = Inr (Some (DigitAction n))"
    and range: "resolve k = Inr (Some (DigitAction n)) \<Longrightarrow> 0 \<le> n \<and> n \<le> 9"
begin

lemma digit_keys_differ:
  assumes "0 \<le> m" "m \<le> 9" "0 \<le> n" "n \<le> 9" and "digit_key m = digit_key n"
  shows "m = n"
proof -
  have "resolve (digit_key m) = resolve (digit_key n)" by (simp only: assms(5))
  then show ?thesis using digit [OF assms(1,2)] digit [OF assms(3,4)] by simp
qed

lemma digit_reachable:
  "resolve k = Inr (Some (DigitAction n)) \<Longrightarrow> resolve (digit_key n) = resolve k"
  using range [of k n] digit [of n] by simp

end

lemma digit_action_Inr: "digit_action n = Inr a \<longleftrightarrow> a = DigitAction n \<and> 0 \<le> n \<and> n \<le> 9"
  by (auto simp: digit_action_def)

interpretation remote: key_source action_for "\<lambda>n. UI_NUMBER_0 + n"
proof unfold_locales
  show "action_for (UI_NUMBER_0 + n) = Inr (Some (DigitAction n))" if "0 \<le> n" "n \<le> 9" for n
    using that by (simp add: action_for_def UI_NUMBER_0_def UI_NUMBER_9_def digit_action_def)
  show "0 \<le> n \<and> n \<le> 9" if "action_for k = Inr (Some (DigitAction n))" for k n
    using that by (auto simp: action_for_def bind_result_Inr_iff digit_action_Inr split: if_splits)
qed

definition digit_name :: "int \<Rightarrow> string" where
  "digit_name n = show_int n"

interpretation keyboard: key_source action_for_key_name digit_name
proof unfold_locales
  fix n :: int
  assume n: "0 \<le> n" "n \<le> 9"
  then have s: "show_int n = [digit_char (nat n)]"
    by (subst show_int_def, subst show_nat.simps) auto
  have d: "is_decimal (digit_char (nat n))" using n by (intro is_decimal_digit_char) simp
  have "int (length (show_int n)) \<le> max_str_digits" by (simp add: s max_str_digits_def)
  then have "py_int [digit_char (nat n)] = Inr n" using py_int_show_int [of n] by (simp add: s)
  then show "action_for_key_name (digit_name n) = Inr (Some (DigitAction n))"
    using n d
    by (simp add: action_for_key_name_def digit_name_def s py_isdigit_def is_digit_char_def digit_action_def)
next
  show "0 \<le> n \<and> n \<le> 9" if "action_for_key_name k = Inr (Some (DigitAction n))" for k n
    using that
    by (auto simp: action_for_key_name_def bind_result_Inr_iff digit_action_Inr split: if_splits)
qed

lemma action_for_total: "\<exists>r. action_for code = Inr r"
  by (auto simp: action_for_def UI_NUMBER_0_def UI_NUMBER_9_def digit_action_def)

section \<open>The examples of the test suite\<close>

lemma keymap_examples:
  "action_for 0x29 = Inr (Some (DigitAction 9))"
  "action_for 0x2A = Inr None"
  "action_for_key_name ''KP_7'' = Inr (Some (DigitAction 7))"
  "action_for_key_name ''KP_Enter'' = Inr (Some (Act MENU_ACTIVATE))"
  "action_for_key_name ''F1'' = Inr None"
  by code_simp+

section \<open>Properties\<close>

text \<open>Resolving a remote's key never raises, the digit keys give their digits, and a digit
  that reaches the window is between 0 and 9, from the remote and from the keyboard alike.\<close>

theorem digits_in_range:
  assumes "action_for code = Inr (Some (DigitAction m)) \<or> action_for_key_name name = Inr (Some (DigitAction m))"
  shows "0 \<le> m \<and> m \<le> 9 \<and> action_for (0x20 + m) = Inr (Some (DigitAction m)) \<and>
    action_for_key_name (show_int m) = Inr (Some (DigitAction m)) \<and>
    (\<exists>r. action_for any_code = Inr r)"
proof -
  have m: "0 \<le> m \<and> m \<le> 9" using assms remote.range keyboard.range by blast
  then show ?thesis
    using remote.digit [of m] keyboard.digit [of m] action_for_total [of any_code] by (simp add: UI_NUMBER_0_def digit_name_def)
qed

lemma digits_in_range_witness:
  "action_for 0x25 = Inr (Some (DigitAction 5)) \<and> action_for_key_name (show_int 5) = Inr (Some (DigitAction 5))"
proof -
  have a: "action_for 0x25 = Inr (Some (DigitAction 5))" by code_simp
  then show ?thesis using digits_in_range [of "0x25" 5 "[]"] by simp
qed

text \<open>Everything the keyboard can do, the remote can do: whatever a key name resolves to,
  some remote code resolves to the same. The remote alone can blank and wake the screen.\<close>

theorem remote_covers_keyboard:
  assumes "action_for_key_name name = Inr (Some a)"
  shows "(\<exists>code. action_for code = Inr (Some a)) \<and> a \<noteq> Act BLANK_ON \<and> a \<noteq> Act BLANK_OFF"
proof (cases a)
  case (DigitAction n)
  then show ?thesis
    using assms keyboard.range [of name n] remote.digit [of n] by auto
next
  case (Act x)
  then have "map_of KEYBOARD_MAP name = Some x"
    using assms by (auto simp: action_for_key_name_def bind_result_Inr_iff digit_action_Inr split: if_splits)
  then have "x \<in> snd ` set KEYBOARD_MAP" by (force dest: map_of_SomeD)
  then have "x \<noteq> BLANK_ON \<and> x \<noteq> BLANK_OFF \<and> x \<in> snd ` set KEYMAP"
    by (auto simp: KEYBOARD_MAP_def KEYMAP_def)
  moreover have "\<forall>(code, y) \<in> set KEYMAP. action_for code = Inr (Some (Act y))"
    by code_simp
  ultimately show ?thesis using Act by fastforce
qed

lemma remote_covers_keyboard_witness: "\<exists>code. action_for code = Inr (Some (Act ROTATE_TOGGLE))"
proof -
  have "action_for_key_name ''p'' = Inr (Some (Act ROTATE_TOGGLE))" by code_simp
  then show ?thesis using remote_covers_keyboard by blast
qed

end
