(* ===== verification/Discovery.thy ===== *)
theory Discovery
  imports Server_Url
begin

text \<open>
  \<open>discovery.py\<close>: the server address from DHCP option 225. A lease directory is what the code
  sees of it (missing, not listable, or its entries by name), a lease file is unreadable or a
  text. Text and hex payloads are decoded as the code does, with the strict UTF-8 decoder
  written out; a payload that decodes to code points from 256 on is at the edge of the model
  (\<open>OutsideAlphabet\<close>). The lemmas say that the first matching line of the first
  readable lease decides, that what is found is a well-formed address, and that a hex
  payload means the same as its text.
\<close>

section \<open>Decoding\<close>

definition hex_value :: "char \<Rightarrow> int" where
  "hex_value c =
     (if is_decimal c then cp c - 48 else if 97 \<le> cp c then cp c - 87 else cp c - 55)"

text \<open>\<open>bytes.fromhex\<close> on a text of an even number of hex digits.\<close>

fun from_hex :: "string \<Rightarrow> int list" where
  "from_hex (a # b # cs) = (16 * hex_value a + hex_value b) # from_hex cs"
| "from_hex cs = []"

definition utf8_cont :: "int \<Rightarrow> bool" where
  "utf8_cont b \<longleftrightarrow> 128 \<le> b \<and> b \<le> 191"

text \<open>The strict UTF-8 decoder: no overlong forms, no surrogates, nothing above U+10FFFF.\<close>

fun utf8_decode :: "int list \<Rightarrow> int list option" where
  "utf8_decode [] = Some []"
| "utf8_decode (b # bs) =
     (if b < 128 then map_option ((#) b) (utf8_decode bs)
      else if 194 \<le> b \<and> b \<le> 223 then
        (case bs of
           c # cs \<Rightarrow>
             if utf8_cont c
             then map_option ((#) ((b - 192) * 64 + (c - 128))) (utf8_decode cs)
             else None
         | _ \<Rightarrow> None)
      else if 224 \<le> b \<and> b \<le> 239 then
        (case bs of
           c # d # ds \<Rightarrow>
             if utf8_cont c \<and> utf8_cont d \<and> (b = 224 \<longrightarrow> 160 \<le> c) \<and> (b = 237 \<longrightarrow> c \<le> 159)
             then map_option ((#) ((b - 224) * 4096 + (c - 128) * 64 + (d - 128))) (utf8_decode ds)
             else None
         | _ \<Rightarrow> None)
      else if 240 \<le> b \<and> b \<le> 244 then
        (case bs of
           c # d # e # es \<Rightarrow>
             if utf8_cont c \<and> utf8_cont d \<and> utf8_cont e \<and> (b = 240 \<longrightarrow> 144 \<le> c) \<and>
               (b = 244 \<longrightarrow> c \<le> 143)
             then map_option
               ((#) ((b - 240) * 262144 + (c - 128) * 4096 + (d - 128) * 64 + (e - 128)))
               (utf8_decode es)
             else None
         | _ \<Rightarrow> None)
      else None)"

definition decode_value :: "string \<Rightarrow> string result" where
  "decode_value value =
     (let text = strip_by (\<lambda>c. c = CHR 0x22) (py_strip value) in
      if text = [] then Inr []
      else
        (let compact = remove_char (CHR '' '') (remove_char (CHR '':'') text) in
         if 4 \<le> length compact \<and> length compact mod 2 = 0 \<and> list_all is_hex_char compact then
           (case utf8_decode (from_hex compact) of
              None \<Rightarrow> Inr text
            | Some cps \<Rightarrow>
                if list_all (\<lambda>n. n < 256) cps then
                  (let decoded = py_strip (strip_by (\<lambda>c. cp c = 0) (map char_of cps)) in
                   if decoded \<noteq> [] \<and> list_all is_printable_char decoded then Inr decoded
                   else Inr text)
                else Inl OutsideAlphabet)
         else Inr text))"

definition parse_option :: "string \<Rightarrow> string result" where
  "parse_option value =
     bind_result (decode_value value) (\<lambda>text.
       if text = [] then Inr [] else normalise_server_url text)"

section \<open>Leases\<close>

datatype lease_entry =
    NotAFile
  | UnreadableLease
  | LeaseText string

datatype lease_dir =
    NoDirectory
  | UnlistableDirectory
  | Directory "(string \<times> lease_entry) list"

text \<open>\<open>_lease_files\<close>: the files of each directory, sorted by name.\<close>

fun lease_files :: "lease_dir list \<Rightarrow> lease_entry list" where
  "lease_files [] = []"
| "lease_files (d # ds) =
     (case d of
        Directory entries \<Rightarrow> map snd (filter (\<lambda>(_, e). e \<noteq> NotAFile) (sort_key fst entries))
      | _ \<Rightarrow> []) @ lease_files ds"

datatype lease_detail =
    NoLeaseFound
  | FoundUrl string
  | UnusableValue string
  | LeaseUnreadable
  | NotOffered

record discovery =
  disc_url :: string
  disc_detail :: lease_detail

text \<open>The three patterns, tried in order on a line without surrounding white space.\<close>

definition key_patterns :: "string list" where
  "key_patterns = [''OPTION_225='', ''PRIVATE_225='', ''VENDOR_OPTION_225='']"

fun match_patterns :: "string list \<Rightarrow> string \<Rightarrow> string option" where
  "match_patterns [] line = None"
| "match_patterns (p # ps) line =
     (if starts_with p line then Some (drop (length p) line) else match_patterns ps line)"

fun scan_lines :: "string list \<Rightarrow> discovery result option" where
  "scan_lines [] = None"
| "scan_lines (line # lines) =
     (case match_patterns key_patterns (py_strip line) of
        None \<Rightarrow> scan_lines lines
      | Some value \<Rightarrow>
          Some (bind_result (parse_option value) (\<lambda>url.
            if url \<noteq> [] then Inr \<lparr>disc_url = url, disc_detail = FoundUrl url\<rparr>
            else Inr \<lparr>disc_url = [], disc_detail = UnusableValue value\<rparr>)))"

fun scan_leases :: "nat \<Rightarrow> lease_entry list \<Rightarrow> discovery result" where
  "scan_leases unreadable [] =
     Inr \<lparr>disc_url = [], disc_detail = (if unreadable > 0 then LeaseUnreadable else NotOffered)\<rparr>"
| "scan_leases unreadable (lease # leases) =
     (case lease of
        LeaseText content \<Rightarrow>
          (case scan_lines (py_splitlines content) of
             Some r \<Rightarrow> r
           | None \<Rightarrow> scan_leases unreadable leases)
      | _ \<Rightarrow> scan_leases (unreadable + 1) leases)"

definition describe :: "lease_dir list \<Rightarrow> discovery result" where
  "describe dirs =
     (let leases = lease_files dirs in
      if leases = [] then Inr \<lparr>disc_url = [], disc_detail = NoLeaseFound\<rparr>
      else scan_leases 0 leases)"

definition discover_server_url :: "lease_dir list \<Rightarrow> string result" where
  "discover_server_url dirs = bind_result (describe dirs) (\<lambda>d. Inr (disc_url d))"

section \<open>The first option decides\<close>

fun first_some :: "('a \<Rightarrow> 'b option) \<Rightarrow> 'a list \<Rightarrow> 'b option" where
  "first_some f [] = None"
| "first_some f (x # xs) = (case f x of Some y \<Rightarrow> Some y | None \<Rightarrow> first_some f xs)"

lemma first_some_append:
  "first_some f (xs @ ys) = (case first_some f xs of Some y \<Rightarrow> Some y | None \<Rightarrow> first_some f ys)"
  by (induction xs) (auto split: option.splits)

text \<open>The lines of the readable leases, in the order they are read.\<close>

definition entry_lines :: "lease_entry \<Rightarrow> string list" where
  "entry_lines l = (case l of LeaseText c \<Rightarrow> py_splitlines c | _ \<Rightarrow> [])"

definition lease_lines :: "lease_dir list \<Rightarrow> string list" where
  "lease_lines dirs = concat (map entry_lines (lease_files dirs))"

definition option_value :: "string \<Rightarrow> string option" where
  "option_value line = match_patterns key_patterns (py_strip line)"

definition first_option :: "lease_dir list \<Rightarrow> string option" where
  "first_option dirs = first_some option_value (lease_lines dirs)"

definition described :: "string \<Rightarrow> discovery result" where
  "described value =
     bind_result (parse_option value) (\<lambda>url.
       Inr \<lparr>disc_url = url, disc_detail = (if url \<noteq> [] then FoundUrl url else UnusableValue value)\<rparr>)"

lemma scan_lines_first: "scan_lines ls = map_option described (first_some option_value ls)"
  by (induction ls)
    (auto simp: option_value_def described_def bind_result_def split: option.splits sum.splits)

lemma scan_leases_first:
  "scan_leases n ls =
     (case first_some option_value (concat (map entry_lines ls)) of
        Some v \<Rightarrow> described v
      | None \<Rightarrow> Inr \<lparr>disc_url = [], disc_detail =
           (if n > 0 \<or> \<not> list_all (\<lambda>l. \<exists>c. l = LeaseText c) ls then LeaseUnreadable
            else NotOffered)\<rparr>)"
proof (induction ls arbitrary: n)
  case Nil
  then show ?case by simp
next
  case (Cons l ls)
  show ?case
  proof (cases l)
    case (LeaseText c)
    then show ?thesis
      using Cons.IH [of n]
      by (cases "first_some option_value (py_splitlines c)")
        (simp_all add: entry_lines_def scan_lines_first first_some_append)
  qed (use Cons.IH [of "n + 1"] in \<open>simp_all add: entry_lines_def split: option.split\<close>)
qed

lemma lease_files_are_files: "NotAFile \<notin> set (lease_files dirs)"
  by (induction dirs rule: lease_files.induct) (auto split: lease_dir.splits)

lemma lease_files_readable:
  "list_all (\<lambda>l. \<exists>c. l = LeaseText c) (lease_files dirs) \<longleftrightarrow>
     UnreadableLease \<notin> set (lease_files dirs)"
  using lease_files_are_files [of dirs] lease_entry.exhaust
  by (auto simp: list_all_iff) metis

section \<open>Hex payloads\<close>

text \<open>The lower-case hex rendering of a text's bytes.\<close>

definition to_hex :: "string \<Rightarrow> string" where
  "to_hex s = concat (map (\<lambda>c. show_hex2 (nat (cp c))) s)"

lemma hex_digit_char:
  "n < 16 \<Longrightarrow> is_hex_char (hex_digit n) \<and> hex_value (hex_digit n) = int n \<and>
     hex_digit n \<noteq> CHR '':'' \<and> hex_digit n \<noteq> CHR '' '' \<and> hex_digit n \<noteq> CHR 0x22 \<and>
     \<not> is_space (hex_digit n)"
proof -
  assume n: "n < 16"
  show ?thesis
  proof (cases "n < 10")
    case True
    then show ?thesis
      by (auto simp: hex_digit_def hex_value_def char_class_defs cp_char_of simp flip: cp_inject)
        (simp_all add: cp_def)
  next
    case False
    then show ?thesis using n
      by (auto simp: hex_digit_def hex_value_def char_class_defs cp_char_of simp flip: cp_inject)
        (simp_all add: cp_def)
  qed
qed

lemma show_hex2_digits:
  "0 \<le> n \<Longrightarrow> n < 256 \<Longrightarrow> from_hex (show_hex2 (nat n) @ cs) = n # from_hex cs"
proof -
  assume n: "0 \<le> n" "n < 256"
  then obtain k where k: "n = int k" and lt: "k < 256"
    by (metis nat_0_le nat_less_numeral_power_cancel_iff of_nat_less_numeral_iff)
  have "k div 16 mod 16 = k div 16" using lt by simp
  moreover have "16 * int (k div 16) + int (k mod 16) = int k"
    by (metis mult_div_mod_eq of_nat_add of_nat_mult of_nat_numeral)
  moreover have "hex_value (hex_digit (k div 16 mod 16)) = int (k div 16 mod 16)"
    and "hex_value (hex_digit (k mod 16)) = int (k mod 16)"
    using hex_digit_char by simp_all
  ultimately show ?thesis
    by (simp add: show_hex2_def k)
qed

lemma from_hex_to_hex: "from_hex (to_hex s) = map cp s"
  by (induction s) (simp_all add: to_hex_def show_hex2_digits)

lemma to_hex_chars:
  "list_all (\<lambda>c. is_hex_char c \<and> c \<noteq> CHR '':'' \<and> c \<noteq> CHR '' '' \<and> c \<noteq> CHR 0x22 \<and>
     \<not> is_space c) (to_hex s)"
  by (induction s) (simp_all add: to_hex_def show_hex2_def hex_digit_char)

lemma length_to_hex: "length (to_hex s) = 2 * length s"
  by (induction s) (simp_all add: to_hex_def show_hex2_def)

lemma utf8_decode_ascii: "list_all (\<lambda>b. b < 128) bs \<Longrightarrow> utf8_decode bs = Some bs"
  by (induction bs) auto

lemma strip_by_none: "list_all (\<lambda>c. \<not> p c) s \<Longrightarrow> strip_by p s = s"
  by (rule strip_by_id) (cases "s = []"; simp add: list_all_iff)

lemma decode_to_hex:
  assumes s: "list_all (\<lambda>c. 32 \<le> cp c \<and> cp c \<le> 126) s" and len: "2 \<le> length s"
    and strip: "py_strip s = s"
  shows "decode_value (to_hex s) = Inr s"
proof -
  let ?h = "to_hex s"
  have ne: "?h \<noteq> []" "s \<noteq> []" using len length_to_hex [of s] by auto
  have "py_strip ?h = ?h"
    using to_hex_chars [of s] unfolding py_strip_def by (intro strip_by_none) (simp add: list_all_iff)
  moreover have "strip_by (\<lambda>c. c = CHR 0x22) ?h = ?h"
    using to_hex_chars [of s] by (intro strip_by_none) (simp add: list_all_iff)
  moreover have "remove_char (CHR '' '') (remove_char (CHR '':'') ?h) = ?h"
    using to_hex_chars [of s] by (auto simp: remove_char_def list_all_iff intro!: filter_True)
  moreover have "utf8_decode (from_hex ?h) = Some (map cp s)"
    using s by (subst from_hex_to_hex, intro utf8_decode_ascii) (fastforce simp: list_all_iff)
  moreover have "strip_by (\<lambda>c. cp c = 0) s = s"
    using s by (intro strip_by_none) (auto simp: list_all_iff)
  moreover have "list_all is_printable_char s"
    using s by (auto simp: list_all_iff is_printable_char_def)
  moreover have "list_all is_hex_char ?h"
    using to_hex_chars [of s] by (simp add: list_all_iff)
  ultimately show ?thesis
    using len ne strip by (simp add: decode_value_def Let_def length_to_hex list_all_iff comp_def)
qed

section \<open>What is found\<close>

lemma describe_value:
  "describe dirs =
     (case first_option dirs of
        Some v \<Rightarrow> described v
      | None \<Rightarrow>
          Inr \<lparr>disc_url = [],
               disc_detail =
                 (if lease_files dirs = [] then NoLeaseFound
                  else if UnreadableLease \<in> set (lease_files dirs) then LeaseUnreadable
                  else NotOffered)\<rparr>)"
  by (simp add: describe_def Let_def scan_leases_first first_option_def
      lease_lines_def lease_files_readable split: option.split)

lemma parse_option_ok: "parse_option v = Inr u \<Longrightarrow> u = [] \<or> server_url_ok u"
  using normalise_ok by (fastforce simp: parse_option_def bind_result_Inr_iff split: if_splits)

lemma decode_value_error: "decode_value v = Inl e \<Longrightarrow> e = OutsideAlphabet"
  by (auto simp: decode_value_def Let_def split: if_splits option.splits)

lemma parse_option_error: "parse_option v = Inl e \<Longrightarrow> e = ValueError NotAnInt \<or> e = OutsideAlphabet"
  by (auto simp: parse_option_def bind_result_Inl_iff simp: normalise_raises dest: decode_value_error
      split: if_splits)

lemma described_Inr: "described v = Inr d \<longleftrightarrow> (\<exists>u. parse_option v = Inr u \<and>
    d = \<lparr>disc_url = u, disc_detail = (if u \<noteq> [] then FoundUrl u else UnusableValue v)\<rparr>)"
  by (auto simp: described_def bind_result_Inr_iff)

lemma described_Inl: "described v = Inl e \<longleftrightarrow> parse_option v = Inl e"
  by (auto simp: described_def bind_result_Inl_iff)

section \<open>The examples of the test suite\<close>

lemma parse_option_examples:
  "parse_option ''10.0.0.5:3000'' = Inr ''http://10.0.0.5:3000''"
  "parse_option ([CHR 0x22] @ ''https://vt.example'' @ [CHR 0x22]) = Inr ''https://vt.example''"
  "parse_option ''31:30:2e:30:2e:30:2e:35'' = Inr ''http://10.0.0.5''"
  "parse_option '';;;'' = Inr []"
  "parse_option (''10.0.0.5:'' @ [CHR 0xB2]) = Inl (ValueError NotAnInt)"
  by code_simp+

section \<open>Properties\<close>

text \<open>C30. The outcome of discovery is decided by the first line, in the order of directories,
  file names and lines, that carries the option under one of its three names: later lines and
  leases are never looked at. Without such a line the detail says whether there was no lease
  at all, some lease that could not be read, or no offer.\<close>

theorem describe_first_option:
  "describe dirs =
     (case first_option dirs of
        Some value \<Rightarrow>
          bind_result (parse_option value) (\<lambda>url.
            Inr \<lparr>disc_url = url,
                 disc_detail = (if url \<noteq> [] then FoundUrl url else UnusableValue value)\<rparr>)
      | None \<Rightarrow>
          Inr \<lparr>disc_url = [],
               disc_detail =
                 (if lease_files dirs = [] then NoLeaseFound
                  else if UnreadableLease \<in> set (lease_files dirs) then LeaseUnreadable
                  else NotOffered)\<rparr>)"
  unfolding describe_value described_def by (rule refl)

text \<open>Whatever the leases hold, an address that discovery returns is well formed: http or
  https, and an authority that passed the check. Where discovery raises instead (its docstring
  says it never does), the exception is the ValueError of a port such as a superscript, or the
  payload is outside the modelled alphabet.\<close>

theorem discover_well_formed:
  "case discover_server_url dirs of
     Inr u \<Rightarrow> u = [] \<or> server_url_ok u
   | Inl e \<Rightarrow> e = ValueError NotAnInt \<or> e = OutsideAlphabet"
proof (cases "discover_server_url dirs")
  case (Inr u)
  then have "u = [] \<or> (\<exists>v. parse_option v = Inr u)"
    by (auto simp: discover_server_url_def describe_value bind_result_Inr_iff described_Inr split: option.splits)
  then show ?thesis
    using Inr parse_option_ok by auto
next
  case (Inl e)
  then have "\<exists>v. parse_option v = Inl e"
    by (auto simp: discover_server_url_def describe_value bind_result_Inl_iff described_Inl split: option.splits)
  then show ?thesis
    using Inl by (auto dest: parse_option_error)
qed

text \<open>An address sent as hex bytes means the same as the address sent as text: for a
  printable ASCII text of at least two characters without surrounding white space, the hex
  rendering of its bytes is read as the text itself.\<close>

theorem hex_payload_same:
  assumes "list_all (\<lambda>c. 32 \<le> cp c \<and> cp c \<le> 126) s" and "2 \<le> length s" and "py_strip s = s"
  shows "parse_option (to_hex s) = normalise_server_url s"
  using decode_to_hex [OF assms] assms(2) by (auto simp: parse_option_def)

lemma hex_payload_same_witness:
  "parse_option ''31302e302e302e353a33303030'' = Inr ''http://10.0.0.5:3000''"
proof -
  have h: "to_hex ''10.0.0.5:3000'' = ''31302e302e302e353a33303030''"
    and s: "py_strip ''10.0.0.5:3000'' = ''10.0.0.5:3000''"
    and n: "normalise_server_url ''10.0.0.5:3000'' = Inr ''http://10.0.0.5:3000''"
    and a: "list_all (\<lambda>c. 32 \<le> cp c \<and> cp c \<le> 126) ''10.0.0.5:3000''"
    by code_simp+
  show ?thesis using hex_payload_same [OF a _ s] unfolding h n by simp
qed

end
