(* ===== verification/Window.thy ===== *)
theory Window
  imports Menu Policy Keymap Discovery
begin

text \<open>
  \<open>ui/kiosk_window.py\<close> and \<open>ui/setup.py\<close>: the full-screen surface. Its state is what the code
  keeps (the dashboards, the live webviews with the order of their last use, the index shown,
  the loading covers, the pending toast timer, the setup flag) and what of GTK it drives (the
  visible child of the stack, the visibility and text of the overlays). GLib hands out source
  ids; the sources that are pending are kept, since a timer that outlives its toast would
  hide the next one. Widgets, settings of WebKit and colours are left out.
\<close>

section \<open>State\<close>

datatype toast_message =
    ToastNoDashboards
  | ToastReloading string
  | ToastCouldNotLoad string
  | ToastName string
  | ToastTokenRejected
  | ToastUnreachable
  | ToastNoCarousel
  | ToastCarouselOn
  | ToastCarouselPaused

text \<open>The caption of the placeholder; the first is the one shown for an empty message.\<close>

datatype caption =
    WaitingForDashboards
  | WaitingForApproval
  | ApprovedWithoutToken

datatype setup_message =
    TypeTheAddress
  | NotAnAddress
  | SavingUrl string
  | CouldNotSave py_error
  | Registering
  | DidNotAnswer string
  | ApprovedStartingUp
  | RegisteredWaiting

record setup_screen =
  st_message :: setup_message
  st_error :: bool
  st_sensitive :: bool
  st_diagnostic :: "lease_detail option"

definition make_setup :: setup_screen where
  "make_setup =
     \<lparr>st_message = TypeTheAddress, st_error = False, st_sensitive = True, st_diagnostic = None\<rparr>"

text \<open>What DHCP discovery found, or nothing when describing it raised: a diagnostic must never
  block the setup screen.\<close>

definition show_discovery_detail :: "lease_dir list \<Rightarrow> setup_screen \<Rightarrow> setup_screen" where
  "show_discovery_detail dirs s =
     (case describe dirs of Inl _ \<Rightarrow> s | Inr d \<Rightarrow> s\<lparr>st_diagnostic := Some (disc_detail d)\<rparr>)"

definition set_setup_status :: "setup_message \<Rightarrow> bool \<Rightarrow> setup_screen \<Rightarrow> setup_screen" where
  "set_setup_status message err s = s\<lparr>st_message := message, st_error := err\<rparr>"

definition reset_for_retry :: "setup_screen \<Rightarrow> setup_screen" where
  "reset_for_retry s = s\<lparr>st_sensitive := True\<rparr>"

text \<open>The child of the stack that is visible; \<open>StackDefault\<close> is whatever GTK shows after the
  visible child was removed.\<close>

datatype visible_child = Placeholder | SetupChild | ViewChild string | StackDefault

record info_panel =
  info_device :: string
  info_address :: string
  info_server :: string
  info_dashboard :: "(string \<times> int \<times> nat) option"
  info_cec :: string
  info_osd :: string
  info_cec_device :: "string \<times> bool"

record window =
  w_config :: config
  w_dashboards :: "dashboard list"
  w_views :: "(string \<times> string) list"
  w_view_order :: "string list"
  w_current :: int
  w_allowlist :: allowlist
  w_visible :: visible_child
  w_needs_setup :: bool
  w_setup :: setup_screen
  w_caption :: caption
  w_menu :: menu
  w_loading_ids :: "string set"
  w_loading :: bool
  w_toast :: "toast_message option"
  w_toast_visible :: bool
  w_toast_source :: nat
  w_sources :: "nat list"
  w_next_source :: nat
  w_info_visible :: bool
  w_info :: "info_panel option"
  w_cec_status :: string
  w_blanked :: bool
  w_local_ip :: string
  w_cec_present :: bool
  w_on_configured :: bool

text \<open>The entries the allowlist is built from.\<close>

definition allowlist_seed :: "config \<Rightarrow> string list" where
  "allowlist_seed c =
     (if server_url c \<noteq> [] then [server_url c] else []) @
     filter (\<lambda>h. h \<noteq> []) (map py_strip (split_char (CHR '','') (allowed_hosts c)))"

text \<open>\<open>KioskWindow.__init__\<close>; the diagnostic of the setup screen comes from \<open>describe\<close>, any
  exception of which is swallowed.\<close>

definition make_window :: "config \<Rightarrow> lease_dir list \<Rightarrow> window result" where
  "make_window c dirs =
     bind_result (host_allowlist (allowlist_seed c)) (\<lambda>al.
       let needs_setup = (server_url c = []) in
       Inr \<lparr>w_config = c, w_dashboards = [], w_views = [], w_view_order = [], w_current = -1,
            w_allowlist = al,
            w_visible = (if needs_setup then SetupChild else Placeholder),
            w_needs_setup = needs_setup,
            w_setup =
              (if needs_setup \<and> dhcp_discovery c then show_discovery_detail dirs make_setup
               else make_setup),
            w_caption = WaitingForDashboards, w_menu = make_menu, w_loading_ids = {},
            w_loading = False, w_toast = None, w_toast_visible = False, w_toast_source = 0,
            w_sources = [], w_next_source = 1, w_info_visible = False, w_info = None,
            w_cec_status = ''starting'', w_blanked = False, w_local_ip = [],
            w_cec_present = False, w_on_configured = False\<rparr>)"

section \<open>Toasts, captions and the information panel\<close>

definition current_dashboard :: "window \<Rightarrow> dashboard option" where
  "current_dashboard w =
     (if 0 \<le> w_current w \<and> w_current w < int (length (w_dashboards w))
      then Some (w_dashboards w ! nat (w_current w)) else None)"

definition toast :: "toast_message \<Rightarrow> window \<Rightarrow> window" where
  "toast message w =
     (let sources = (if w_toast_source w \<noteq> 0 then remove1 (w_toast_source w) (w_sources w)
                     else w_sources w)
      in w\<lparr>w_toast := Some message, w_toast_visible := True,
           w_sources := sources @ [w_next_source w], w_toast_source := w_next_source w,
           w_next_source := w_next_source w + 1\<rparr>)"

text \<open>A pending source fires: \<open>_hide_toast\<close> runs and the source is gone.\<close>

definition fire_source :: "nat \<Rightarrow> window \<Rightarrow> window" where
  "fire_source i w =
     (if i \<in> set (w_sources w)
      then w\<lparr>w_toast_visible := False, w_toast_source := 0, w_sources := remove1 i (w_sources w)\<rparr>
      else w)"

definition update_info :: "window \<Rightarrow> window" where
  "update_info w =
     (if \<not> w_info_visible w then w
      else
        w\<lparr>w_info := Some
            \<lparr>info_device = device_id (w_config w), info_address = w_local_ip w,
             info_server = server_url (w_config w),
             info_dashboard =
               (case current_dashboard w of
                  Some d \<Rightarrow> Some (d_name d, w_current w + 1, length (w_dashboards w))
                | None \<Rightarrow> None),
             info_cec = w_cec_status w, info_osd = osd_name (w_config w),
             info_cec_device = (cec_device (w_config w), w_cec_present w)\<rparr>\<rparr>)"

definition toggle_info :: "window \<Rightarrow> window" where
  "toggle_info w = update_info (w\<lparr>w_info_visible := \<not> w_info_visible w\<rparr>)"

definition set_status :: "string \<Rightarrow> window \<Rightarrow> window" where
  "set_status cec_status w = update_info (w\<lparr>w_cec_status := cec_status\<rparr>)"

definition set_enrolment_status :: "caption \<Rightarrow> window \<Rightarrow> window" where
  "set_enrolment_status message w = w\<lparr>w_caption := message\<rparr>"

definition set_blanked :: "bool \<Rightarrow> window \<Rightarrow> window" where
  "set_blanked b w = w\<lparr>w_blanked := b\<rparr>"

section \<open>Views\<close>

definition touch :: "string \<Rightarrow> window \<Rightarrow> window" where
  "touch i w = w\<lparr>w_view_order := remove1 i (w_view_order w) @ [i]\<rparr>"

definition release_view :: "string \<Rightarrow> window \<Rightarrow> window" where
  "release_view i w =
     (case map_of (w_views w) i of
        None \<Rightarrow> w
      | Some _ \<Rightarrow>
          w\<lparr>w_views := AList.delete i (w_views w), w_view_order := remove1 i (w_view_order w),
            w_loading_ids := w_loading_ids w - {i},
            w_visible := (if w_visible w = ViewChild i then StackDefault else w_visible w)\<rparr>)"

definition drop_stale_views :: "string set \<Rightarrow> window \<Rightarrow> window" where
  "drop_stale_views live_ids w =
     fold release_view (filter (\<lambda>k. k \<notin> live_ids) (map fst (w_views w))) w"

definition view_limit :: "window \<Rightarrow> nat" where
  "view_limit w = nat (max 1 (max_live_views (w_config w)))"

text \<open>The least recently used view that is not the current one.\<close>

definition find_victim :: "window \<Rightarrow> string option" where
  "find_victim w =
     find (\<lambda>i. Some i \<noteq> map_option d_id (current_dashboard w) \<and> i \<in> fst ` set (w_views w))
       (w_view_order w)"

lemma find_victim_in: "find_victim w = Some i \<Longrightarrow> i \<in> fst ` set (w_views w)"
  by (auto simp: find_victim_def find_Some_iff)

lemma length_delete_less: "i \<in> fst ` set al \<Longrightarrow> length (AList.delete i al) < length al"
proof -
  assume "i \<in> fst ` set al"
  then obtain v where "(i, v) \<in> set al" by force
  then show ?thesis
    unfolding AList.delete_eq by (rule length_filter_less) simp
qed

lemma release_view_views [simp]: "w_views (release_view i w) = AList.delete i (w_views w)"
  by (auto simp: release_view_def map_of_eq_None_iff delete_id split: option.splits)

function evict_surplus :: "window \<Rightarrow> window" where
  "evict_surplus w =
     (if view_limit w < length (w_views w) then
        (case find_victim w of
           None \<Rightarrow> w
         | Some victim \<Rightarrow> evict_surplus (release_view victim w))
      else w)"
  by pat_completeness auto

termination
  by (relation "measure (\<lambda>w. length (w_views w))")
    (simp_all add: length_delete_less [OF find_victim_in])

declare evict_surplus.simps [simp del]

definition view_for :: "dashboard \<Rightarrow> window \<Rightarrow> window" where
  "view_for d w =
     (if map_of (w_views w) (d_id d) \<noteq> None then touch (d_id d) w
      else
        evict_surplus (touch (d_id d)
          (w\<lparr>w_loading_ids := insert (d_id d) (w_loading_ids w),
             w_views := AList.update (d_id d) (d_url d) (w_views w)\<rparr>)))"

definition sync_loading :: "window \<Rightarrow> window" where
  "sync_loading w =
     w\<lparr>w_loading :=
         (case current_dashboard w of Some d \<Rightarrow> d_id d \<in> w_loading_ids w | None \<Rightarrow> False)\<rparr>"

definition show_index :: "int \<Rightarrow> window \<Rightarrow> window" where
  "show_index index w =
     (if w_dashboards w = [] then w
      else
        (let i = index mod int (length (w_dashboards w));
             d = w_dashboards w ! nat i;
             w = view_for d (w\<lparr>w_current := i\<rparr>)
         in update_info (sync_loading (w\<lparr>w_visible := ViewChild (d_id d)\<rparr>))))"

section \<open>The dashboards\<close>

fun allow_dashboards :: "dashboard list \<Rightarrow> allowlist \<Rightarrow> allowlist outcome" where
  "allow_dashboards [] al = (None, al)"
| "allow_dashboards (d # ds) al =
     (case allow (d_url d) al of
        Inl e \<Rightarrow> (Some e, al)
      | Inr al' \<Rightarrow> allow_dashboards ds al')"

fun index_of_id :: "string \<Rightarrow> dashboard list \<Rightarrow> int \<Rightarrow> int option" where
  "index_of_id i [] n = None"
| "index_of_id i (d # ds) n = (if d_id d = i then Some n else index_of_id i ds (n + 1))"

definition set_dashboards :: "dashboard list \<Rightarrow> bool \<Rightarrow> window \<Rightarrow> window outcome" where
  "set_dashboards ds keep_current w =
     (if w_needs_setup w then (None, w)
      else
        (let previous = current_dashboard w;
             w = w\<lparr>w_dashboards := ds\<rparr>
         in case allow_dashboards ds (w_allowlist w) of
              (Some e, al) \<Rightarrow> (Some e, w\<lparr>w_allowlist := al\<rparr>)
            | (None, al) \<Rightarrow>
                let w = w\<lparr>w_allowlist := al, w_menu := menu_set_dashboards ds (w_menu w)\<rparr>;
                    w = drop_stale_views (set (map d_id ds)) w
                in (None,
                    if ds = [] then
                      toast ToastNoDashboards (w\<lparr>w_visible := Placeholder, w_current := -1\<rparr>)
                    else
                      (case (if keep_current
                             then Option.bind previous (\<lambda>p. index_of_id (d_id p) ds 0) else None) of
                         Some index \<Rightarrow> show_index index w
                       | None \<Rightarrow> show_index 0 w))))"

section \<open>What WebKit reports\<close>

datatype load_event = LoadStarted | LoadFinished | LoadOther

definition on_load_changed :: "load_event \<Rightarrow> string \<Rightarrow> window \<Rightarrow> window" where
  "on_load_changed event i w =
     sync_loading
       (case event of
          LoadStarted \<Rightarrow> w\<lparr>w_loading_ids := insert i (w_loading_ids w)\<rparr>
        | LoadFinished \<Rightarrow> w\<lparr>w_loading_ids := w_loading_ids w - {i}\<rparr>
        | LoadOther \<Rightarrow> w)"

definition host_of :: "string \<Rightarrow> string result" where
  "host_of uri =
     bind_result (urlparse uri) (\<lambda>(_, netloc).
       Inr (if hostname netloc \<noteq> [] then hostname netloc else uri))"

definition on_load_failed :: "string \<Rightarrow> window \<Rightarrow> window outcome" where
  "on_load_failed uri w =
     (let w = (case current_dashboard w of
                 Some d \<Rightarrow> sync_loading (w\<lparr>w_loading_ids := w_loading_ids w - {d_id d}\<rparr>)
               | None \<Rightarrow> w)
      in case host_of uri of
           Inl e \<Rightarrow> (Some e, w)
         | Inr h \<Rightarrow> (None, toast (ToastCouldNotLoad h) w))"

text \<open>Reloading asks WebKit to load the page again; what follows are load events.\<close>

definition reload_current :: "window \<Rightarrow> window" where
  "reload_current w =
     (case current_dashboard w of
        None \<Rightarrow> w
      | Some d \<Rightarrow>
          if map_of (w_views w) (d_id d) \<noteq> None then toast (ToastReloading (d_name d)) w else w)"

section \<open>Actions\<close>

definition on_menu_activate :: "int \<Rightarrow> window \<Rightarrow> window" where
  "on_menu_activate index w = show_index index (w\<lparr>w_menu := menu_close (w_menu w)\<rparr>)"

definition menu_step_action :: "int \<Rightarrow> window \<Rightarrow> window" where
  "menu_step_action delta w =
     (if \<not> menu_revealed (w_menu w)
      then w\<lparr>w_menu := menu_open (max (w_current w) 0) (w_menu w)\<rparr>
      else w\<lparr>w_menu := menu_move delta (w_menu w)\<rparr>)"

definition activate :: "window \<Rightarrow> window" where
  "activate w =
     (if menu_revealed (w_menu w) then
        (case menu_activated (w_menu w) of Some i \<Rightarrow> on_menu_activate i w | None \<Rightarrow> w)
      else w\<lparr>w_menu := menu_open (max (w_current w) 0) (w_menu w)\<rparr>)"

definition step_action :: "int \<Rightarrow> window \<Rightarrow> window" where
  "step_action delta w =
     (if menu_revealed (w_menu w) then w\<lparr>w_menu := menu_move delta (w_menu w)\<rparr>
      else if w_dashboards w \<noteq> [] then
        (let w = show_index (w_current w + delta) w
         in toast (ToastName (d_name (w_dashboards w ! nat (w_current w)))) w)
      else w)"

definition jump_to_digit :: "int \<Rightarrow> window \<Rightarrow> window" where
  "jump_to_digit digit w =
     (let index = (if digit > 0 then digit - 1 else 9) in
      if index < int (length (w_dashboards w)) then
        toast (ToastName (d_name (w_dashboards w ! nat index)))
          (show_index index (w\<lparr>w_menu := menu_close (w_menu w)\<rparr>))
      else w)"

definition handle_action :: "key_action \<Rightarrow> window \<Rightarrow> window" where
  "handle_action action w =
     (case action of
        DigitAction digit \<Rightarrow> jump_to_digit digit w
      | Act a \<Rightarrow>
          (case a of
             MENU_TOGGLE \<Rightarrow> w\<lparr>w_menu := menu_toggle (max (w_current w) 0) (w_menu w)\<rparr>
           | MENU_CLOSE \<Rightarrow> w\<lparr>w_menu := menu_close (w_menu w)\<rparr>
           | MENU_UP \<Rightarrow> menu_step_action (-1) w
           | MENU_DOWN \<Rightarrow> menu_step_action 1 w
           | MENU_ACTIVATE \<Rightarrow> activate w
           | DASHBOARD_NEXT \<Rightarrow> step_action 1 w
           | DASHBOARD_PREV \<Rightarrow> step_action (-1) w
           | DASHBOARD_RELOAD \<Rightarrow> reload_current w
           | DASHBOARD_HOME \<Rightarrow> show_index 0 w
           | INFO_TOGGLE \<Rightarrow> toggle_info w
           | BLANK_ON \<Rightarrow> set_blanked True w
           | BLANK_OFF \<Rightarrow> set_blanked False w
           | ROTATE_TOGGLE \<Rightarrow> w))"

section \<open>Setup\<close>

definition setup_status :: "setup_message \<Rightarrow> bool \<Rightarrow> window \<Rightarrow> window" where
  "setup_status message err w =
     (let s = set_setup_status message err (w_setup w)
      in w\<lparr>w_setup := (if err then reset_for_retry s else s)\<rparr>)"

definition leave_setup :: "window \<Rightarrow> window" where
  "leave_setup w =
     (if \<not> w_needs_setup w then w else w\<lparr>w_needs_setup := False, w_visible := Placeholder\<rparr>)"

text \<open>\<open>_on_setup_submit\<close> saves the address: the error to show if \<open>persist\<close> raised, the files it
  leaves, and the address the controller is told, if there is one that asked to be
  (\<open>on_configured\<close>).\<close>

definition on_setup_submit ::
  "(fs_op \<Rightarrow> bool) \<Rightarrow> environ \<Rightarrow> bool \<Rightarrow> string \<Rightarrow> fs \<Rightarrow>
   py_error option \<times> fs \<times> string option" where
  "on_setup_submit fails env connected url fs =
     (case persist fails env None ''server-url'' url fs of
        (Some e, fs', _) \<Rightarrow> (Some e, fs', None)
      | (None, fs', _) \<Rightarrow> (None, fs', if connected then Some url else None))"

text \<open>\<open>SetupScreen._submit\<close>. An exception of the normalisation escapes from the signal handler.\<close>

definition submit_setup ::
  "(fs_op \<Rightarrow> bool) \<Rightarrow> environ \<Rightarrow> bool \<Rightarrow> string \<Rightarrow> fs \<Rightarrow> setup_screen \<Rightarrow>
   py_error option \<times> setup_screen \<times> fs \<times> string option" where
  "submit_setup fails env connected text fs s =
     (case normalise_server_url text of
        Inl e \<Rightarrow> (Some e, s, fs, None)
      | Inr url \<Rightarrow>
          if url = [] then (None, set_setup_status NotAnAddress True s, fs, None)
          else
            (let s = (set_setup_status (SavingUrl url) False s)\<lparr>st_sensitive := False\<rparr>
             in case on_setup_submit fails env connected url fs of
                  (Some e, fs', told) \<Rightarrow>
                    (None, set_setup_status (CouldNotSave e) True (s\<lparr>st_sensitive := True\<rparr>), fs', told)
                | (None, fs', told) \<Rightarrow> (None, s, fs', told)))"

section \<open>What the window keeps\<close>

definition view_ids :: "window \<Rightarrow> string set" where
  "view_ids w = fst ` set (w_views w)"

definition views_inv :: "window \<Rightarrow> bool" where
  "views_inv w \<longleftrightarrow>
     distinct (map fst (w_views w)) \<and> distinct (w_view_order w) \<and> set (w_view_order w) = view_ids w"

definition toast_inv :: "window \<Rightarrow> bool" where
  "toast_inv w \<longleftrightarrow>
     w_sources w = (if w_toast_source w = 0 then [] else [w_toast_source w]) \<and>
     w_toast_visible w = (w_toast_source w \<noteq> 0) \<and> w_toast_source w < w_next_source w"

definition base_inv :: "window \<Rightarrow> bool" where
  "base_inv w \<longleftrightarrow>
     views_inv w \<and> view_ids w \<subseteq> d_id ` set (w_dashboards w) \<and> length (w_views w) \<le> view_limit w \<and>
     toast_inv w \<and> menu_inv (w_menu w) \<and> menu_dashboards (w_menu w) = w_dashboards w"

text \<open>What is on screen is what the state says.\<close>

definition shown :: "window \<Rightarrow> bool" where
  "shown w \<longleftrightarrow>
     (if w_dashboards w = [] then
        w_current w = -1 \<and> w_visible w = (if w_needs_setup w then SetupChild else Placeholder) \<and>
        (w_needs_setup w \<longrightarrow> \<not> w_loading w)
      else
        \<not> w_needs_setup w \<and> 0 \<le> w_current w \<and> w_current w < int (length (w_dashboards w)) \<and>
        (let i = d_id (w_dashboards w ! nat (w_current w))
         in w_visible w = ViewChild i \<and> i \<in> view_ids w \<and> w_loading w = (i \<in> w_loading_ids w)))"

definition win_inv :: "window \<Rightarrow> bool" where
  "win_inv w \<longleftrightarrow> base_inv w \<and> shown w"

subsection \<open>Releasing views\<close>

text \<open>The operations on views touch nothing but the views, their order, their covers and the
  visible child.\<close>

definition same_but_views :: "window \<Rightarrow> window \<Rightarrow> bool" where
  "same_but_views w w' \<longleftrightarrow>
     w' = w\<lparr>w_views := w_views w', w_view_order := w_view_order w',
            w_loading_ids := w_loading_ids w', w_visible := w_visible w'\<rparr>"

lemma same_but_views_refl [simp]: "same_but_views w w"
  by (simp add: same_but_views_def)

lemma same_but_views_trans:
  assumes "same_but_views w w'" and "same_but_views w' w''"
  shows "same_but_views w w''"
  unfolding same_but_views_def
  by (rule trans [OF assms(2) [unfolded same_but_views_def]])
    (subst assms(1) [unfolded same_but_views_def], simp)

lemma same_but_viewsD:
  assumes "same_but_views w w'"
  shows "w_config w' = w_config w" "w_dashboards w' = w_dashboards w" "w_current w' = w_current w"
    "w_allowlist w' = w_allowlist w" "w_needs_setup w' = w_needs_setup w" "w_menu w' = w_menu w"
    "w_toast w' = w_toast w" "w_toast_visible w' = w_toast_visible w"
    "w_toast_source w' = w_toast_source w" "w_sources w' = w_sources w"
    "w_next_source w' = w_next_source w" "w_info_visible w' = w_info_visible w"
    "w_loading w' = w_loading w" "w_blanked w' = w_blanked w"
  by (subst assms [unfolded same_but_views_def], simp)+

lemma release_view_same: "same_but_views w (release_view i w)"
  by (simp add: same_but_views_def release_view_def split: option.split)

lemma release_view_ids: "view_ids (release_view i w) = view_ids w - {i}"
  by (simp only: view_ids_def set_map [symmetric] release_view_views delete_keys set_removeAll)

lemma release_view_order: "w_view_order (release_view i w) =
    (if i \<in> view_ids w then remove1 i (w_view_order w) else w_view_order w)"
  using map_of_eq_None_iff [of "w_views w" i]
  by (cases "map_of (w_views w) i") (simp_all add: release_view_def view_ids_def)

lemma release_view_inv:
  assumes "views_inv w"
  shows "views_inv (release_view i w)"
proof -
  have "distinct (map fst (w_views (release_view i w)))"
    using assms by (simp add: views_inv_def distinct_delete)
  moreover have "distinct (w_view_order (release_view i w)) \<and>
      set (w_view_order (release_view i w)) = view_ids (release_view i w)"
    using assms by (auto simp: views_inv_def release_view_order release_view_ids)
  ultimately show ?thesis by (simp add: views_inv_def)
qed

lemma fold_release:
  "views_inv w \<Longrightarrow>
     same_but_views w (fold release_view ks w) \<and> views_inv (fold release_view ks w) \<and>
     view_ids (fold release_view ks w) = view_ids w - set ks \<and>
     length (w_views (fold release_view ks w)) \<le> length (w_views w)"
proof (induction ks arbitrary: w)
  case Nil
  then show ?case by simp
next
  case (Cons k ks)
  note IH = Cons.IH [OF release_view_inv [OF Cons.prems], of k]
  have "length (w_views (release_view k w)) \<le> length (w_views w)"
    by (simp add: length_delete_le)
  then show ?case
    using IH same_but_views_trans [OF release_view_same [of w k]] by (auto simp: release_view_ids)
qed

lemma drop_stale_views_facts:
  assumes "views_inv w"
  shows "same_but_views w (drop_stale_views live w)" "views_inv (drop_stale_views live w)"
    "view_ids (drop_stale_views live w) = view_ids w \<inter> live"
    "length (w_views (drop_stale_views live w)) \<le> length (w_views w)"
  using fold_release [OF assms, of "filter (\<lambda>k. k \<notin> live) (map fst (w_views w))"]
  by (auto simp: drop_stale_views_def view_ids_def)

subsection \<open>Evicting\<close>

lemma find_victim_None:
  assumes "views_inv w" and "find_victim w = None"
  shows "view_ids w \<subseteq> {d_id d |d. current_dashboard w = Some d}"
  using assms
  by (cases "current_dashboard w") (fastforce simp: find_victim_def find_None_iff views_inv_def view_ids_def)+

lemma views_bound:
  assumes "views_inv w"
  shows "length (w_views w) = card (view_ids w)"
  using assms by (simp add: views_inv_def view_ids_def card_image distinct_map distinct_card)

lemma same_current: "same_but_views w w' \<Longrightarrow> current_dashboard w' = current_dashboard w"
  by (simp add: current_dashboard_def same_but_viewsD)

lemma same_limit: "same_but_views w w' \<Longrightarrow> view_limit w' = view_limit w"
  by (simp add: view_limit_def same_but_viewsD)

lemma evict_surplus_facts:
  assumes "views_inv w" and "current_dashboard w = Some d" and "d_id d \<in> view_ids w"
  shows "same_but_views w (evict_surplus w) \<and> views_inv (evict_surplus w) \<and>
    d_id d \<in> view_ids (evict_surplus w) \<and> view_ids (evict_surplus w) \<subseteq> view_ids w \<and>
    length (w_views (evict_surplus w)) \<le> view_limit w"
  using assms
proof (induction w rule: evict_surplus.induct)
  case (1 w)
  show ?case
  proof (cases "view_limit w < length (w_views w)")
    case False
    then show ?thesis using 1 by (simp add: evict_surplus.simps [of w])
  next
    case True
    show ?thesis
    proof (cases "find_victim w")
      case None
      then have "view_ids w \<subseteq> {d_id d}" using find_victim_None [OF 1(2)] 1(3) by auto
      then have "card (view_ids w) \<le> 1" using card_mono [of "{d_id d}" "view_ids w"] by simp
      then have "length (w_views w) \<le> view_limit w"
        using views_bound [OF 1(2)] by (simp add: view_limit_def)
      with True show ?thesis by simp
    next
      case (Some v)
      let ?w = "release_view v w"
      have v: "v \<noteq> d_id d"
        using Some 1(3) by (auto simp: find_victim_def find_Some_iff)
      note s = release_view_same [of w v]
      have IH: "same_but_views ?w (evict_surplus ?w) \<and> views_inv (evict_surplus ?w) \<and>
          d_id d \<in> view_ids (evict_surplus ?w) \<and> view_ids (evict_surplus ?w) \<subseteq> view_ids ?w \<and>
          length (w_views (evict_surplus ?w)) \<le> view_limit ?w"
        using 1(1) [OF True Some release_view_inv [OF 1(2)]] 1(3,4) v same_current [OF s]
        by (simp add: release_view_ids)
      moreover have "evict_surplus w = evict_surplus ?w"
        using True Some by (simp add: evict_surplus.simps [of w])
      ultimately show ?thesis
        using same_but_views_trans [OF s] same_limit [OF s] by (auto simp: release_view_ids)
    qed
  qed
qed

subsection \<open>Showing a view\<close>

lemma touch_facts:
  assumes "distinct (map fst (w_views w))" and "distinct (w_view_order w)"
    and "insert i (set (w_view_order w)) = view_ids w"
  shows "same_but_views w (touch i w)" "views_inv (touch i w)" "view_ids (touch i w) = view_ids w"
    "w_views (touch i w) = w_views w"
  using assms by (auto simp: same_but_views_def touch_def views_inv_def view_ids_def)

lemma view_for_facts:
  assumes inv: "views_inv w" and cur: "current_dashboard w = Some d"
    and len: "length (w_views w) \<le> view_limit w"
  shows "same_but_views w (view_for d w) \<and> views_inv (view_for d w) \<and>
    d_id d \<in> view_ids (view_for d w) \<and> view_ids (view_for d w) \<subseteq> insert (d_id d) (view_ids w) \<and>
    length (w_views (view_for d w)) \<le> view_limit w"
proof (cases "d_id d \<in> view_ids w")
  case True
  then have v: "view_for d w = touch (d_id d) w"
    using map_of_eq_None_iff [of "w_views w" "d_id d"] by (simp add: view_for_def view_ids_def)
  have same: "insert (d_id d) (set (w_view_order w)) = view_ids w"
    using inv True by (auto simp: views_inv_def)
  show ?thesis
    unfolding v using inv True len touch_facts [of w "d_id d"] same
    by (simp add: views_inv_def subset_insertI)
next
  case False
  let ?w1 = "w\<lparr>w_loading_ids := insert (d_id d) (w_loading_ids w),
    w_views := AList.update (d_id d) (d_url d) (w_views w)\<rparr>"
  let ?w2 = "touch (d_id d) ?w1"
  have v: "view_for d w = evict_surplus ?w2"
    using False map_of_eq_None_iff [of "w_views w" "d_id d"] by (simp add: view_for_def view_ids_def)
  have ids: "view_ids ?w1 = insert (d_id d) (view_ids w)"
    by (simp add: view_ids_def dom_update)
  have t: "same_but_views ?w1 ?w2" "views_inv ?w2" "view_ids ?w2 = view_ids ?w1"
  proof -
    have "distinct (map fst (w_views ?w1))" "distinct (w_view_order ?w1)"
      "insert (d_id d) (set (w_view_order ?w1)) = view_ids ?w1"
      using inv ids by (simp_all add: views_inv_def distinct_update)
    from touch_facts [OF this] show "same_but_views ?w1 ?w2" "views_inv ?w2"
      "view_ids ?w2 = view_ids ?w1" by blast+
  qed
  have s: "same_but_views w ?w2"
    by (rule same_but_views_trans [OF _ t(1)]) (simp add: same_but_views_def)
  have "current_dashboard ?w2 = Some d" using same_current [OF s] cur by simp
  from evict_surplus_facts [OF t(2) this] t(3) ids
  have e: "same_but_views ?w2 (evict_surplus ?w2) \<and> views_inv (evict_surplus ?w2) \<and>
      d_id d \<in> view_ids (evict_surplus ?w2) \<and> view_ids (evict_surplus ?w2) \<subseteq> view_ids ?w2 \<and>
      length (w_views (evict_surplus ?w2)) \<le> view_limit ?w2"
    by simp
  then show ?thesis
    unfolding v using same_but_views_trans [OF s] same_limit [OF s] t(3) ids by auto
qed

lemma sync_loading_fields [simp, win_simps]:
  "w_views (sync_loading w) = w_views w" "w_view_order (sync_loading w) = w_view_order w"
  "w_dashboards (sync_loading w) = w_dashboards w" "w_current (sync_loading w) = w_current w"
  "w_visible (sync_loading w) = w_visible w" "w_needs_setup (sync_loading w) = w_needs_setup w"
  "w_menu (sync_loading w) = w_menu w" "w_loading_ids (sync_loading w) = w_loading_ids w"
  "w_config (sync_loading w) = w_config w" "w_sources (sync_loading w) = w_sources w"
  "w_toast_source (sync_loading w) = w_toast_source w" "w_toast (sync_loading w) = w_toast w"
  "w_toast_visible (sync_loading w) = w_toast_visible w"
  "w_next_source (sync_loading w) = w_next_source w" "w_blanked (sync_loading w) = w_blanked w"
  "w_allowlist (sync_loading w) = w_allowlist w" "w_info_visible (sync_loading w) = w_info_visible w"
  by (simp_all add: sync_loading_def)

lemma update_info_fields [simp, win_simps]:
  "w_views (update_info w) = w_views w" "w_view_order (update_info w) = w_view_order w"
  "w_dashboards (update_info w) = w_dashboards w" "w_current (update_info w) = w_current w"
  "w_visible (update_info w) = w_visible w" "w_needs_setup (update_info w) = w_needs_setup w"
  "w_menu (update_info w) = w_menu w" "w_loading_ids (update_info w) = w_loading_ids w"
  "w_config (update_info w) = w_config w" "w_sources (update_info w) = w_sources w"
  "w_toast_source (update_info w) = w_toast_source w" "w_toast (update_info w) = w_toast w"
  "w_toast_visible (update_info w) = w_toast_visible w" "w_loading (update_info w) = w_loading w"
  "w_next_source (update_info w) = w_next_source w" "w_blanked (update_info w) = w_blanked w"
  "w_allowlist (update_info w) = w_allowlist w" "w_info_visible (update_info w) = w_info_visible w"
  by (simp_all add: update_info_def)

lemma w_loading_sync:
  "w_loading (sync_loading w) =
     (case current_dashboard w of Some d \<Rightarrow> d_id d \<in> w_loading_ids w | None \<Rightarrow> False)"
  by (simp add: sync_loading_def)

lemma current_frame:
  "current_dashboard (w\<lparr>w_visible := v\<rparr>) = current_dashboard w"
  "current_dashboard (w\<lparr>w_loading_ids := l\<rparr>) = current_dashboard w"
  "current_dashboard (sync_loading w) = current_dashboard w"
  "current_dashboard (w\<lparr>w_menu := m\<rparr>) = current_dashboard w"
  by (simp_all add: current_dashboard_def)

text \<open>What an invariant depends on.\<close>

definition core :: "window \<Rightarrow> config \<times> dashboard list \<times> (string \<times> string) list \<times> string list \<times> menu
    \<times> nat \<times> nat list \<times> nat \<times> bool" where
  "core w = (w_config w, w_dashboards w, w_views w, w_view_order w, w_menu w,
     w_toast_source w, w_sources w, w_next_source w, w_toast_visible w)"

lemma base_inv_core: "core w = core w' \<Longrightarrow> base_inv w = base_inv w'"
  by (simp add: core_def base_inv_def views_inv_def view_ids_def toast_inv_def view_limit_def)

definition screen :: "window \<Rightarrow> int \<times> visible_child \<times> bool \<times> string set \<times> bool" where
  "screen w = (w_current w, w_visible w, w_needs_setup w, w_loading_ids w, w_loading w)"

lemma win_inv_core: "core w = core w' \<Longrightarrow> screen w = screen w' \<Longrightarrow> win_inv w = win_inv w'"
proof -
  assume c: "core w = core w'" and s: "screen w = screen w'"
  have eqs: "w_dashboards w = w_dashboards w'" "w_views w = w_views w'" "w_current w = w_current w'"
    "w_visible w = w_visible w'" "w_needs_setup w = w_needs_setup w'"
    "w_loading_ids w = w_loading_ids w'" "w_loading w = w_loading w'"
    using c s by (simp_all add: core_def screen_def)
  have "shown w = shown w'" by (simp only: shown_def view_ids_def eqs)
  then show ?thesis using base_inv_core [OF c] by (simp only: win_inv_def)
qed

lemma show_index_empty: "w_dashboards w = [] \<Longrightarrow> show_index i w = w"
  by (simp add: show_index_def)

lemma show_index_facts:
  assumes inv: "base_inv w" and ne: "w_dashboards w \<noteq> []" and ns: "\<not> w_needs_setup w"
  shows "win_inv (show_index i w)" and "w_dashboards (show_index i w) = w_dashboards w"
    and "w_current (show_index i w) = i mod int (length (w_dashboards w))"
    and "w_menu (show_index i w) = w_menu w" and "w_config (show_index i w) = w_config w"
    and "w_needs_setup (show_index i w) = w_needs_setup w"
proof -
  let ?i = "i mod int (length (w_dashboards w))"
  let ?w1 = "w\<lparr>w_current := ?i\<rparr>"
  let ?d = "w_dashboards w ! nat ?i"
  let ?w2 = "view_for ?d ?w1"
  have r: "0 \<le> ?i" "?i < int (length (w_dashboards w))" using ne by simp_all
  have d: "current_dashboard ?w1 = Some ?d" using r by (simp add: current_dashboard_def)
  have "views_inv ?w1" and len: "length (w_views ?w1) \<le> view_limit ?w1"
    using inv by (simp_all add: base_inv_def views_inv_def view_ids_def view_limit_def)
  from view_for_facts [OF this(1) d this(2)]
  have f: "same_but_views ?w1 ?w2" "views_inv ?w2" "d_id ?d \<in> view_ids ?w2"
    "view_ids ?w2 \<subseteq> insert (d_id ?d) (view_ids ?w1)" "length (w_views ?w2) \<le> view_limit ?w1"
    by blast+
  note s = same_but_viewsD [OF f(1)]
  have dm: "d_id ?d \<in> d_id ` set (w_dashboards w)" using r by simp
  have sh: "show_index i w = update_info (sync_loading (?w2\<lparr>w_visible := ViewChild (d_id ?d)\<rparr>))"
    using ne by (simp add: show_index_def Let_def)
  have w1: "w_config ?w1 = w_config w" "w_dashboards ?w1 = w_dashboards w" "view_ids ?w1 = view_ids w"
    "view_limit ?w1 = view_limit w"
    by (simp_all add: view_ids_def view_limit_def)
  have "toast_inv ?w2" "menu_inv (w_menu ?w2)" "menu_dashboards (w_menu ?w2) = w_dashboards ?w2"
    using inv by (simp_all add: base_inv_def toast_inv_def s)
  moreover have "view_ids ?w2 \<subseteq> d_id ` set (w_dashboards ?w2)"
    using inv f(4) dm unfolding s(2) w1 base_inv_def by blast
  ultimately have "base_inv ?w2"
    using f(2,5) same_limit [OF f(1)] by (simp add: base_inv_def)
  then have "base_inv (show_index i w)"
    by (subst base_inv_core [of _ ?w2]) (simp_all add: sh core_def)
  moreover have "shown (show_index i w)"
  proof -
    let ?w3 = "?w2\<lparr>w_visible := ViewChild (d_id ?d)\<rparr>"
    have l: "w_loading (show_index i w) = (d_id ?d \<in> w_loading_ids ?w2)"
      using d same_current [OF f(1)] by (simp add: sh w_loading_sync current_frame)
    have v: "view_ids (show_index i w) = view_ids ?w2"
      by (simp add: sh view_ids_def)
    have c: "w_current (show_index i w) = ?i" "w_dashboards (show_index i w) = w_dashboards w"
      "w_needs_setup (show_index i w) = w_needs_setup w"
      "w_visible (show_index i w) = ViewChild (d_id ?d)"
      "w_loading_ids (show_index i w) = w_loading_ids ?w2"
      by (simp_all add: sh s)
    show ?thesis
      using ne ns r f(3) by (simp add: shown_def Let_def c l v)
  qed
  ultimately show "win_inv (show_index i w)" by (simp add: win_inv_def)
  show "w_dashboards (show_index i w) = w_dashboards w" "w_menu (show_index i w) = w_menu w"
    "w_config (show_index i w) = w_config w"
    "w_current (show_index i w) = i mod int (length (w_dashboards w))"
    "w_needs_setup (show_index i w) = w_needs_setup w"
    using s by (simp_all add: sh)
qed

subsection \<open>Every operation keeps it\<close>

lemma toast_fields [simp, win_simps]:
  "w_views (toast t w) = w_views w" "w_view_order (toast t w) = w_view_order w"
  "w_dashboards (toast t w) = w_dashboards w" "w_current (toast t w) = w_current w"
  "w_visible (toast t w) = w_visible w" "w_needs_setup (toast t w) = w_needs_setup w"
  "w_menu (toast t w) = w_menu w" "w_loading_ids (toast t w) = w_loading_ids w"
  "w_config (toast t w) = w_config w" "w_loading (toast t w) = w_loading w"
  "w_blanked (toast t w) = w_blanked w" "w_toast (toast t w) = Some t"
  "w_toast_visible (toast t w)" "w_allowlist (toast t w) = w_allowlist w"
  by (simp_all add: toast_def Let_def)

lemma toast_toast_inv: "toast_inv w \<Longrightarrow> toast_inv (toast t w)"
  by (auto simp: toast_inv_def toast_def Let_def)

lemma fire_source_toast_inv: "toast_inv w \<Longrightarrow> toast_inv (fire_source i w)"
  by (auto simp: toast_inv_def fire_source_def split: if_splits)

text \<open>An operation that changes only the toast, or nothing the invariant looks at.\<close>

lemma win_inv_toast_only:
  assumes "win_inv w" and "toast_inv w'" and "screen w' = screen w"
    and "(w_config w', w_dashboards w', w_views w', w_view_order w', w_menu w') =
      (w_config w, w_dashboards w, w_views w, w_view_order w, w_menu w)"
  shows "win_inv w'"
proof -
  have eqs: "w_dashboards w' = w_dashboards w" "w_views w' = w_views w" "w_current w' = w_current w"
    "w_visible w' = w_visible w" "w_needs_setup w' = w_needs_setup w" "w_config w' = w_config w"
    "w_loading_ids w' = w_loading_ids w" "w_loading w' = w_loading w" "w_menu w' = w_menu w"
    "w_view_order w' = w_view_order w"
    using assms(3,4) by (simp_all add: screen_def)
  have "shown w" and "base_inv w" using assms(1) by (simp_all add: win_inv_def)
  then have "shown w'" by (simp only: shown_def view_ids_def eqs)
  moreover have "base_inv w'"
    using \<open>base_inv w\<close> assms(2)
    by (simp only: base_inv_def views_inv_def view_ids_def view_limit_def eqs simp_thms)
  ultimately show ?thesis by (simp add: win_inv_def)
qed

lemma win_inv_toast [keep]: "win_inv w \<Longrightarrow> win_inv (toast t w)"
  by (rule win_inv_toast_only)
    (simp_all add: screen_def toast_toast_inv win_inv_def base_inv_def)

lemma win_inv_fire [keep]:
  assumes "win_inv w"
  shows "win_inv (fire_source i w)"
proof (rule win_inv_toast_only [OF assms])
  show "toast_inv (fire_source i w)"
    using assms by (simp add: fire_source_toast_inv win_inv_def base_inv_def)
qed (simp_all add: screen_def fire_source_def)

lemma win_inv_update_info [keep]: "win_inv w \<Longrightarrow> win_inv (update_info w)"
  by (subst win_inv_core [of _ w]) (simp_all add: core_def screen_def)

lemma win_inv_frames:
  "win_inv (w\<lparr>w_info_visible := b\<rparr>) = win_inv w"
  "win_inv (w\<lparr>w_cec_status := s\<rparr>) = win_inv w"
  "win_inv (w\<lparr>w_caption := c\<rparr>) = win_inv w"
  "win_inv (w\<lparr>w_blanked := b\<rparr>) = win_inv w"
  "win_inv (w\<lparr>w_setup := st\<rparr>) = win_inv w"
  "win_inv (w\<lparr>w_local_ip := ip\<rparr>) = win_inv w"
  "win_inv (w\<lparr>w_cec_present := b\<rparr>) = win_inv w"
  "win_inv (w\<lparr>w_on_configured := b\<rparr>) = win_inv w"
  by (rule win_inv_core; simp add: core_def screen_def)+

lemma win_inv_plain [keep]:
  assumes "win_inv w"
  shows "win_inv (toggle_info w)" "win_inv (set_status s w)" "win_inv (set_enrolment_status c w)"
    "win_inv (set_blanked b w)" "win_inv (setup_status m e w)"
  using assms
  by (auto simp: toggle_info_def set_status_def set_enrolment_status_def set_blanked_def
      setup_status_def Let_def win_inv_frames keep)

lemma win_inv_menu:
  assumes "win_inv w" and "menu_inv m" and "menu_dashboards m = menu_dashboards (w_menu w)"
  shows "win_inv (w\<lparr>w_menu := m\<rparr>)"
proof -
  have "shown (w\<lparr>w_menu := m\<rparr>) = shown w"
    by (simp add: shown_def view_ids_def)
  moreover have "base_inv (w\<lparr>w_menu := m\<rparr>)"
    using assms by (simp add: win_inv_def base_inv_def views_inv_def view_ids_def toast_inv_def view_limit_def)
  ultimately show ?thesis using assms(1) by (simp add: win_inv_def)
qed

lemma win_inv_show_index [keep]:
  assumes "win_inv w"
  shows "win_inv (show_index i w)"
proof (cases "w_dashboards w = []")
  case True
  then show ?thesis using assms by (simp add: show_index_empty)
next
  case False
  then show ?thesis
    using assms show_index_facts(1) by (simp add: win_inv_def shown_def)
qed

lemma win_inv_D:
  "win_inv w \<Longrightarrow> menu_inv (w_menu w) \<and> menu_dashboards (w_menu w) = w_dashboards w"
  by (simp add: win_inv_def base_inv_def)

lemma win_inv_action [keep]:
  assumes "win_inv w"
  shows "win_inv (handle_action a w)"
proof -
  note m = win_inv_D [OF assms]
  have menu: "win_inv (w\<lparr>w_menu := menu_close (w_menu w)\<rparr>)"
    "win_inv (w\<lparr>w_menu := menu_open i (w_menu w)\<rparr>)"
    "win_inv (w\<lparr>w_menu := menu_toggle i (w_menu w)\<rparr>)"
    "win_inv (w\<lparr>w_menu := menu_move d (w_menu w)\<rparr>)" for i d
    using m by (auto intro!: win_inv_menu assms simp: keep)
  show ?thesis
    using assms menu
    by (auto simp: handle_action_def jump_to_digit_def menu_step_action_def activate_def
        on_menu_activate_def step_action_def reload_current_def Let_def
        intro!: win_inv_toast win_inv_show_index win_inv_plain
        split: key_action.split action.split option.split)
qed

lemma win_inv_loading:
  assumes "win_inv w"
  shows "win_inv (sync_loading (w\<lparr>w_loading_ids := ids\<rparr>))"
proof -
  let ?w = "sync_loading (w\<lparr>w_loading_ids := ids\<rparr>)"
  have "base_inv ?w"
    using assms by (subst base_inv_core [of _ w]) (simp_all add: core_def win_inv_def)
  moreover have "shown ?w"
    using assms
    by (auto simp: win_inv_def shown_def view_ids_def Let_def w_loading_sync current_frame
        current_dashboard_def split: option.split)
  ultimately show ?thesis by (simp add: win_inv_def)
qed

lemma win_inv_load_changed [keep]: "win_inv w \<Longrightarrow> win_inv (on_load_changed e i w)"
  using win_inv_loading [of w "w_loading_ids w"]
  by (cases e) (simp_all add: on_load_changed_def win_inv_loading)

lemma win_inv_load_failed [keep]: "win_inv w \<Longrightarrow> win_inv (snd (on_load_failed uri w))"
  by (auto simp: on_load_failed_def Let_def win_inv_loading keep split: option.split sum.split)

lemma win_inv_leave_setup [keep]: "win_inv w \<Longrightarrow> win_inv (leave_setup w)"
  by (auto simp: leave_setup_def win_inv_def base_inv_def shown_def views_inv_def view_ids_def
      toast_inv_def view_limit_def split: if_splits)

subsection \<open>Replacing the dashboards\<close>

text \<open>A dashboard whose page's address can be parsed; \<open>allow\<close> raises on the others.\<close>

definition page_ok :: "dashboard \<Rightarrow> bool" where
  "page_ok d \<longleftrightarrow> \<not> isl (allow (d_url d) \<lparr>al_hosts = {}, al_any = False\<rparr>)"

lemma allow_isl: "isl (allow url al) = isl (allow url al')"
  by (cases "urlparse (if py_contains ''//'' url then url else ''//'' @ url)")
    (auto simp: allow_def Let_def)

lemma allow_dashboards_ok:
  "list_all page_ok ds \<Longrightarrow> fst (allow_dashboards ds al) = None"
proof (induction ds arbitrary: al)
  case Nil
  then show ?case by simp
next
  case (Cons d ds)
  have "\<not> isl (allow (d_url d) al)"
    using Cons.prems allow_isl [of "d_url d" al "\<lparr>al_hosts = {}, al_any = False\<rparr>"]
    by (simp add: page_ok_def)
  then show ?case using Cons by (auto split: sum.split)
qed

lemma index_of_id_range:
  "index_of_id i ds n = Some k \<Longrightarrow> n \<le> k \<and> k < n + int (length ds) \<and> d_id (ds ! nat (k - n)) = i"
proof (induction ds arbitrary: n)
  case Nil
  then show ?case by simp
next
  case (Cons d ds)
  show ?case
  proof (cases "d_id d = i")
    case True
    then show ?thesis using Cons.prems by auto
  next
    case False
    then have k: "n + 1 \<le> k \<and> k < n + 1 + int (length ds) \<and> d_id (ds ! nat (k - (n + 1))) = i"
      using Cons by auto
    then obtain m where "k = n + 1 + int m" using zle_iff_zadd by blast
    then have "nat (k - n) = Suc (nat (k - (n + 1)))" by (simp add: nat_add_distrib)
    with k show ?thesis by simp
  qed
qed

lemma index_of_id_None: "index_of_id i ds n = None \<longleftrightarrow> i \<notin> d_id ` set ds"
  by (induction ds arbitrary: n) auto

text \<open>The window after the old dashboards went and before a new one is shown.\<close>

definition swapped :: "dashboard list \<Rightarrow> allowlist \<Rightarrow> window \<Rightarrow> window" where
  "swapped ds al w =
     drop_stale_views (set (map d_id ds))
       (w\<lparr>w_dashboards := ds, w_allowlist := al, w_menu := menu_set_dashboards ds (w_menu w)\<rparr>)"

lemma swapped_facts:
  assumes "win_inv w"
  shows "base_inv (swapped ds al w)" and "w_dashboards (swapped ds al w) = ds"
    and "w_needs_setup (swapped ds al w) = w_needs_setup w"
    and "w_config (swapped ds al w) = w_config w"
proof -
  let ?w = "w\<lparr>w_dashboards := ds, w_allowlist := al, w_menu := menu_set_dashboards ds (w_menu w)\<rparr>"
  have v: "views_inv ?w" and t: "toast_inv ?w" and l: "length (w_views ?w) \<le> view_limit ?w"
    using assms
    by (simp_all add: win_inv_def base_inv_def views_inv_def view_ids_def toast_inv_def view_limit_def)
  note d = drop_stale_views_facts [OF v, of "set (map d_id ds)", folded swapped_def [of ds al w]]
  note s = same_but_viewsD [OF d(1)]
  have "toast_inv (swapped ds al w)" using t by (simp add: toast_inv_def s)
  moreover have "menu_inv (w_menu (swapped ds al w))"
    "menu_dashboards (w_menu (swapped ds al w)) = ds"
    using win_inv_D [OF assms] by (simp_all add: s keep)
  moreover have "length (w_views (swapped ds al w)) \<le> view_limit (swapped ds al w)"
    using d(4) l same_limit [OF d(1)] by simp
  ultimately show "base_inv (swapped ds al w)"
    using d(2,3) by (simp add: base_inv_def s)
  show "w_dashboards (swapped ds al w) = ds" "w_needs_setup (swapped ds al w) = w_needs_setup w"
    "w_config (swapped ds al w) = w_config w"
    by (simp_all add: s)
qed

lemma set_dashboards_form:
  assumes "\<not> w_needs_setup w" and "list_all page_ok ds"
  shows "\<exists>al. set_dashboards ds keep_current w =
    (None,
     if ds = [] then toast ToastNoDashboards ((swapped ds al w)\<lparr>w_visible := Placeholder, w_current := -1\<rparr>)
     else show_index
       (case (if keep_current
              then Option.bind (current_dashboard w) (\<lambda>p. index_of_id (d_id p) ds 0) else None) of
          Some i \<Rightarrow> i | None \<Rightarrow> 0)
       (swapped ds al w))"
proof -
  obtain al where al: "allow_dashboards ds (w_allowlist w) = (None, al)"
    using allow_dashboards_ok [OF assms(2), of "w_allowlist w"]
    by (cases "allow_dashboards ds (w_allowlist w)") auto
  show ?thesis
    using assms(1)
    by (intro exI [of _ al]) (auto simp: set_dashboards_def Let_def al swapped_def split: option.split)
qed

lemma win_inv_set_dashboards [keep]:
  assumes "win_inv w" and "list_all page_ok ds"
  shows "win_inv (snd (set_dashboards ds keep_current w))"
proof (cases "w_needs_setup w")
  case True
  then show ?thesis using assms(1) by (simp add: set_dashboards_def)
next
  case False
  obtain al where f: "set_dashboards ds keep_current w =
    (None,
     if ds = [] then toast ToastNoDashboards ((swapped ds al w)\<lparr>w_visible := Placeholder, w_current := -1\<rparr>)
     else show_index
       (case (if keep_current
              then Option.bind (current_dashboard w) (\<lambda>p. index_of_id (d_id p) ds 0) else None) of
          Some i \<Rightarrow> i | None \<Rightarrow> 0)
       (swapped ds al w))"
    using set_dashboards_form [OF False assms(2)] by blast
  note s = swapped_facts [OF assms(1), of ds al]
  show ?thesis
  proof (cases "ds = []")
    case True
    let ?w = "(swapped ds al w)\<lparr>w_visible := Placeholder, w_current := -1\<rparr>"
    have "base_inv ?w" using s(1) by (subst base_inv_core [of _ "swapped ds al w"]) (simp_all add: core_def)
    moreover have "shown ?w" using s(2,3) True False by (simp add: shown_def)
    ultimately have "win_inv ?w" by (simp add: win_inv_def)
    then show ?thesis unfolding f using True by (simp add: win_inv_toast)
  next
    case ne: False
    then show ?thesis using s False by (simp add: f show_index_facts(1))
  qed
qed

subsection \<open>The window as a machine\<close>

datatype window_event =
    WinSetDashboards "dashboard list" bool
  | WinShow int
  | WinAction key_action
  | WinLoad load_event string
  | WinLoadFailed string
  | WinTimer nat
  | WinToast toast_message
  | WinStatus string
  | WinCaption caption
  | WinBlank bool
  | WinSetup setup_message bool
  | WinLeaveSetup
  | WinSystem string bool

fun win_step :: "window \<Rightarrow> window_event \<Rightarrow> window" where
  "win_step w (WinSetDashboards ds keep_current) = snd (set_dashboards ds keep_current w)"
| "win_step w (WinShow i) = show_index i w"
| "win_step w (WinAction a) = handle_action a w"
| "win_step w (WinLoad e i) = on_load_changed e i w"
| "win_step w (WinLoadFailed uri) = snd (on_load_failed uri w)"
| "win_step w (WinTimer i) = fire_source i w"
| "win_step w (WinToast t) = toast t w"
| "win_step w (WinStatus s) = set_status s w"
| "win_step w (WinCaption c) = set_enrolment_status c w"
| "win_step w (WinBlank b) = set_blanked b w"
| "win_step w (WinSetup m e) = setup_status m e w"
| "win_step w WinLeaveSetup = leave_setup w"
| "win_step w (WinSystem ip present) = w\<lparr>w_local_ip := ip, w_cec_present := present\<rparr>"

text \<open>The callers hand over only dashboards whose pages have addresses that parse.\<close>

fun win_guard :: "window_event \<Rightarrow> bool" where
  "win_guard (WinSetDashboards ds _) = list_all page_ok ds"
| "win_guard _ = True"

lemma evict_surplus_same: "same_but_views w (evict_surplus w)"
proof (induction w rule: evict_surplus.induct)
  case (1 w)
  show ?case
  proof (cases "view_limit w < length (w_views w)")
    case False
    then show ?thesis by (simp add: evict_surplus.simps [of w])
  next
    case True
    show ?thesis
    proof (cases "find_victim w")
      case None
      then show ?thesis by (simp add: evict_surplus.simps [of w])
    next
      case (Some v)
      have "evict_surplus w = evict_surplus (release_view v w)"
        using True Some by (simp add: evict_surplus.simps [of w])
      then show ?thesis
        using same_but_views_trans [OF release_view_same 1 [OF True Some]] by (simp only:)
    qed
  qed
qed

lemma view_for_config [simp]: "w_config (view_for d w) = w_config w"
  by (simp add: view_for_def touch_def same_but_viewsD(1) [OF evict_surplus_same])

lemma show_index_config [simp]: "w_config (show_index i w) = w_config w"
  by (simp add: show_index_def Let_def)

lemma drop_stale_config [simp]: "w_config (drop_stale_views live w) = w_config w"
proof -
  have "w_config (fold release_view ks w) = w_config w" for ks
    by (induction ks arbitrary: w) (simp_all add: same_but_viewsD(1) [OF release_view_same])
  then show ?thesis by (simp add: drop_stale_views_def)
qed

lemma small_step_config [simp]:
  "w_config (toggle_info w) = w_config w" "w_config (set_blanked b w) = w_config w"
  "w_config (set_status s w) = w_config w" "w_config (set_enrolment_status c w) = w_config w"
  "w_config (setup_status m e w) = w_config w" "w_config (leave_setup w) = w_config w"
  "w_config (fire_source i w) = w_config w" "w_config (on_load_changed ev j w) = w_config w"
  by (simp_all add: toggle_info_def set_blanked_def set_status_def set_enrolment_status_def
      setup_status_def leave_setup_def fire_source_def on_load_changed_def Let_def split: load_event.split)

lemma action_config [simp]: "w_config (handle_action a w) = w_config w"
proof (cases a)
  case (DigitAction d)
  then show ?thesis by (simp add: handle_action_def jump_to_digit_def Let_def)
next
  case (Act x)
  then show ?thesis
    by (cases x) (simp_all add: handle_action_def menu_step_action_def activate_def
        on_menu_activate_def step_action_def reload_current_def Let_def split: option.split)
qed

lemma load_failed_config [simp]: "w_config (snd (on_load_failed uri w)) = w_config w"
  by (simp add: on_load_failed_def Let_def split: option.split sum.split)

lemma set_dashboards_config [simp]: "w_config (snd (set_dashboards ds k w)) = w_config w"
  by (simp add: set_dashboards_def Let_def split: prod.split option.split)

lemma win_step_config: "w_config (win_step w e) = w_config w"
  by (cases e) simp_all

interpretation kiosk: bounded_machine win_step win_inv win_guard "\<lambda>w. length (w_views w)" view_limit
proof unfold_locales
  show "win_inv (win_step w e)" if "win_inv w" and "win_guard e" for w e
  proof (cases e)
    case (WinSystem ip present)
    then show ?thesis
      using that win_inv_frames(6) [where w = w and ip = ip]
        win_inv_frames(7) [where w = "w\<lparr>w_local_ip := ip\<rparr>" and b = present] by simp
  qed (use that in \<open>simp_all add: keep\<close>)
  show "length (w_views w) \<le> view_limit w" if "win_inv w" for w
    using that by (simp add: win_inv_def base_inv_def)
  show "view_limit (win_step w e) = view_limit w" for w e
    by (simp add: view_limit_def win_step_config)
qed

lemma make_window_inv:
  assumes "make_window c dirs = Inr w"
  shows "win_inv w" and "w_config w = c"
  using assms
  by (auto simp: make_window_def bind_result_Inr_iff Let_def win_inv_def base_inv_def views_inv_def
      view_ids_def toast_inv_def shown_def make_menu_inv) (simp_all add: make_menu_def)

end
