(* ===== verification/Api.thy ===== *)
theory Api
  imports Config Models
begin

text \<open>
  \<open>api.py\<close>: the client of the server's REST interface and the cache of its last good answer.
  What \<open>urlopen\<close> does with a request is a parameter: it is not code of this repository. It
  answers, answers with an HTTP error status, fails with one of the exceptions the code
  names (\<open>URLError\<close>, \<open>OSError\<close>, \<open>SSLError\<close>), or raises something else. The lemmas say how every
  outcome is classified, which entries of an answer become dashboards, and that the cache
  gives back what was saved.
\<close>

section \<open>What the server says\<close>

definition CLIENT_CONFIG_PATH :: string where
  "CLIENT_CONFIG_PATH = ''/api/v1/client/config''"

definition REGISTER_PATH :: string where
  "REGISTER_PATH = ''/api/v1/client/register''"

definition DEVICE_TYPE :: string where "DEVICE_TYPE = ''raspberry_pi''"

definition LABEL_MAX_LEN :: nat where "LABEL_MAX_LEN = 120"

record registration =
  reg_status :: string
  reg_token :: string

definition reg_pending :: "registration \<Rightarrow> bool" where
  "reg_pending r \<longleftrightarrow> reg_status r = ''pending''"

definition reg_approved :: "registration \<Rightarrow> bool" where
  "reg_approved r \<longleftrightarrow> reg_status r = ''approved''"

definition COLLECTION_KEYS :: "string list" where
  "COLLECTION_KEYS = [''allowedDashboards'', ''dashboards'', ''data'', ''items'', ''results'']"

record client_config =
  dashboards :: "dashboard list"
  default_dashboard_id :: "string option"

definition empty_client_config :: client_config where
  "empty_client_config = \<lparr>dashboards = [], default_dashboard_id = None\<rparr>"

fun first_collection :: "(string \<times> json) list \<Rightarrow> string list \<Rightarrow> json list option" where
  "first_collection payload [] = None"
| "first_collection payload (k # ks) =
     (case map_of payload k of
        Some (JList xs) \<Rightarrow> Some xs
      | _ \<Rightarrow> first_collection payload ks)"

definition unwrap_collection :: "json \<Rightarrow> json list result" where
  "unwrap_collection payload =
     (case payload of
        JList xs \<Rightarrow> Inr xs
      | JDict kvs \<Rightarrow>
          (case first_collection kvs COLLECTION_KEYS of
             Some xs \<Rightarrow> Inr xs
           | None \<Rightarrow> Inl (ApiError NoCollection))
      | _ \<Rightarrow> Inl (ApiError NoCollection))"

text \<open>The loop of \<open>parse_client_config\<close>: an entry that is no object, is disabled, or makes
  \<open>from_payload\<close> raise a ValueError is skipped; any other exception ends the loop.\<close>

fun parse_entries :: "string \<Rightarrow> json list \<Rightarrow> dashboard list result" where
  "parse_entries base_url [] = Inr []"
| "parse_entries base_url (entry # entries) =
     (case entry of
        JDict kvs \<Rightarrow>
          if \<not> is_enabled kvs then parse_entries base_url entries
          else
            (case from_payload kvs base_url of
               Inr d \<Rightarrow> bind_result (parse_entries base_url entries) (\<lambda>ds. Inr (d # ds))
             | Inl (ValueError _) \<Rightarrow> parse_entries base_url entries
             | Inl e \<Rightarrow> Inl e)
      | _ \<Rightarrow> parse_entries base_url entries)"

definition default_id :: "json \<Rightarrow> string option" where
  "default_id payload =
     (case payload of
        JDict kvs \<Rightarrow>
          (case map_of kvs ''defaultDashboardId'' of
             Some v \<Rightarrow> if truthy v then Some (py_str v) else None
           | None \<Rightarrow> None)
      | _ \<Rightarrow> None)"

definition parse_client_config :: "json \<Rightarrow> string \<Rightarrow> client_config result" where
  "parse_client_config payload base_url =
     bind_result (unwrap_collection payload) (\<lambda>entries.
       bind_result (parse_entries base_url entries) (\<lambda>ds.
         Inr \<lparr>dashboards = sort_dashboards ds, default_dashboard_id = default_id payload\<rparr>))"

section \<open>Requests\<close>

record http_request =
  rq_method :: string
  rq_url :: string
  rq_body :: "json option"
  rq_headers :: "(string \<times> string) list"
  rq_timeout :: int
  rq_verify :: bool

text \<open>What \<open>json.loads\<close> makes of the body: a value; or it is no JSON, is no text, holds an integer
  of too many digits, or is nested too deeply, with the exceptions of \<open>read_json\<close>.\<close>

datatype http_body = JsonText json | OtherText | NotUtf8Text | LongNumberText | TooDeepText

datatype http_outcome =
    StatusError int
  | NetworkFailure
  | OtherFailure py_error
  | Answer string http_body

definition base_url :: "config \<Rightarrow> string" where
  "base_url config = rstrip_by (\<lambda>c. c = CHR ''/'') (server_url config)"

text \<open>\<open>urllib.request.Request\<close> insists on a scheme: characters other than \<open>/\<close> and \<open>:\<close>, then \<open>:\<close>.\<close>

definition has_url_type :: "string \<Rightarrow> bool" where
  "has_url_type url \<longleftrightarrow>
     (let s = takeWhile (\<lambda>c. c \<noteq> CHR ''/'' \<and> c \<noteq> CHR '':'') url
      in s \<noteq> [] \<and> starts_with '':'' (drop (length s) url))"

definition make_request :: "config \<Rightarrow> string \<Rightarrow> string \<Rightarrow> json option \<Rightarrow> http_request" where
  "make_request config meth path body =
     \<lparr>rq_method = meth, rq_url = base_url config @ path, rq_body = body,
      rq_headers =
        [(''Accept'', ''application/json''),
         (''User-Agent'', ''visiontak-client ('' @ device_id config @ '')'')] @
        (if body \<noteq> None then [(''Content-Type'', ''application/json'')] else []) @
        (if api_token config \<noteq> [] then [(''Authorization'', ''Bearer '' @ api_token config)] else []),
      rq_timeout = request_timeout config, rq_verify = verify_tls config\<rparr>"

text \<open>\<open>_request\<close>: \<open>urlopen\<close> is the parameter.\<close>

definition api_request ::
  "config \<Rightarrow> (http_request \<Rightarrow> http_outcome) \<Rightarrow> string \<Rightarrow> string \<Rightarrow> json option \<Rightarrow> json result" where
  "api_request config urlopen meth path body =
     (if base_url config = [] then Inl (ApiError ServerUrlMissing)
      else if \<not> has_url_type (base_url config @ path) then Inl (ValueError InvalidUrl)
      else
        (case urlopen (make_request config meth path body) of
           StatusError code \<Rightarrow>
             if code \<in> {401, 403} then Inl (AuthError code) else Inl (ApiError (HttpStatus code))
         | NetworkFailure \<Rightarrow> Inl (ApiError Unreachable)
         | OtherFailure e \<Rightarrow> Inl e
         | Answer content_type body \<Rightarrow>
             if \<not> py_contains ''json'' (py_lower content_type)
             then Inl (ApiError (NotJsonContent content_type))
             else
               (case body of
                  JsonText v \<Rightarrow> Inr v
                | OtherText \<Rightarrow> Inl (ApiError NotJsonBody)
                | NotUtf8Text \<Rightarrow> Inl (ValueError UnicodeDecodeError)
                | LongNumberText \<Rightarrow> Inl (ValueError NotAnInt)
                | TooDeepText \<Rightarrow> Inl RuntimeError)))"

definition fetch_client_config ::
  "config \<Rightarrow> (http_request \<Rightarrow> http_outcome) \<Rightarrow> client_config result" where
  "fetch_client_config config urlopen =
     bind_result (api_request config urlopen ''GET'' CLIENT_CONFIG_PATH None)
       (\<lambda>payload. parse_client_config payload (base_url config))"

definition register_payload :: "config \<Rightarrow> string \<Rightarrow> json" where
  "register_payload config label =
     JDict ([(''deviceId'', JStr (device_id config)), (''deviceType'', JStr DEVICE_TYPE)] @
       (if label \<noteq> [] then [(''label'', JStr (take LABEL_MAX_LEN label))] else []))"

definition register ::
  "config \<Rightarrow> (http_request \<Rightarrow> http_outcome) \<Rightarrow> string \<Rightarrow> registration result" where
  "register config urlopen label =
     bind_result (api_request config urlopen ''POST'' REGISTER_PATH (Some (register_payload config label)))
       (\<lambda>body. case body of
          JDict kvs \<Rightarrow>
            Inr \<lparr>reg_status =
                   (case map_of kvs ''status'' of
                      Some v \<Rightarrow> if truthy v then py_str v else []
                    | None \<Rightarrow> []),
                 reg_token = (case map_of kvs ''token'' of Some (JStr t) \<Rightarrow> t | _ \<Rightarrow> [])\<rparr>
        | _ \<Rightarrow> Inl (ApiError NotAnObject))"

section \<open>The cache\<close>

text \<open>\<open>Config.cache_dir\<close>, as the text of the path.\<close>

definition cache_dir :: "environ \<Rightarrow> string" where
  "cache_dir env =
     (case env_get env ''SNAP_COMMON'' of Some d \<Rightarrow> d | None \<Rightarrow> base_dir env) @ ''/cache''"

definition cache_path :: "string \<Rightarrow> path" where
  "cache_path dir = (dir, ''client-config.json'')"

definition cache_tmp :: "string \<Rightarrow> path" where
  "cache_tmp dir = (dir, ''client-config.tmp'')"

definition cache_payload :: "client_config \<Rightarrow> json" where
  "cache_payload cc =
     JDict
       [(''defaultDashboardId'',
         (case default_dashboard_id cc of Some i \<Rightarrow> JStr i | None \<Rightarrow> JNull)),
        (''allowedDashboards'',
         JList (map (\<lambda>d. JDict [(''id'', JStr (d_id d)), (''name'', JStr (d_name d)),
                               (''sortOrder'', JInt (d_order d))]) (dashboards cc)))]"

definition cache_save_ops :: "string \<Rightarrow> client_config \<Rightarrow> fs_op list" where
  "cache_save_ops dir cc =
     [Mkdir dir, WriteText (cache_tmp dir) (cache_payload cc),
      Replace (cache_tmp dir) (cache_path dir)]"

definition cache_save ::
  "(fs_op \<Rightarrow> bool) \<Rightarrow> string \<Rightarrow> client_config \<Rightarrow> fs \<Rightarrow> py_error option \<times> fs" where
  "cache_save fails dir cc fs = run_ops fails (cache_save_ops dir cc) fs"

definition cache_load :: "string \<Rightarrow> fs \<Rightarrow> string \<Rightarrow> client_config result" where
  "cache_load dir fs base =
     (if fs (cache_path dir) = Hidden then Inl OSError
      else if \<not> is_file fs (cache_path dir) then Inr empty_client_config
      else
        (case bind_result (read_json fs (cache_path dir)) (\<lambda>v. parse_client_config v base) of
           Inr cc \<Rightarrow> Inr cc
         | Inl (ValueError JsonDecodeError) \<Rightarrow> Inr empty_client_config
         | Inl (ApiError _) \<Rightarrow> Inr empty_client_config
         | Inl (AuthError _) \<Rightarrow> Inr empty_client_config
         | Inl OSError \<Rightarrow> Inr empty_client_config
         | Inl e \<Rightarrow> Inl e))"

interpretation cache_file: atomic_writer
  "cache_save_ops dir" "\<lambda>cc. [Mkdir dir, WriteText (cache_tmp dir) (cache_payload cc)]"
  "cache_tmp dir" "cache_path dir" cache_payload for dir
  by unfold_locales (auto simp: cache_save_ops_def cache_tmp_def cache_path_def)

section \<open>Facts about answers\<close>

text \<open>What an entry contributes when nothing but ValueErrors occurs.\<close>

definition entry_dashboard :: "string \<Rightarrow> json \<Rightarrow> dashboard option" where
  "entry_dashboard base entry =
     (case entry of
        JDict kvs \<Rightarrow>
          if is_enabled kvs then (case from_payload kvs base of Inr d \<Rightarrow> Some d | Inl _ \<Rightarrow> None)
          else None
      | _ \<Rightarrow> None)"

lemma parse_entries_Inr:
  "parse_entries base es = Inr ds \<Longrightarrow> ds = List.map_filter (entry_dashboard base) es"
  by (induction es arbitrary: ds)
    (auto simp: List.map_filter_simps entry_dashboard_def bind_result_Inr_iff
      split: json.splits sum.splits py_error.splits if_splits)

definition infinite_order :: "json \<Rightarrow> bool" where
  "infinite_order entry \<longleftrightarrow>
     (case entry of
        JDict kvs \<Rightarrow> is_enabled kvs \<and> pick kvs OrderField \<in> {JFloat PosInf, JFloat NegInf}
      | _ \<Rightarrow> False)"

lemma parse_entries_Inl:
  "parse_entries base es = Inl e \<Longrightarrow> e = OverflowError \<and> (\<exists>entry \<in> set es. infinite_order entry)"
proof (induction es)
  case Nil
  then show ?case by simp
next
  case (Cons entry es)
  show ?case
  proof (cases entry)
    case (JDict kvs)
    show ?thesis
    proof (cases "is_enabled kvs")
      case False
      then show ?thesis using Cons JDict by auto
    next
      case True
      show ?thesis
      proof (cases "from_payload kvs base")
        case (Inl x)
        then show ?thesis
          using Cons JDict True from_payload_error [OF Inl]
          by (auto simp: infinite_order_def split: py_error.splits)
      next
        case (Inr d)
        then show ?thesis using Cons JDict True by (auto simp: bind_result_Inl_iff)
      qed
    qed
  qed (use Cons in auto)
qed

lemma unwrap_collection_error: "unwrap_collection payload = Inl e \<Longrightarrow> e = ApiError NoCollection"
  by (auto simp: unwrap_collection_def split: json.splits option.splits)

lemma parse_client_config_error:
  "parse_client_config payload base = Inl e \<Longrightarrow> e = ApiError NoCollection \<or> e = OverflowError"
  by (auto simp: parse_client_config_def bind_result_Inl_iff
      dest: unwrap_collection_error parse_entries_Inl)

lemma entry_dashboard_url:
  "entry_dashboard base e = Some d \<Longrightarrow> d_url d = view_url base (d_id d)"
  by (auto simp: entry_dashboard_def dest: from_payload_Inr
      split: json.splits if_splits sum.splits)

lemma set_map_filter: "set (List.map_filter f xs) = {y. \<exists>x \<in> set xs. f x = Some y}"
  by (force simp: List.map_filter_def)

text \<open>Every dashboard of an answer has the page the server renders for its id.\<close>

lemma parse_client_config_urls:
  assumes "parse_client_config payload base = Inr cc" and "d \<in> set (dashboards cc)"
  shows "d_url d = view_url base (d_id d)"
  using assms
  by (auto simp: parse_client_config_def bind_result_Inr_iff set_map_filter
      dest!: parse_entries_Inr entry_dashboard_url)

section \<open>Facts about the cache\<close>

definition cached_entry :: "dashboard \<Rightarrow> json" where
  "cached_entry d =
     JDict [(''id'', JStr (d_id d)), (''name'', JStr (d_name d)), (''sortOrder'', JInt (d_order d))]"

text \<open>What survives in the cache: everything but the group.\<close>

definition without_group :: "dashboard \<Rightarrow> dashboard" where
  "without_group d = d\<lparr>d_group := []\<rparr>"

lemma entry_dashboard_cached:
  assumes "d_id d \<noteq> []" and "d_name d \<noteq> []" and "d_url d = view_url base (d_id d)"
  shows "from_payload [(''id'', JStr (d_id d)), (''name'', JStr (d_name d)),
      (''sortOrder'', JInt (d_order d))] base = Inr (without_group d)"
  using assms
  by (simp add: from_payload_def pick_def aliases_def Let_def as_order_def without_group_def)

lemma is_enabled_cached:
  "is_enabled [(''id'', x), (''name'', y), (''sortOrder'', z)]"
  by (simp add: is_enabled_def pick_def aliases_def)

lemma parse_entries_cached:
  assumes "\<forall>d \<in> set ds. d_id d \<noteq> [] \<and> d_name d \<noteq> [] \<and> d_url d = view_url base (d_id d)"
  shows "parse_entries base (map cached_entry ds) = Inr (map without_group ds)"
  using assms
  by (induction ds) (auto simp: cached_entry_def is_enabled_cached entry_dashboard_cached)

lemma without_group_key [simp]: "dashboard_key (without_group d) = dashboard_key d"
  by (simp add: without_group_def dashboard_key_def)

lemma cache_payload_parse:
  assumes "\<forall>d \<in> set (dashboards cc). d_id d \<noteq> [] \<and> d_name d \<noteq> [] \<and> d_url d = view_url base (d_id d)"
    and "sorted (map dashboard_key (dashboards cc))" and "default_dashboard_id cc \<noteq> Some []"
  shows "parse_client_config (cache_payload cc) base =
    Inr (cc\<lparr>dashboards := map without_group (dashboards cc)\<rparr>)"
proof -
  have "sorted (map dashboard_key (map without_group (dashboards cc)))"
    using assms(2) by (simp add: comp_def)
  then have "sort_dashboards (map without_group (dashboards cc)) = map without_group (dashboards cc)"
    by (rule sort_dashboards_fixpoint)
  moreover have "unwrap_collection (cache_payload cc) = Inr (map cached_entry (dashboards cc))"
    by (auto simp: cache_payload_def unwrap_collection_def COLLECTION_KEYS_def cached_entry_def
        split: option.split)
  moreover have "default_id (cache_payload cc) = default_dashboard_id cc"
    using assms(3) by (auto simp: default_id_def cache_payload_def split: option.split)
  ultimately show ?thesis
    using parse_entries_cached [OF assms(1)] by (simp add: parse_client_config_def)
qed

lemma sorted_dashboards:
  "parse_client_config payload base = Inr cc \<Longrightarrow> sorted (map dashboard_key (dashboards cc))"
  by (auto simp: parse_client_config_def bind_result_Inr_iff sort_dashboards_sorted)

lemma fetch_parse:
  "fetch_client_config config urlopen = Inr cc \<Longrightarrow>
     \<exists>payload. api_request config urlopen ''GET'' CLIENT_CONFIG_PATH None = Inr payload \<and>
       parse_client_config payload (base_url config) = Inr cc"
  by (auto simp: fetch_client_config_def bind_result_Inr_iff)

lemma api_request_Inr:
  "api_request config urlopen meth path body = Inr v \<Longrightarrow>
     \<exists>ct. urlopen (make_request config meth path body) = Answer ct (JsonText v) \<and>
       py_contains ''json'' (py_lower ct)"
  by (auto simp: api_request_def split: if_splits http_outcome.splits http_body.splits)

lemma cache_restores:
  assumes "fetch_client_config config urlopen = Inr cc"
    and "\<forall>d \<in> set (dashboards cc). d_id d \<noteq> [] \<and> d_name d \<noteq> []"
    and "default_dashboard_id cc \<noteq> Some []"
    and "cache_save fails dir cc fs = (None, fs')"
  shows "cache_load dir fs' (base_url config) =
    Inr (cc\<lparr>dashboards := map (\<lambda>d. d\<lparr>d_group := []\<rparr>) (dashboards cc)\<rparr>)"
proof -
  obtain payload where p: "parse_client_config payload (base_url config) = Inr cc"
    using fetch_parse [OF assms(1)] by blast
  have "fs' (cache_path dir) = Document (cache_payload cc)"
    using assms(4) unfolding cache_save_def by (rule cache_file.succeeded)
  moreover have "parse_client_config (cache_payload cc) (base_url config) =
      Inr (cc\<lparr>dashboards := map without_group (dashboards cc)\<rparr>)"
    using assms(2,3) parse_client_config_urls [OF p] sorted_dashboards [OF p]
    by (intro cache_payload_parse) auto
  ultimately show ?thesis
    by (simp add: cache_load_def is_file_def read_json_def without_group_def)
qed

section \<open>Two threads at the cache\<close>

text \<open>Every save goes through the same temporary file. Operations of two threads, each with the
  thread it belongs to, in the order in which they happen: the first one that raises, if any,
  with its thread. \<open>Path.replace\<close> raises for a file that is no longer there.\<close>

fun run_shared :: "(nat \<times> fs_op) list \<Rightarrow> fs \<Rightarrow> (nat \<times> py_error) option \<times> fs" where
  "run_shared [] fs = (None, fs)"
| "run_shared ((t, x) # xs) fs =
     (case x of
        Replace p q \<Rightarrow> if fs p = Absent then (Some (t, OSError), fs) else run_shared xs (do_op x fs)
      | _ \<Rightarrow> run_shared xs (do_op x fs))"

lemma run_shared_alone:
  "run_shared (map (Pair t) (cache_save_ops dir cc)) fs = (None, snd (cache_save (\<lambda>_. False) dir cc fs))"
  by (simp add: cache_save_ops_def cache_save_def cache_tmp_def cache_path_def)

text \<open>Two saves whose operations interleave can collide although the disk refuses nothing: one
  thread renames what the other wrote, and the other one raises.\<close>

theorem concurrent_saves_collide:
  "\<exists>ops \<in> shuffles (map (Pair 0) (cache_save_ops dir cc)) (map (Pair 1) (cache_save_ops dir cc')).
     \<exists>fs'. run_shared ops fs = (Some (1, OSError), fs') \<and> fs' (cache_path dir) = Document (cache_payload cc')"
  by (intro bexI [of _ "[(0, Mkdir dir), (0, WriteText (cache_tmp dir) (cache_payload cc)), (1, Mkdir dir),
        (1, WriteText (cache_tmp dir) (cache_payload cc')), (0, Replace (cache_tmp dir) (cache_path dir)),
        (1, Replace (cache_tmp dir) (cache_path dir))]"])
    (simp_all add: cache_save_ops_def cache_tmp_def cache_path_def Cons_in_shuffles_iff)

section \<open>Properties\<close>

text \<open>C32. What a successful fetch shows: the server answered the one GET request with JSON, and
  the dashboards are exactly the enabled, usable entries of the answer's collection, sorted,
  each with the page \<open>{server}/view/{id}\<close>. Nothing outside the collection is ever shown.\<close>

theorem fetch_shows_answer:
  assumes "fetch_client_config config urlopen = Inr cc"
  shows "\<exists>content_type payload entries.
    urlopen (make_request config ''GET'' CLIENT_CONFIG_PATH None) = Answer content_type (JsonText payload) \<and>
    unwrap_collection payload = Inr entries \<and>
    dashboards cc = sort_dashboards (List.map_filter (entry_dashboard (base_url config)) entries) \<and>
    (\<forall>d \<in> set (dashboards cc). d_url d = view_url (base_url config) (d_id d)) \<and>
    default_dashboard_id cc = default_id payload"
proof -
  from fetch_parse [OF assms] obtain payload where
    r: "api_request config urlopen ''GET'' CLIENT_CONFIG_PATH None = Inr payload"
    and p: "parse_client_config payload (base_url config) = Inr cc" by blast
  from p obtain entries ds where e: "unwrap_collection payload = Inr entries"
    and ds: "parse_entries (base_url config) entries = Inr ds"
    and cc: "cc = \<lparr>dashboards = sort_dashboards ds, default_dashboard_id = default_id payload\<rparr>"
    by (auto simp: parse_client_config_def bind_result_Inr_iff)
  show ?thesis
    using api_request_Inr [OF r] e cc parse_entries_Inr [OF ds] parse_client_config_urls [OF p]
    by auto
qed

lemma fetch_shows_answer_witness:
  "\<exists>d. fetch_client_config (default_config\<lparr>server_url := ''http://vt''\<rparr>)
      (\<lambda>_. Answer ''application/json'' (JsonText (JDict [(''allowedDashboards'',
         JList [JDict [(''id'', JStr ''a'')], JDict [(''id'', JStr ''b''), (''enabled'', JBool False)], JNull])])))
    = Inr \<lparr>dashboards = [d], default_dashboard_id = None\<rparr> \<and> d_url d = ''http://vt/view/a''"
proof -
  let ?d = "\<lparr>d_id = ''a'', d_name = ''a'', d_url = ''http://vt/view/a'', d_order = 0, d_group = []\<rparr>"
  have f: "fetch_client_config (default_config\<lparr>server_url := ''http://vt''\<rparr>)
      (\<lambda>_. Answer ''application/json'' (JsonText (JDict [(''allowedDashboards'',
         JList [JDict [(''id'', JStr ''a'')], JDict [(''id'', JStr ''b''), (''enabled'', JBool False)], JNull])])))
    = Inr \<lparr>dashboards = [?d], default_dashboard_id = None\<rparr>"
    by code_simp
  show ?thesis using f fetch_shows_answer [OF f] by auto
qed

text \<open>How failures are told apart. Where \<open>urlopen\<close> raises only what the code expects, a fetch
  fails with \<open>AuthError\<close> exactly when the server answered 401 or 403; every other failure of the
  network, of the status, of the content type or of the JSON is an \<open>ApiError\<close>. What is left is a
  server address without a scheme, an answer that is not UTF-8, holds too long a number or is
  nested too deeply, and an infinite sort order: those raise other exceptions.\<close>

theorem fetch_failures:
  assumes "\<And>rq e. urlopen rq \<noteq> OtherFailure e" and "fetch_client_config config urlopen = Inl e"
  shows "(\<exists>code. e = AuthError code \<and> (code = 401 \<or> code = 403) \<and>
       urlopen (make_request config ''GET'' CLIENT_CONFIG_PATH None) = StatusError code) \<or>
    (\<exists>reason. e = ApiError reason \<and> (\<forall>code. reason = HttpStatus code \<longrightarrow> code \<noteq> 401 \<and> code \<noteq> 403)) \<or>
    (e = ValueError InvalidUrl \<and> \<not> has_url_type (base_url config @ CLIENT_CONFIG_PATH)) \<or>
    e \<in> {ValueError UnicodeDecodeError, ValueError NotAnInt, RuntimeError, OverflowError}"
proof (cases "api_request config urlopen ''GET'' CLIENT_CONFIG_PATH None")
  case (Inr payload)
  then have "parse_client_config payload (base_url config) = Inl e"
    using assms(2) by (simp add: fetch_client_config_def)
  then show ?thesis by (auto dest: parse_client_config_error)
next
  case (Inl x)
  then show ?thesis
    using assms
    by (auto simp: fetch_client_config_def api_request_def
        split: if_splits http_outcome.splits http_body.splits)
qed

lemma fetch_failures_witness:
  "fetch_client_config (default_config\<lparr>server_url := ''http://vt''\<rparr>) (\<lambda>_. StatusError 403)
    = Inl (AuthError 403) \<and>
   fetch_client_config (default_config\<lparr>server_url := ''http://vt''\<rparr>) (\<lambda>_. Answer ''text/html'' OtherText)
    = Inl (ApiError (NotJsonContent ''text/html''))"
proof -
  have a: "fetch_client_config (default_config\<lparr>server_url := ''http://vt''\<rparr>) (\<lambda>_. StatusError 403)
      = Inl (AuthError 403)"
    and b: "fetch_client_config (default_config\<lparr>server_url := ''http://vt''\<rparr>)
      (\<lambda>_. Answer ''text/html'' OtherText) = Inl (ApiError (NotJsonContent ''text/html''))"
    by code_simp+
  show ?thesis using a b fetch_failures [OF _ a] by simp
qed

text \<open>The cache gives back what was fetched. After a fetch whose dashboards have ids and
  names, a save that worked, and any later start against the same server, the cached
  configuration is the fetched one, order included; only the group of each dashboard is
  lost, which the cache does not write.\<close>

theorem cache_round_trip:
  assumes "fetch_client_config config urlopen = Inr cc"
    and "\<forall>d \<in> set (dashboards cc). d_id d \<noteq> [] \<and> d_name d \<noteq> []"
    and "default_dashboard_id cc \<noteq> Some []"
    and "cache_save fails dir cc fs = (None, fs')"
  shows "cache_load dir fs' (base_url config) =
    Inr (cc\<lparr>dashboards := map (\<lambda>d. d\<lparr>d_group := []\<rparr>) (dashboards cc)\<rparr>)"
  by (rule cache_restores [OF assms])

lemma cache_round_trip_witness:
  "\<exists>(cc :: client_config) fs'. cache_load ''c'' fs' ''http://vt'' = Inr cc \<and> map d_id (dashboards cc) = [''b'', ''a'']"
proof -
  let ?c = "default_config\<lparr>server_url := ''http://vt''\<rparr>"
  let ?u = "\<lambda>_. Answer ''application/json'' (JsonText (JList
      [JDict [(''id'', JStr ''a''), (''order'', JInt 2), (''group'', JStr ''g'')],
       JDict [(''id'', JStr ''b''), (''order'', JInt 1)]]))"
  let ?a = "\<lparr>d_id = ''a'', d_name = ''a'', d_url = ''http://vt/view/a'', d_order = 2, d_group = ''g''\<rparr>"
  let ?b = "\<lparr>d_id = ''b'', d_name = ''b'', d_url = ''http://vt/view/b'', d_order = 1, d_group = []\<rparr>"
  let ?cc = "\<lparr>dashboards = [?b, ?a], default_dashboard_id = None\<rparr>"
  have f: "fetch_client_config ?c ?u = Inr ?cc" by code_simp
  have b: "base_url ?c = ''http://vt''" by code_simp
  have s: "cache_save (\<lambda>_. False) ''c'' ?cc (\<lambda>_. Absent) =
      (None, snd (cache_save (\<lambda>_. False) ''c'' ?cc (\<lambda>_. Absent)))"
    by (rule prod_eqI) (simp_all add: cache_save_def run_ops_never_fails)
  have "cache_load ''c'' (snd (cache_save (\<lambda>_. False) ''c'' ?cc (\<lambda>_. Absent))) (base_url ?c) =
      Inr (?cc\<lparr>dashboards := map (\<lambda>d. d\<lparr>d_group := []\<rparr>) (dashboards ?cc)\<rparr>)"
    by (rule cache_round_trip [OF f _ _ s]) simp_all
  then show ?thesis unfolding b by (intro exI conjI) (assumption, simp)
qed

text \<open>C33. Which bad caches are not ignored. Loading the cache raises only for a file that cannot
  even be looked up, that is not UTF-8 (a UnicodeDecodeError is not the JSONDecodeError the
  code catches), that holds an integer of more digits than the interpreter reads, that is nested
  too deeply for it, or that lists an enabled entry with an infinite sort order.\<close>

theorem cache_load_raises_only:
  assumes "cache_load dir fs base = Inl e"
  shows "(fs (cache_path dir), e) \<in> {(Hidden, OSError), (NotText, ValueError UnicodeDecodeError),
      (LongNumber, ValueError NotAnInt), (TooDeep, RuntimeError)} \<or>
    (e = OverflowError \<and> (\<exists>payload entries entry. fs (cache_path dir) = Document payload \<and>
       unwrap_collection payload = Inr entries \<and> entry \<in> set entries \<and> infinite_order entry))"
proof (cases "fs (cache_path dir)")
  case (Document payload)
  then have "parse_client_config payload base = Inl e" and "e \<noteq> ApiError NoCollection"
    using assms
    by (auto simp: cache_load_def is_file_def read_json_def
        split: sum.splits py_error.splits value_error.splits)
  then show ?thesis
    using Document
    by (auto simp: parse_client_config_def bind_result_Inl_iff
        dest!: unwrap_collection_error parse_entries_Inl)
qed (use assms in \<open>auto simp: cache_load_def is_file_def read_json_def\<close>)

lemma cache_load_raises_only_witness:
  "cache_load ''c'' (\<lambda>_. NotText) ''http://vt'' = Inl (ValueError UnicodeDecodeError)"
proof -
  have e: "cache_load ''c'' (\<lambda>_. NotText) ''http://vt'' = Inl (ValueError UnicodeDecodeError)"
    by code_simp
  show ?thesis using e cache_load_raises_only [OF e] by blast
qed

end
