(* ===== verification/Firstrun.thy ===== *)
theory Firstrun
  imports Api Discovery
begin

text \<open>
  \<open>firstrun.py\<close>: the first boot. The server's address is taken from DHCP if none is
  configured, the device registers, and both the address and an issued token are recorded.
  Recording goes through the settings store of \<open>config.py\<close> (its interpretation
  \<open>self_config\<close>), and the lemmas say that what was recorded is in force at the next start and
  that a token is never lost for want of a writable disk.
\<close>

definition POLL_SECONDS :: int where "POLL_SECONDS = 20"

section \<open>Discovery and registration\<close>

text \<open>\<open>discover\<close>: the configuration to go on with, the files and the mirrored settings. Any
  exception of \<open>persist\<close> is only logged; one of the discovery itself is not caught.\<close>

definition discover ::
  "(fs_op \<Rightarrow> bool) \<Rightarrow> environ \<Rightarrow> lease_dir list \<Rightarrow> config \<Rightarrow> fs \<Rightarrow>
   (config \<times> fs \<times> (string \<times> string) list) result" where
  "discover fails env dirs config fs =
     (if server_url config \<noteq> [] then Inr (config, fs, [])
      else bind_result (discover_server_url dirs) (\<lambda>url.
        if url = [] then Inr (config, fs, [])
        else
          (case persist fails env None ''server-url'' url fs of
             (_, fs', cmds) \<Rightarrow> Inr (config\<lparr>server_url := url\<rparr>, fs', cmds))))"

definition attempt_registration ::
  "(fs_op \<Rightarrow> bool) \<Rightarrow> environ \<Rightarrow> (http_request \<Rightarrow> http_outcome) \<Rightarrow> config \<Rightarrow> fs \<Rightarrow>
   (registration option \<times> config \<times> fs \<times> (string \<times> string) list) result" where
  "attempt_registration fails env urlopen config fs =
     (if server_url config = [] \<or> api_token config \<noteq> [] then Inr (None, config, fs, [])
      else
        (case register config urlopen (osd_name config) of
           Inl (ApiError _) \<Rightarrow> Inr (None, config, fs, [])
         | Inl (AuthError _) \<Rightarrow> Inr (None, config, fs, [])
         | Inl e \<Rightarrow> Inl e
         | Inr r \<Rightarrow>
             if reg_pending r then Inr (Some r, config, fs, [])
             else if reg_approved r \<and> reg_token r \<noteq> [] then
               (case persist fails env None ''api-token'' (reg_token r) fs of
                  (_, fs', cmds) \<Rightarrow> Inr (Some r, config\<lparr>api_token := reg_token r\<rparr>, fs', cmds))
             else Inr (Some r, config, fs, [])))"

section \<open>What is recorded is in force at the next start\<close>

text \<open>An address that discovery found is not one of white space only.\<close>

lemma discovered_not_blank:
  assumes "discover_server_url dirs = Inr url" and "url \<noteq> []"
  shows "py_strip url \<noteq> []"
proof -
  have "server_url_ok url" using discover_well_formed [of dirs] assms by simp
  then obtain scheme rest where s: "scheme \<in> {''http'', ''https''}" "url = scheme @ ''://'' @ rest"
    unfolding server_url_ok_def by blast
  have "prefix ''h'' (py_strip (''h'' @ tl url))"
    by (rule strip_keeps_prefix) (auto simp: is_space_def cp_def)
  moreover have "''h'' @ tl url = url" using s by auto
  ultimately show ?thesis by (auto simp: prefix_def)
qed

section \<open>Properties\<close>

text \<open>C25. Enrolment survives a restart. On a device without an address or token, let discovery
  find an address and the server approve the device with a token that is not just white space,
  and let both saves work. Then first boot ends with both in its configuration; and every later
  start, whatever else was saved or failed to be saved and whatever happened to the other files,
  loads both, unless the hook's file or the environment sets them explicitly, and neither looks
  for an address nor asks to be enrolled again: whatever the leases and the server would
  answer, the configuration, the files and snapd's settings stay as they are.\<close>

theorem enrolment_survives_restart:
  assumes "server_url c = []" and "api_token c = []"
    and "discover_server_url dirs = Inr url" and "url \<noteq> []"
    and "persist fails env None ''server-url'' url fs = (None, fs1, cmds1)"
    and "register (c\<lparr>server_url := url\<rparr>) urlopen (osd_name c) = Inr r"
    and "reg_approved r" and "py_strip (reg_token r) \<noteq> []"
    and "persist fails env None ''api-token'' (reg_token r) fs1 = (None, fs2, cmds2)"
    and "list_all (\<lambda>e. spares (data_dir_or None env) ''server-url'' e \<and>
      spares (data_dir_or None env) ''api-token'' e) events"
    and "fs3 = foldl (file_step env None) fs2 events"
    and "file_value (fs3 (config_path (data_dir_or None env))) ''server_url'' = None"
    and "file_value (fs3 (config_path (data_dir_or None env))) ''api_token'' = None"
    and "env_value env ''server_url'' = None" and "env_value env ''api_token'' = None"
    and "load fs3 env None meminfo hostname = Inr later"
  shows "discover fails env dirs c fs = Inr (c\<lparr>server_url := url\<rparr>, fs1, cmds1) \<and>
    attempt_registration fails env urlopen (c\<lparr>server_url := url\<rparr>) fs1 =
      Inr (Some r, c\<lparr>server_url := url, api_token := reg_token r\<rparr>, fs2, cmds2) \<and>
    server_url later = py_strip url \<and> api_token later = py_strip (reg_token r) \<and>
    discover fails' env dirs' later fs3 = Inr (later, fs3, []) \<and>
    attempt_registration fails' env urlopen' later fs3 = Inr (None, later, fs3, [])"
proof -
  let ?dir = "data_dir_or None env"
  have keys: "config_key SnapStyle ''server_url'' = ''server-url''"
    "config_key SnapStyle ''api_token'' = ''api-token''" by code_simp+
  have token: "reg_token r \<noteq> []" using assms(8) by auto
  have events: "list_all (spares ?dir ''server-url'') (Persists fails ''api-token'' (reg_token r) # events)"
    "list_all (spares ?dir ''api-token'') events"
    using assms(10) by (simp_all add: list_all_iff)
  have "fs3 = foldl (file_step env None) fs1 (Persists fails ''api-token'' (reg_token r) # events)"
    by (simp add: assms(9,11))
  then have "state_value ?dir fs3 (config_key SnapStyle ''server_url'') = Some (JStr url)"
    unfolding keys by (simp only: persisted_value_later [OF assms(5) events(1)])
  from this assms(4,12,14) have "explicit_value fs3 env ?dir ''server_url'' = Some (JStr url)"
    by (rule explicit_state)
  from load_string_field [OF assms(16) _ this] have u: "server_url later = py_strip url"
    by (simp add: config_fields_def config_get_def config_alist_def)
  have "state_value ?dir fs3 (config_key SnapStyle ''api_token'') = Some (JStr (reg_token r))"
    unfolding keys assms(11) by (rule persisted_value_later [OF assms(9) events(2)])
  from this token assms(13,15) have "explicit_value fs3 env ?dir ''api_token'' = Some (JStr (reg_token r))"
    by (rule explicit_state)
  from load_string_field [OF assms(16) _ this] have t: "api_token later = py_strip (reg_token r)"
    by (simp add: config_fields_def config_get_def config_alist_def)
  have "discover fails env dirs c fs = Inr (c\<lparr>server_url := url\<rparr>, fs1, cmds1)"
    using assms(1,3-5) by (simp add: discover_def)
  moreover have "attempt_registration fails env urlopen (c\<lparr>server_url := url\<rparr>) fs1 =
      Inr (Some r, c\<lparr>server_url := url, api_token := reg_token r\<rparr>, fs2, cmds2)"
    using assms(2,4,6,7,9) token by (simp add: attempt_registration_def reg_approved_def reg_pending_def)
  ultimately show ?thesis
    using u t discovered_not_blank [OF assms(3,4)] assms(8)
    by (simp add: discover_def attempt_registration_def)
qed

lemma enrolment_survives_restart_witness:
  "\<exists>(later :: config) fs. server_url later = ''http://10.0.0.5'' \<and> api_token later = ''tok'' \<and>
     cec_backend later = ''none'' \<and>
     attempt_registration (\<lambda>_. True) [(''SNAP_DATA'', ''/d'')] (\<lambda>_. NetworkFailure) later fs = Inr (None, later, fs, [])"
proof -
  let ?env = "[(''SNAP_DATA'', ''/d'')]"
  let ?dirs = "[Directory [(''2'', LeaseText ''OPTION_225=10.0.0.5'')]]"
  let ?c = "default_config\<lparr>device_id := ''visiontak_client_1''\<rparr>"
  let ?up = "\<lambda>_. Answer ''application/json''
    (JsonText (JDict [(''status'', JStr ''approved''), (''token'', JStr ''tok'')]))"
  let ?r = "\<lparr>reg_status = ''approved'', reg_token = ''tok''\<rparr>"
  let ?fs0 = "\<lambda>_. Absent"
  let ?p1 = "persist (\<lambda>_. False) ?env None ''server-url'' ''http://10.0.0.5'' ?fs0"
  let ?p2 = "persist (\<lambda>_. False) ?env None ''api-token'' (reg_token ?r) (fst (snd ?p1))"
  let ?es = "[Persists (\<lambda>_. True) ''device-id'' ''x'',
    Elsewhere (config_path ''/d'') (Document (JDict [(''cec-backend'', JStr ''none'')]))]"
  let ?fs3 = "foldl (file_step ?env None) (fst (snd ?p2)) ?es"
  let ?later = "default_config\<lparr>server_url := ''http://10.0.0.5'', api_token := ''tok'',
    device_id := ''tv'', cec_backend := ''none''\<rparr>"
  have c: "server_url ?c = []" "api_token ?c = []" by code_simp+
  have d: "discover_server_url ?dirs = Inr ''http://10.0.0.5''" by code_simp
  have s1: "?p1 = (None, fst (snd ?p1), snd (snd ?p1))" by (rule prod_eqI) (code_simp, simp)
  have s2: "?p2 = (None, fst (snd ?p2), snd (snd ?p2))" by (rule prod_eqI) (code_simp, simp)
  have r: "register (?c\<lparr>server_url := ''http://10.0.0.5''\<rparr>) ?up (osd_name ?c) = Inr ?r"
    by code_simp
  have a: "reg_approved ?r" by code_simp
  have es: "list_all (\<lambda>e. spares (data_dir_or None ?env) ''server-url'' e \<and>
      spares (data_dir_or None ?env) ''api-token'' e) ?es"
    by code_simp
  have h: "file_value (?fs3 (config_path (data_dir_or None ?env))) ''server_url'' = None"
    "file_value (?fs3 (config_path (data_dir_or None ?env))) ''api_token'' = None"
    by code_simp+
  have e: "env_value ?env ''server_url'' = None" "env_value ?env ''api_token'' = None"
    by code_simp+
  have l: "load ?fs3 ?env None None ''tv'' = Inr ?later" by code_simp
  have t: "py_strip ''http://10.0.0.5'' = ''http://10.0.0.5''" "py_strip (reg_token ?r) = ''tok''"
    by code_simp+
  have b: "py_strip (reg_token ?r) \<noteq> []" by (simp only: t(2)) simp
  show ?thesis
    using enrolment_survives_restart [OF c d _ s1 r a b s2 es refl h e l, of "\<lambda>_. True" ?dirs "\<lambda>_. NetworkFailure"] t
    by (intro exI [of _ ?later] exI [of _ ?fs3]) simp
qed

text \<open>Registration changes nothing but what the server issued. Whatever the disk refuses,
  an approval with a token gives a configuration with that token, even when the token could
  not be saved; in every other case (no address, a token already, the server unreachable or
  refusing, a pending device, an approval without a token) the configuration and the files
  are untouched and nothing is mirrored into snapd. The server is asked only by a device that
  has an address and no token.\<close>

theorem registration_effects:
  assumes "attempt_registration fails env urlopen c fs = Inr (answer, c', fs', cmds)"
  shows "(case answer of
      Some r \<Rightarrow>
        server_url c \<noteq> [] \<and> api_token c = [] \<and> register c urlopen (osd_name c) = Inr r \<and>
        (if reg_approved r \<and> reg_token r \<noteq> [] then c' = c\<lparr>api_token := reg_token r\<rparr>
         else c' = c \<and> fs' = fs \<and> cmds = [])
    | None \<Rightarrow> c' = c \<and> fs' = fs \<and> cmds = [])"
  using assms
  by (auto simp: attempt_registration_def reg_pending_def reg_approved_def
      split: if_splits sum.splits py_error.splits prod.splits)

lemma registration_effects_witness:
  "\<exists>c' fs'. attempt_registration (\<lambda>_. True) [] (\<lambda>_. Answer ''application/json''
       (JsonText (JDict [(''status'', JStr ''approved''), (''token'', JStr ''tok'')])))
     (default_config\<lparr>server_url := ''http://vt''\<rparr>) (\<lambda>_. Absent)
   = Inr (Some \<lparr>reg_status = ''approved'', reg_token = ''tok''\<rparr>, c', fs', []) \<and> api_token c' = ''tok''"
proof -
  let ?c = "default_config\<lparr>server_url := ''http://vt''\<rparr>"
  let ?up = "\<lambda>_. Answer ''application/json''
    (JsonText (JDict [(''status'', JStr ''approved''), (''token'', JStr ''tok'')]))"
  let ?r = "\<lparr>reg_status = ''approved'', reg_token = ''tok''\<rparr>"
  have r: "register ?c ?up (osd_name ?c) = Inr ?r" and a: "reg_approved ?r" and p: "\<not> reg_pending ?r"
    and u: "server_url ?c = ''http://vt''" and t: "api_token ?c = []"
    by code_simp+
  obtain x fs' cmds where per: "persist (\<lambda>_. True) [] None ''api-token'' ''tok'' (\<lambda>_. Absent) = (x, fs', cmds)"
    by (metis prod_cases3)
  have "snd (snd (persist (\<lambda>_. True) [] None ''api-token'' ''tok'' (\<lambda>_. Absent))) = []"
    by code_simp
  with per have "cmds = []" by simp
  then have e: "attempt_registration (\<lambda>_. True) [] ?up ?c (\<lambda>_. Absent)
      = Inr (Some ?r, ?c\<lparr>api_token := ''tok''\<rparr>, fs', [])"
    using per r a p u t by (simp add: attempt_registration_def)
  show ?thesis using registration_effects [OF e] e a
    by (intro exI [of _ "?c\<lparr>api_token := ''tok''\<rparr>"] exI [of _ fs']) simp
qed

end
