(* ===== verification/Cec_Uapi.thy ===== *)
theory Cec_Uapi
  imports Prelude "HOL-Library.Word"
begin

text \<open>
  \<open>cec/uapi.py\<close>: the kernel's CEC interface as the code declares it with ctypes. Structures are
  described by their field types and their size and alignment are computed by the C layout
  rules that ctypes follows (natural alignment, as on arm, arm64 and x86-64), so the ioctl
  numbers are computed here as they are in the code. A message keeps its length and its
  sixteen bytes.
\<close>

unbundle bit_operations_syntax

section \<open>C layout\<close>

datatype ctype =
    CChar
  | CUint8
  | CUint16
  | CUint32
  | CUint64
  | CArray ctype nat
  | CStruct "ctype list"
  | CUnion "ctype list"

definition round_up :: "nat \<Rightarrow> nat \<Rightarrow> nat" where
  "round_up n a = (n + a - 1) div a * a"

fun ct_align :: "ctype \<Rightarrow> nat" where
  "ct_align CChar = 1"
| "ct_align CUint8 = 1"
| "ct_align CUint16 = 2"
| "ct_align CUint32 = 4"
| "ct_align CUint64 = 8"
| "ct_align (CArray t n) = ct_align t"
| "ct_align (CStruct ts) = fold max (map ct_align ts) 1"
| "ct_align (CUnion ts) = fold max (map ct_align ts) 1"

text \<open>A field starts at the next multiple of its alignment; the end is rounded up as well.\<close>

fun layout_end :: "(nat \<times> nat) list \<Rightarrow> nat \<Rightarrow> nat" where
  "layout_end [] offset = offset"
| "layout_end ((n, a) # fields) offset = layout_end fields (round_up offset a + n)"

fun ct_sizeof :: "ctype \<Rightarrow> nat" where
  "ct_sizeof CChar = 1"
| "ct_sizeof CUint8 = 1"
| "ct_sizeof CUint16 = 2"
| "ct_sizeof CUint32 = 4"
| "ct_sizeof CUint64 = 8"
| "ct_sizeof (CArray t n) = n * ct_sizeof t"
| "ct_sizeof (CStruct ts) =
     round_up (layout_end (map (\<lambda>t. (ct_sizeof t, ct_align t)) ts) 0) (fold max (map ct_align ts) 1)"
| "ct_sizeof (CUnion ts) =
     round_up (fold max (map ct_sizeof ts) 0) (fold max (map ct_align ts) 1)"

section \<open>The structures\<close>

definition CEC_MAX_MSG_SIZE :: nat where "CEC_MAX_MSG_SIZE = 16"

definition CEC_MAX_LOG_ADDRS :: nat where "CEC_MAX_LOG_ADDRS = 4"

definition CecCaps :: ctype where
  "CecCaps = CStruct [CArray CChar 32, CArray CChar 32, CUint32, CUint32, CUint32]"

definition CecMsg :: ctype where
  "CecMsg =
     CStruct [CUint64, CUint64, CUint32, CUint32, CUint32, CUint32,
       CArray CUint8 CEC_MAX_MSG_SIZE, CUint8, CUint8, CUint8, CUint8, CUint8, CUint8, CUint8]"

definition CecLogAddrs :: ctype where
  "CecLogAddrs =
     CStruct [CArray CUint8 CEC_MAX_LOG_ADDRS, CUint16, CUint8, CUint8, CUint32, CUint32,
       CArray CChar 15, CArray CUint8 CEC_MAX_LOG_ADDRS, CArray CUint8 CEC_MAX_LOG_ADDRS,
       CArray CUint8 CEC_MAX_LOG_ADDRS, CArray (CArray CUint8 12) CEC_MAX_LOG_ADDRS]"

definition CecEventStateChange :: ctype where
  "CecEventStateChange = CStruct [CUint16, CUint16, CUint16]"

definition CecEventUnion :: ctype where
  "CecEventUnion = CUnion [CecEventStateChange, CUint32, CArray CUint8 80]"

definition CecEventRaw :: ctype where
  "CecEventRaw = CStruct [CUint64, CUint32, CUint32, CecEventUnion]"

section \<open>The ioctl numbers\<close>

definition ioc :: "nat \<Rightarrow> char \<Rightarrow> nat \<Rightarrow> nat \<Rightarrow> nat" where
  "ioc direction type_char nr arg_size =
     (push_bit 30 direction OR push_bit 16 arg_size OR push_bit 8 (of_char type_char)) OR nr"

definition IOC_WRITE :: nat where "IOC_WRITE = 1"

definition IOC_READ :: nat where "IOC_READ = 2"

definition CEC_ADAP_G_CAPS :: nat where
  "CEC_ADAP_G_CAPS = ioc (IOC_READ OR IOC_WRITE) CHR ''a'' 0 (ct_sizeof CecCaps)"

definition CEC_ADAP_G_PHYS_ADDR :: nat where
  "CEC_ADAP_G_PHYS_ADDR = ioc IOC_READ CHR ''a'' 1 (ct_sizeof CUint16)"

definition CEC_ADAP_S_PHYS_ADDR :: nat where
  "CEC_ADAP_S_PHYS_ADDR = ioc IOC_WRITE CHR ''a'' 2 (ct_sizeof CUint16)"

definition CEC_ADAP_G_LOG_ADDRS :: nat where
  "CEC_ADAP_G_LOG_ADDRS = ioc IOC_READ CHR ''a'' 3 (ct_sizeof CecLogAddrs)"

definition CEC_ADAP_S_LOG_ADDRS :: nat where
  "CEC_ADAP_S_LOG_ADDRS = ioc (IOC_READ OR IOC_WRITE) CHR ''a'' 4 (ct_sizeof CecLogAddrs)"

definition CEC_TRANSMIT :: nat where
  "CEC_TRANSMIT = ioc (IOC_READ OR IOC_WRITE) CHR ''a'' 5 (ct_sizeof CecMsg)"

definition CEC_RECEIVE :: nat where
  "CEC_RECEIVE = ioc (IOC_READ OR IOC_WRITE) CHR ''a'' 6 (ct_sizeof CecMsg)"

definition CEC_DQEVENT :: nat where
  "CEC_DQEVENT = ioc (IOC_READ OR IOC_WRITE) CHR ''a'' 7 (ct_sizeof CecEventRaw)"

definition CEC_G_MODE :: nat where
  "CEC_G_MODE = ioc IOC_READ CHR ''a'' 8 (ct_sizeof CUint32)"

definition CEC_S_MODE :: nat where
  "CEC_S_MODE = ioc IOC_WRITE CHR ''a'' 9 (ct_sizeof CUint32)"

section \<open>Constants\<close>

definition CEC_CAP_LOG_ADDRS :: "32 word" where "CEC_CAP_LOG_ADDRS = 0x00000004"

definition CEC_MODE_INITIATOR :: "32 word" where "CEC_MODE_INITIATOR = 0x01"

definition CEC_MODE_FOLLOWER :: "32 word" where "CEC_MODE_FOLLOWER = 0x10"

definition CEC_EVENT_STATE_CHANGE :: "32 word" where "CEC_EVENT_STATE_CHANGE = 1"

definition CEC_EVENT_LOST_MSGS :: "32 word" where "CEC_EVENT_LOST_MSGS = 2"

definition CEC_LOG_ADDR_TV :: "8 word" where "CEC_LOG_ADDR_TV = 0"

definition CEC_LOG_ADDR_UNREGISTERED :: "8 word" where "CEC_LOG_ADDR_UNREGISTERED = 15"

definition CEC_LOG_ADDR_BROADCAST :: "8 word" where "CEC_LOG_ADDR_BROADCAST = 15"

definition CEC_LOG_ADDR_TYPE_PLAYBACK :: "8 word" where "CEC_LOG_ADDR_TYPE_PLAYBACK = 4"

definition CEC_OP_PRIM_DEVTYPE_PLAYBACK :: "8 word" where "CEC_OP_PRIM_DEVTYPE_PLAYBACK = 4"

definition CEC_OP_ALL_DEVTYPE_PLAYBACK :: "8 word" where "CEC_OP_ALL_DEVTYPE_PLAYBACK = 0x08"

definition CEC_OP_CEC_VERSION_1_4 :: "8 word" where "CEC_OP_CEC_VERSION_1_4 = 0x05"

definition CEC_LOG_ADDRS_FL_ALLOW_UNREG_FALLBACK :: "32 word" where
  "CEC_LOG_ADDRS_FL_ALLOW_UNREG_FALLBACK = push_bit 0 1"

definition CEC_PHYS_ADDR_INVALID :: "16 word" where "CEC_PHYS_ADDR_INVALID = 0xFFFF"

definition CEC_MSG_IMAGE_VIEW_ON :: "8 word" where "CEC_MSG_IMAGE_VIEW_ON = 0x04"

definition CEC_MSG_TEXT_VIEW_ON :: "8 word" where "CEC_MSG_TEXT_VIEW_ON = 0x0D"

definition CEC_MSG_STANDBY :: "8 word" where "CEC_MSG_STANDBY = 0x36"

definition CEC_MSG_USER_CONTROL_PRESSED :: "8 word" where "CEC_MSG_USER_CONTROL_PRESSED = 0x44"

definition CEC_MSG_USER_CONTROL_RELEASED :: "8 word" where "CEC_MSG_USER_CONTROL_RELEASED = 0x45"

definition CEC_MSG_SET_OSD_NAME :: "8 word" where "CEC_MSG_SET_OSD_NAME = 0x47"

definition CEC_MSG_ACTIVE_SOURCE :: "8 word" where "CEC_MSG_ACTIVE_SOURCE = 0x82"

definition CEC_MSG_SET_STREAM_PATH :: "8 word" where "CEC_MSG_SET_STREAM_PATH = 0x86"

section \<open>Messages\<close>

text \<open>The fields of a \<open>CecMsg\<close> that the code reads or writes.\<close>

record cec_msg =
  msg_len :: "32 word"
  msg_bytes :: "8 word list"

text \<open>The structure of a claim, field by field; \<open>CecLogAddrs()\<close> starts with zeros. Assigning a text
  to a \<open>c_char\<close> array writes it and, if there is room, a terminating zero.\<close>

record log_addrs =
  la_log_addr :: "8 word list"
  la_log_addr_mask :: "16 word"
  la_cec_version :: "8 word"
  la_num_log_addrs :: "8 word"
  la_vendor_id :: "32 word"
  la_flags :: "32 word"
  la_osd_name :: "8 word list"
  la_primary_device_type :: "8 word list"
  la_log_addr_type :: "8 word list"
  la_all_device_types :: "8 word list"
  la_features :: "8 word list"

definition empty_log_addrs :: log_addrs where
  "empty_log_addrs =
     (let slots = replicate CEC_MAX_LOG_ADDRS 0 in
      \<lparr>la_log_addr = slots, la_log_addr_mask = 0, la_cec_version = 0, la_num_log_addrs = 0,
       la_vendor_id = 0, la_flags = 0, la_osd_name = replicate 15 0, la_primary_device_type = slots,
       la_log_addr_type = slots, la_all_device_types = slots, la_features = replicate 48 0\<rparr>)"

definition c_text :: "nat \<Rightarrow> 8 word list \<Rightarrow> 8 word list" where
  "c_text n bytes = bytes @ replicate (n - length bytes) 0"

definition msg_byte :: "cec_msg \<Rightarrow> nat \<Rightarrow> 8 word" where
  "msg_byte m i = (if i < length (msg_bytes m) then msg_bytes m ! i else 0)"

definition initiator :: "cec_msg \<Rightarrow> 8 word" where
  "initiator m = drop_bit 4 (msg_byte m 0) AND 0x0F"

definition destination :: "cec_msg \<Rightarrow> 8 word" where
  "destination m = msg_byte m 0 AND 0x0F"

definition opcode :: "cec_msg \<Rightarrow> 8 word option" where
  "opcode m = (if 2 \<le> msg_len m then Some (msg_byte m 1) else None)"

text \<open>\<open>bytes(self.msg[2 : self.len])\<close>: the slice stops at the sixteenth byte.\<close>

definition operands :: "cec_msg \<Rightarrow> 8 word list" where
  "operands m = (if 2 < msg_len m then take (unat (msg_len m) - 2) (drop 2 (msg_bytes m)) else [])"

text \<open>A message as the code builds it: \<open>len\<close> bytes copied into a zeroed buffer.\<close>

definition build_msg :: "8 word list \<Rightarrow> cec_msg" where
  "build_msg payload =
     \<lparr>msg_len = of_nat (length payload),
      msg_bytes = payload @ replicate (CEC_MAX_MSG_SIZE - length payload) 0\<rparr>"

section \<open>Facts about messages\<close>

lemma build_msg_accessors:
  assumes "length payload \<le> CEC_MAX_MSG_SIZE" and "payload = h # op # ops"
  shows "opcode (build_msg payload) = Some op" and "operands (build_msg payload) = ops"
proof -
  have n: "length payload \<le> 16" using assms(1) by (simp add: CEC_MAX_MSG_SIZE_def)
  then have u: "unat (of_nat (length payload) :: 32 word) = length payload"
    by (simp add: unat_of_nat take_bit_nat_eq_self)
  have l: "(2 :: 32 word) \<le> of_nat (length payload)"
    using u assms(2) by (simp add: word_le_nat_alt)
  show "opcode (build_msg payload) = Some op"
    using l assms(2) by (simp add: opcode_def build_msg_def msg_byte_def)
  show "operands (build_msg payload) = ops"
  proof (cases "ops = []")
    case True
    then show ?thesis using u assms(2) by (simp add: operands_def build_msg_def word_less_nat_alt)
  next
    case False
    then have "2 < (of_nat (length payload) :: 32 word)"
      using u assms(2) by (cases ops) (simp_all add: word_less_nat_alt)
    then show ?thesis using u assms(2) by (simp add: operands_def build_msg_def)
  qed
qed

lemma header_byte:
  fixes i d :: "8 word"
  assumes "i < 16" and "d < 16"
  shows "drop_bit 4 (push_bit 4 i OR d) AND 0x0F = i" and "(push_bit 4 i OR d) AND 0x0F = d"
proof -
  have "take_bit 4 i = i" and "take_bit 4 d = d"
    using assms
    by (auto intro!: word_unat_eq_iff [THEN iffD2]
        simp: word_less_nat_alt unsigned_take_bit_eq take_bit_nat_eq_self)
  then have bits: "bit i n \<Longrightarrow> n < 4" "bit d n \<Longrightarrow> n < 4" for n
    by (metis bit_take_bit_iff)+
  have m: "(0x0F :: 8 word) = mask 4" by (simp add: mask_eq_decr_exp)
  show "drop_bit 4 (push_bit 4 i OR d) AND 0x0F = i"
    unfolding m by (rule bit_word_eqI) (auto simp: bit_simps dest: bits)
  show "(push_bit 4 i OR d) AND 0x0F = d"
    unfolding m by (rule bit_word_eqI) (auto simp: bit_simps dest: bits)
qed

section \<open>The sizes and numbers of the kernel's header\<close>

lemma struct_sizes:
  "ct_sizeof CecMsg = 56" "ct_sizeof CecCaps = 76" "ct_sizeof CecLogAddrs = 92"
  "ct_sizeof CecEventRaw = 96"
  by code_simp+

text \<open>The four parts that the kernel's macros read back from a number.\<close>

definition ioc_parts :: "nat \<Rightarrow> nat \<times> nat \<times> nat \<times> nat" where
  "ioc_parts n =
     (drop_bit 30 n, take_bit 8 (drop_bit 8 n), take_bit 8 n, take_bit 14 (drop_bit 16 n))"

lemma bit_bound: "(k :: nat) < 2 ^ m \<Longrightarrow> bit k n \<Longrightarrow> n < m"
  by (metis bit_take_bit_iff take_bit_nat_eq_self)

section \<open>Properties\<close>

text \<open>The structures have the sizes of the kernel's header, and the ioctl numbers computed
  from them are the kernel's.\<close>

theorem ioctl_numbers:
  "ct_sizeof CecMsg = 56 \<and> ct_sizeof CecCaps = 76 \<and> ct_sizeof CecLogAddrs = 92 \<and>
   ct_sizeof CecEventRaw = 96 \<and>
   CEC_ADAP_G_CAPS = 0xC04C6100 \<and> CEC_ADAP_G_PHYS_ADDR = 0x80026101 \<and>
   CEC_ADAP_S_PHYS_ADDR = 0x40026102 \<and> CEC_ADAP_G_LOG_ADDRS = 0x805C6103 \<and>
   CEC_ADAP_S_LOG_ADDRS = 0xC05C6104 \<and> CEC_TRANSMIT = 0xC0386105 \<and>
   CEC_RECEIVE = 0xC0386106 \<and> CEC_DQEVENT = 0xC0606107 \<and>
   CEC_G_MODE = 0x80046108 \<and> CEC_S_MODE = 0x40046109"
  by (simp add: struct_sizes CEC_ADAP_G_CAPS_def CEC_ADAP_G_PHYS_ADDR_def CEC_ADAP_S_PHYS_ADDR_def
      CEC_ADAP_G_LOG_ADDRS_def CEC_ADAP_S_LOG_ADDRS_def CEC_TRANSMIT_def CEC_RECEIVE_def
      CEC_DQEVENT_def CEC_G_MODE_def CEC_S_MODE_def ioc_def IOC_READ_def IOC_WRITE_def)

text \<open>An ioctl number carries its four parts without overlap: the kernel reads back the
  direction, the type character, the number and the argument size that the code put in, as
  long as the size fits in 14 bits and the number in 8.\<close>

theorem ioc_round_trip:
  assumes "nr < 2 ^ 8" and "arg_size < 2 ^ 14"
  shows "ioc_parts (ioc direction type_char nr arg_size) = (direction, of_char type_char, nr, arg_size)"
proof -
  have c: "(of_char type_char :: nat) < 2 ^ 8" by simp
  note b = bit_bound [OF assms(1)] bit_bound [OF assms(2)] bit_bound [OF c]
  have "drop_bit 30 (ioc direction type_char nr arg_size) = direction"
    by (rule bit_eqI) (auto simp: ioc_def bit_simps dest: b)
  moreover have "take_bit 8 (drop_bit 8 (ioc direction type_char nr arg_size)) = of_char type_char"
    by (rule bit_eqI) (auto simp: ioc_def bit_simps dest: b)
  moreover have "take_bit 8 (ioc direction type_char nr arg_size) = nr"
    by (rule bit_eqI) (auto simp: ioc_def bit_simps dest: b)
  moreover have "take_bit 14 (drop_bit 16 (ioc direction type_char nr arg_size)) = arg_size"
    by (rule bit_eqI) (auto simp: ioc_def bit_simps dest: b)
  ultimately show ?thesis by (simp add: ioc_parts_def)
qed

lemma ioc_round_trip_witness: "ioc_parts CEC_TRANSMIT = (3, 97, 5, 56)"
proof -
  have "ioc_parts (ioc 3 CHR ''a'' 5 56) = (3, of_char CHR ''a'', 5, 56)"
    by (rule ioc_round_trip) simp_all
  moreover have "CEC_TRANSMIT = ioc 3 CHR ''a'' 5 56"
    by (simp add: CEC_TRANSMIT_def struct_sizes IOC_READ_def IOC_WRITE_def)
  ultimately show ?thesis by simp
qed

end
