(* ===== verification/Cec_Kernel.thy ===== *)
theory Cec_Kernel
  imports Cec_Uapi Py_Str
begin

text \<open>
  \<open>cec/base.py\<close> and \<open>cec/kernel.py\<close>: the events the kiosk sees and the backend that talks to
  /dev/cecN. What the kernel answers is a parameter: the replies to the ioctls of \<open>open\<close>, the
  outcome of each claim of a logical address, given the structures handed over so far, and
  the queues of events and messages that a poll drains (each ends with the errno that stops
  the loop). The state keeps the code's fields, the claims and messages handed to the kernel,
  and the number of descriptors that are open.
  The lemmas say that every transmitted message fits and carries a claimed address, that
  nothing is sent without an HDMI link, that remote keys arrive in order, and what a failed
  open leaves behind.
\<close>

section \<open>Events\<close>

datatype cec_event_kind =
    KEY_PRESS
  | KEY_RELEASE
  | STANDBY
  | WAKE
  | ACTIVE_SOURCE_LOST
  | ADAPTER_READY
  | ADAPTER_LOST

record cec_event =
  ev_kind :: cec_event_kind
  key_code :: "int option"
  ev_detail :: string

definition plain_event :: "cec_event_kind \<Rightarrow> string \<Rightarrow> cec_event" where
  "plain_event k d = \<lparr>ev_kind = k, key_code = None, ev_detail = d\<rparr>"

section \<open>The adapter\<close>

record cec_adapter =
  fd_open :: bool
  wake_open :: bool
  osd_bytes :: "8 word list"
  log_addr :: "8 word"
  phys_addr :: "16 word"
  mode :: "32 word option"
  claims :: "log_addrs list"
  sent :: "cec_msg list"
  open_fds :: nat

definition make_adapter :: "8 word list \<Rightarrow> cec_adapter" where
  "make_adapter osd_name =
     \<lparr>fd_open = False, wake_open = False, osd_bytes = take 14 osd_name,
      log_addr = CEC_LOG_ADDR_UNREGISTERED, phys_addr = CEC_PHYS_ADDR_INVALID,
      mode = None, claims = [], sent = [], open_fds = 0\<rparr>"

text \<open>\<open>claims\<close> are the structures handed to the kernel so far. Its answer to the last of them is the
  first logical address it granted, or an OSError.\<close>

type_synonym claimer = "log_addrs list \<Rightarrow> 8 word option"

definition VENDOR_ID_UNKNOWN :: "32 word" where "VENDOR_ID_UNKNOWN = 0x000000"

definition playback_claim :: "8 word list \<Rightarrow> log_addrs" where
  "playback_claim osd_name =
     empty_log_addrs
       \<lparr>la_cec_version := CEC_OP_CEC_VERSION_1_4, la_num_log_addrs := 1,
        la_vendor_id := VENDOR_ID_UNKNOWN, la_flags := CEC_LOG_ADDRS_FL_ALLOW_UNREG_FALLBACK,
        la_osd_name := c_text 15 osd_name,
        la_primary_device_type := (la_primary_device_type empty_log_addrs)[0 := CEC_OP_PRIM_DEVTYPE_PLAYBACK],
        la_log_addr_type := (la_log_addr_type empty_log_addrs)[0 := CEC_LOG_ADDR_TYPE_PLAYBACK],
        la_all_device_types := (la_all_device_types empty_log_addrs)[0 := CEC_OP_ALL_DEVTYPE_PLAYBACK]\<rparr>"

text \<open>Whether an address was claimed; on a closed adapter \<open>_ioctl\<close> raises CecError, which is no
  OSError.\<close>

definition claim_logical_address :: "claimer \<Rightarrow> cec_adapter \<Rightarrow> bool result \<times> cec_adapter" where
  "claim_logical_address claim a =
     (if phys_addr a = CEC_PHYS_ADDR_INVALID then (Inr False, a)
      else if \<not> fd_open a then (Inl CecError, a)
      else
        (let a = a\<lparr>claims := claims a @ [playback_claim (osd_bytes a)]\<rparr> in
         case claim (claims a) of
           None \<Rightarrow> (Inr False, a)
         | Some l \<Rightarrow> (Inr True, a\<lparr>log_addr := l\<rparr>)))"

subsection \<open>Transmit\<close>

text \<open>
  \<open>_transmit\<close>: \<open>bytes([(log_addr << 4) | destination, opcode])\<close> raises when the first value is
  no byte, and a seventeenth byte does not fit in the message. A failing ioctl is logged; on
  a closed adapter \<open>_ioctl\<close> raises CecError.
\<close>

definition transmit :: "8 word \<Rightarrow> 8 word \<Rightarrow> 8 word list \<Rightarrow> cec_adapter \<Rightarrow> cec_adapter outcome" where
  "transmit dest op ops a =
     (if log_addr a = CEC_LOG_ADDR_UNREGISTERED then (None, a)
      else if 16 \<le> log_addr a then (Some (ValueError ByteOutOfRange), a)
      else
        (let payload = [push_bit 4 (log_addr a) OR dest, op] @ ops in
         if CEC_MAX_MSG_SIZE < length payload then (Some IndexError, a)
         else if \<not> fd_open a then (Some CecError, a)
         else (None, a\<lparr>sent := sent a @ [build_msg payload]\<rparr>)))"

definition send_osd_name :: "8 word \<Rightarrow> cec_adapter \<Rightarrow> cec_adapter outcome" where
  "send_osd_name dest a =
     (if osd_bytes a = [] then (None, a) else transmit dest CEC_MSG_SET_OSD_NAME (osd_bytes a) a)"

definition phys_bytes :: "16 word \<Rightarrow> 8 word list" where
  "phys_bytes p = [ucast (drop_bit 8 p), ucast (p AND 0xFF)]"

definition announce :: "cec_adapter \<Rightarrow> cec_adapter outcome" where
  "announce a =
     (if phys_addr a = CEC_PHYS_ADDR_INVALID then (None, a)
      else
        then_do (then_do (transmit CEC_LOG_ADDR_TV CEC_MSG_IMAGE_VIEW_ON [] a)
          (\<lambda>a. transmit CEC_LOG_ADDR_BROADCAST CEC_MSG_ACTIVE_SOURCE (phys_bytes (phys_addr a)) a))
          (\<lambda>a. send_osd_name CEC_LOG_ADDR_TV a))"

subsection \<open>Lifecycle\<close>

text \<open>The kernel's replies to the calls of \<open>open\<close>; None is an OSError.\<close>

record open_replies =
  reply_open :: bool
  reply_caps :: "32 word option"
  reply_mode :: bool
  reply_phys :: "16 word option"

definition cec_open :: "open_replies \<Rightarrow> claimer \<Rightarrow> cec_adapter \<Rightarrow> cec_adapter outcome" where
  "cec_open r claim a =
     (if \<not> reply_open r then (Some CecError, a)
      else
        (let a = a\<lparr>fd_open := True, wake_open := True, open_fds := open_fds a + 3\<rparr> in
         case reply_caps r of
           None \<Rightarrow> (Some OSError, a)
         | Some caps \<Rightarrow>
             if caps AND CEC_CAP_LOG_ADDRS = 0 then (Some CecError, a)
             else if \<not> reply_mode r then (Some OSError, a)
             else
               (let a = a\<lparr>mode := Some (CEC_MODE_INITIATOR OR CEC_MODE_FOLLOWER)\<rparr> in
                case reply_phys r of
                  None \<Rightarrow> (Some OSError, a)
                | Some p \<Rightarrow>
                    (case claim_logical_address claim (a\<lparr>phys_addr := p\<rparr>) of
                       (Inl e, a) \<Rightarrow> (Some e, a)
                     | (Inr _, a) \<Rightarrow> (None, a)))))"

text \<open>\<open>close\<close> wakes a blocked poll, then closes what is open.\<close>

definition cec_close :: "cec_adapter \<Rightarrow> cec_adapter" where
  "cec_close a =
     a\<lparr>fd_open := False, wake_open := False,
       open_fds := open_fds a - ((if fd_open a then 1 else 0) + (if wake_open a then 2 else 0))\<rparr>"

subsection \<open>Receive\<close>

definition on_state_change ::
  "claimer \<Rightarrow> 16 word \<Rightarrow> cec_adapter \<Rightarrow> cec_event list result \<times> cec_adapter" where
  "on_state_change claim new_addr a =
     (let previous = phys_addr a; a = a\<lparr>phys_addr := new_addr\<rparr> in
      if new_addr = CEC_PHYS_ADDR_INVALID then
        (Inr [plain_event ADAPTER_LOST ''hdmi unplugged''],
         a\<lparr>log_addr := CEC_LOG_ADDR_UNREGISTERED\<rparr>)
      else if previous \<noteq> new_addr then
        (case claim_logical_address claim a of
           (Inl e, a) \<Rightarrow> (Inl e, a)
         | (Inr False, a) \<Rightarrow> (Inr [], a)
         | (Inr True, a) \<Rightarrow>
             (case announce a of
                (Some e, a) \<Rightarrow> (Inl e, a)
              | (None, a) \<Rightarrow>
                  (Inr [plain_event ADAPTER_READY (''phys 0x'' @ show_hex4 (unat new_addr))], a)))
      else (Inr [], a))"

definition decode ::
  "cec_msg \<Rightarrow> cec_adapter \<Rightarrow> cec_event option result \<times> cec_adapter" where
  "decode m a =
     (let ops = operands m;
          requested = (push_bit 8 (ucast (ops ! 0)) OR ucast (ops ! 1) :: 16 word) in
      if opcode m = Some CEC_MSG_USER_CONTROL_PRESSED \<and> ops \<noteq> [] then
        (Inr (Some \<lparr>ev_kind = KEY_PRESS, key_code = Some (uint (ops ! 0)), ev_detail = []\<rparr>), a)
      else if opcode m = Some CEC_MSG_USER_CONTROL_RELEASED then
        (Inr (Some (plain_event KEY_RELEASE [])), a)
      else if opcode m = Some CEC_MSG_STANDBY then
        (Inr (Some (plain_event STANDBY ''tv standby'')), a)
      else if opcode m = Some CEC_MSG_IMAGE_VIEW_ON \<or> opcode m = Some CEC_MSG_TEXT_VIEW_ON then
        (Inr (Some (plain_event WAKE ''tv view on'')), a)
      else if opcode m = Some CEC_MSG_SET_STREAM_PATH \<and> 2 \<le> length ops then
        (if requested = phys_addr a then
           (case announce a of
              (Some e, a) \<Rightarrow> (Inl e, a)
            | (None, a) \<Rightarrow> (Inr (Some (plain_event WAKE ''stream path'')), a))
         else
           (Inr (Some (plain_event ACTIVE_SOURCE_LOST (''path 0x'' @ show_hex4 (unat requested)))), a))
      else if opcode m = Some CEC_MSG_ACTIVE_SOURCE \<and> 2 \<le> length ops \<and> requested \<noteq> phys_addr a then
        (Inr (Some (plain_event ACTIVE_SOURCE_LOST (''source 0x'' @ show_hex4 (unat requested)))), a)
      else (Inr None, a))"

text \<open>
  What ends a queue: an errno, or the CecError of \<open>_ioctl\<close> when another thread has closed the
  adapter meanwhile.
\<close>

datatype queue_end = EAGAIN | ETIMEDOUT | EINTR | OtherErrno | ClosedMeanwhile

record raw_event =
  raw_kind :: "32 word"
  raw_phys_addr :: "16 word"

fun drain_events ::
  "claimer \<Rightarrow> raw_event list \<Rightarrow> queue_end \<Rightarrow> cec_event list \<Rightarrow> cec_adapter \<Rightarrow>
   cec_event list result \<times> cec_adapter" where
  "drain_events claim [] end_errno out a =
     (case end_errno of
        EAGAIN \<Rightarrow> (Inr out, a)
      | ClosedMeanwhile \<Rightarrow> (Inl CecError, a)
      | _ \<Rightarrow> (Inl OSError, a))"
| "drain_events claim (raw # raws) end_errno out a =
     (if raw_kind raw = CEC_EVENT_STATE_CHANGE then
        (case on_state_change claim (raw_phys_addr raw) a of
           (Inl e, a) \<Rightarrow> (Inl e, a)
         | (Inr evs, a) \<Rightarrow> drain_events claim raws end_errno (out @ evs) a)
      else drain_events claim raws end_errno out a)"

fun drain_messages ::
  "cec_msg list \<Rightarrow> queue_end \<Rightarrow> cec_event list \<Rightarrow> cec_adapter \<Rightarrow>
   cec_event list result \<times> cec_adapter" where
  "drain_messages [] end_errno out a =
     (case end_errno of
        EAGAIN \<Rightarrow> (Inr out, a)
      | ETIMEDOUT \<Rightarrow> (Inr out, a)
      | ClosedMeanwhile \<Rightarrow> (Inl CecError, a)
      | _ \<Rightarrow> (Inl OSError, a))"
| "drain_messages (m # ms) end_errno out a =
     (case decode m a of
        (Inl e, a) \<Rightarrow> (Inl e, a)
      | (Inr ev, a) \<Rightarrow>
          drain_messages ms end_errno (case ev of Some e \<Rightarrow> out @ [e] | None \<Rightarrow> out) a)"

text \<open>What \<open>select.poll\<close> reports: an error, or the ready descriptors in order.\<close>

datatype ready = ReadyWake | ReadyDevice bool bool

record poll_replies =
  poll_error :: "queue_end option"
  poll_ready :: "ready list"
  event_queue :: "raw_event list"
  event_end :: queue_end
  message_queue :: "cec_msg list"
  message_end :: queue_end

definition drain_device ::
  "claimer \<Rightarrow> poll_replies \<Rightarrow> bool \<Rightarrow> bool \<Rightarrow> cec_event list \<Rightarrow> cec_adapter \<Rightarrow>
   cec_event list result \<times> cec_adapter" where
  "drain_device claim p pri pin out a =
     (case (if pri then drain_events claim (event_queue p) (event_end p) [] a else (Inr [], a)) of
        (Inl e, a) \<Rightarrow> (Inl e, a)
      | (Inr evs, a) \<Rightarrow>
          (case (if pin then drain_messages (message_queue p) (message_end p) [] a else (Inr [], a)) of
             (Inl e, a) \<Rightarrow> (Inl e, a)
           | (Inr msgs, a) \<Rightarrow> (Inr (out @ evs @ msgs), a)))"

fun poll_loop ::
  "claimer \<Rightarrow> poll_replies \<Rightarrow> ready list \<Rightarrow> cec_event list \<Rightarrow> cec_adapter \<Rightarrow>
   cec_event list result \<times> cec_adapter" where
  "poll_loop claim p [] out a = (Inr out, a)"
| "poll_loop claim p (ReadyWake # rs) out a = (Inr out, a)"
| "poll_loop claim p (ReadyDevice pri pin # rs) out a =
     (case drain_device claim p pri pin out a of
        (Inl e, a) \<Rightarrow> (Inl e, a)
      | (Inr out', a) \<Rightarrow> poll_loop claim p rs out' a)"

definition cec_poll ::
  "poll_replies \<Rightarrow> claimer \<Rightarrow> cec_adapter \<Rightarrow> cec_event list result \<times> cec_adapter" where
  "cec_poll p claim a =
     (if \<not> fd_open a then (Inr [], a)
      else
        (case poll_error p of
           Some EINTR \<Rightarrow> (Inr [], a)
         | Some _ \<Rightarrow> (Inl OSError, a)
         | None \<Rightarrow> poll_loop claim p (poll_ready p) [] a))"

section \<open>What the adapter keeps\<close>

text \<open>The kernel granted the address in answer to one of the claims.\<close>

definition granted :: "claimer \<Rightarrow> log_addrs list \<Rightarrow> 8 word \<Rightarrow> bool" where
  "granted claim cs l \<longleftrightarrow> (\<exists>n < length cs. claim (take (Suc n) cs) = Some l)"

lemma granted_later: "granted claim cs l \<Longrightarrow> granted claim (cs @ ds) l"
  unfolding granted_def by (metis Suc_leI length_append take_append trans_less_add1 append_Nil2 diff_is_0_eq take0)

lemma granted_now: "claim (cs @ [r]) = Some l \<Longrightarrow> granted claim (cs @ [r]) l"
  unfolding granted_def by (intro exI [of _ "length cs"]) simp

lemma granted_prefix: "granted claim cs l \<Longrightarrow> \<exists>ds r. prefix (ds @ [r]) cs \<and> claim (ds @ [r]) = Some l"
  unfolding granted_def
  by (elim exE conjE, rename_tac n, rule_tac x = "take n cs" in exI, rule_tac x = "cs ! n" in exI)
    (simp add: take_Suc_conv_app_nth [symmetric] take_is_prefix)

text \<open>
  A message that was handed to the kernel: two to sixteen bytes in a buffer of sixteen, from
  an address that is a nibble, not the unregistered one, and was granted.
\<close>

definition msg_ok :: "claimer \<Rightarrow> log_addrs list \<Rightarrow> cec_msg \<Rightarrow> bool" where
  "msg_ok claim cs m \<longleftrightarrow>
     2 \<le> msg_len m \<and> msg_len m \<le> 16 \<and> length (msg_bytes m) = 16 \<and> initiator m < 15 \<and>
     granted claim cs (initiator m)"

definition adapter_inv :: "claimer \<Rightarrow> cec_adapter \<Rightarrow> bool" where
  "adapter_inv claim a \<longleftrightarrow> length (osd_bytes a) \<le> 14 \<and>
     (\<forall>m \<in> set (sent a). msg_ok claim (claims a) m) \<and>
     list_all (\<lambda>r. r = playback_claim (osd_bytes a)) (claims a) \<and>
     (log_addr a = CEC_LOG_ADDR_UNREGISTERED \<or> granted claim (claims a) (log_addr a))"

lemma msg_ok_later: "msg_ok claim cs m \<Longrightarrow> msg_ok claim (cs @ ds) m"
  by (simp add: msg_ok_def granted_later)

lemma playback_claim_ok:
  assumes "length osd \<le> 14"
  shows "la_num_log_addrs (playback_claim osd) = 1 \<and>
    la_log_addr_type (playback_claim osd) = [CEC_LOG_ADDR_TYPE_PLAYBACK, 0, 0, 0] \<and>
    length (la_osd_name (playback_claim osd)) = 15 \<and> last (la_osd_name (playback_claim osd)) = 0"
  using assms
  by (simp add: playback_claim_def empty_log_addrs_def c_text_def CEC_MAX_LOG_ADDRS_def Let_def
      numeral_eq_Suc)

lemma make_adapter_inv: "adapter_inv claim (make_adapter osd)"
  by (simp add: adapter_inv_def make_adapter_def)

lemma nibble_below: "(l :: 8 word) \<noteq> CEC_LOG_ADDR_UNREGISTERED \<Longrightarrow> \<not> 16 \<le> l \<Longrightarrow> l < 15"
  unfolding CEC_LOG_ADDR_UNREGISTERED_def by (simp add: word_less_nat_alt word_le_nat_alt word_unat_eq_iff)

lemma build_msg_ok:
  assumes "length ops \<le> 14" and "l < 15" and "d < 16" and "granted claim cs l"
  shows "msg_ok claim cs (build_msg ([push_bit 4 l OR d, op] @ ops))"
proof -
  let ?n = "length ([push_bit 4 l OR d, op] @ ops)"
  have n: "2 \<le> ?n" "?n \<le> 16" using assms(1) by simp_all
  have u: "unat (of_nat ?n :: 32 word) = ?n"
    using n(2) by (subst unat_of_nat) (simp add: take_bit_nat_eq_self)
  have "l < 16" using assms(2) by (simp add: word_less_nat_alt)
  then have "initiator (build_msg ([push_bit 4 l OR d, op] @ ops)) = l"
    using header_byte(1) [OF _ assms(3)] by (simp add: initiator_def build_msg_def msg_byte_def)
  moreover have "(2 :: 32 word) \<le> of_nat ?n" and "(of_nat ?n :: 32 word) \<le> 16"
    using n u by (simp_all only: word_le_nat_alt, simp_all)
  ultimately show ?thesis
    using assms(2,4) n by (simp add: msg_ok_def build_msg_def CEC_MAX_MSG_SIZE_def)
qed

lemma transmit_inv [keep]:
  assumes "adapter_inv claim a" and "length ops \<le> 14" and "d < 16"
  shows "adapter_inv claim (snd (transmit d op ops a))"
  using assms build_msg_ok [OF assms(2) nibble_below assms(3), of "log_addr a" claim "claims a" op]
  by (auto simp: transmit_def adapter_inv_def Let_def)

lemma then_do_adapter_inv:
  "adapter_inv claim (snd r) \<Longrightarrow> (\<And>a. adapter_inv claim a \<Longrightarrow> adapter_inv claim (snd (f a))) \<Longrightarrow>
     adapter_inv claim (snd (then_do r f))"
  by (rule then_do_keeps)

lemma send_osd_name_inv [keep]:
  "adapter_inv claim a \<Longrightarrow> d < 16 \<Longrightarrow> adapter_inv claim (snd (send_osd_name d a))"
  by (simp add: send_osd_name_def transmit_inv adapter_inv_def [THEN iffD1])

lemma phys_bytes_length [simp]: "length (phys_bytes p) = 2"
  by (simp add: phys_bytes_def)

lemma announce_inv [keep]: "adapter_inv claim a \<Longrightarrow> adapter_inv claim (snd (announce a))"
  unfolding announce_def if_distrib [of snd] if_distrib [of "adapter_inv claim"]
  by (cases "phys_addr a = CEC_PHYS_ADDR_INVALID")
    (simp_all, intro then_do_adapter_inv transmit_inv send_osd_name_inv,
      simp_all add: CEC_LOG_ADDR_TV_def CEC_LOG_ADDR_BROADCAST_def)

lemma claim_inv [keep]: "adapter_inv claim a \<Longrightarrow> adapter_inv claim (snd (claim_logical_address claim a))"
  by (auto simp: claim_logical_address_def adapter_inv_def Let_def msg_ok_later granted_later granted_now
      split: option.splits)

lemma cec_open_inv [keep]:
  assumes "adapter_inv claim a"
  shows "adapter_inv claim (snd (cec_open r claim a))"
proof -
  have "adapter_inv claim (snd (claim_logical_address claim
      (a\<lparr>fd_open := b, wake_open := b', open_fds := n, mode := m, phys_addr := p\<rparr>)))" for b b' n m p
    using assms by (intro claim_inv) (simp add: adapter_inv_def)
  then show ?thesis
    using assms
    by (auto simp: cec_open_def Let_def adapter_inv_def split: option.splits sum.splits prod.splits)
      (metis snd_conv)+
qed

lemma cec_close_inv [keep]: "adapter_inv claim a \<Longrightarrow> adapter_inv claim (cec_close a)"
  by (simp add: cec_close_def adapter_inv_def)

lemma on_state_change_inv [keep]:
  assumes "adapter_inv claim a"
  shows "adapter_inv claim (snd (on_state_change claim p a))"
proof -
  let ?a = "a\<lparr>phys_addr := p\<rparr>"
  have 1: "adapter_inv claim ?a" "adapter_inv claim (?a\<lparr>log_addr := CEC_LOG_ADDR_UNREGISTERED\<rparr>)"
    using assms by (simp_all add: adapter_inv_def)
  have 2: "adapter_inv claim (snd (claim_logical_address claim ?a))"
    using 1(1) by (rule claim_inv)
  show ?thesis
    using 1 2 announce_inv [OF 2]
    by (auto simp: on_state_change_def Let_def split: prod.splits option.splits sum.splits bool.splits)
qed

lemma decode_inv [keep]: "adapter_inv claim a \<Longrightarrow> adapter_inv claim (snd (decode m a))"
  using announce_inv [of claim a] by (auto simp: decode_def Let_def split: prod.splits option.splits)

lemma drain_events_inv [keep]:
  "adapter_inv claim a \<Longrightarrow> adapter_inv claim (snd (drain_events claim raws e out a))"
proof (induction claim raws e out a rule: drain_events.induct)
  case (1 claim e out a)
  then show ?case by (cases e) auto
next
  case (2 claim raw raws e out a)
  then show ?case
    using on_state_change_inv [OF 2(3), of "raw_phys_addr raw"]
    by (auto split: prod.splits sum.splits)
qed

lemma drain_messages_inv [keep]:
  "adapter_inv claim a \<Longrightarrow> adapter_inv claim (snd (drain_messages ms e out a))"
proof (induction ms e out a rule: drain_messages.induct)
  case (1 e out a)
  then show ?case by (cases e) auto
next
  case (2 m ms e out a)
  then show ?case
    using decode_inv [OF 2(2), of m] by (auto split: prod.splits sum.splits)
qed

lemma drain_device_inv [keep]:
  assumes "adapter_inv claim a"
  shows "adapter_inv claim (snd (drain_device claim p pri pin out a))"
proof -
  let ?r = "if pri then drain_events claim (event_queue p) (event_end p) [] a else (Inr [], a)"
  have "adapter_inv claim (snd ?r)" using assms drain_events_inv by auto
  then have "adapter_inv claim (snd (if pin then drain_messages (message_queue p) (message_end p) [] (snd ?r)
      else (Inr [], snd ?r)))"
    using drain_messages_inv by auto
  with \<open>adapter_inv claim (snd ?r)\<close> show ?thesis
    by (auto simp: drain_device_def split: prod.splits sum.splits if_splits)
qed

lemma poll_loop_inv [keep]: "adapter_inv claim a \<Longrightarrow> adapter_inv claim (snd (poll_loop claim p rs out a))"
proof (induction claim p rs out a rule: poll_loop.induct)
  case (3 claim p pri pin rs out a)
  then show ?case
    using drain_device_inv [OF 3(2), of p pri pin out] by (auto split: prod.splits sum.splits)
qed auto

lemma cec_poll_inv [keep]: "adapter_inv claim a \<Longrightarrow> adapter_inv claim (snd (cec_poll p claim a))"
  using poll_loop_inv [of claim a p] by (auto simp: cec_poll_def split: option.splits queue_end.splits)

text \<open>A life of the backend: any calls in any order, with any replies.\<close>

datatype adapter_call =
    CallOpen open_replies
  | CallAnnounce
  | CallPoll poll_replies
  | CallClose

fun adapter_step :: "claimer \<Rightarrow> cec_adapter \<Rightarrow> adapter_call \<Rightarrow> cec_adapter" where
  "adapter_step claim a (CallOpen r) = snd (cec_open r claim a)"
| "adapter_step claim a CallAnnounce = snd (announce a)"
| "adapter_step claim a (CallPoll p) = snd (cec_poll p claim a)"
| "adapter_step claim a CallClose = cec_close a"

interpretation adapter: invariant_machine "adapter_step claim" "adapter_inv claim" "\<lambda>_. True" for claim
proof unfold_locales
  show "adapter_inv claim (adapter_step claim s e)" if "adapter_inv claim s" for s e
    using that by (cases e) (auto intro: keep)
qed

section \<open>Keys\<close>

definition pressed_key :: "cec_msg \<Rightarrow> int option" where
  "pressed_key m =
     (if opcode m = Some CEC_MSG_USER_CONTROL_PRESSED \<and> operands m \<noteq> []
      then Some (uint (operands m ! 0)) else None)"

definition key_presses :: "cec_event list \<Rightarrow> int option list" where
  "key_presses evs = map key_code (filter (\<lambda>e. ev_kind e = KEY_PRESS) evs)"

lemma key_presses_append [simp]: "key_presses (xs @ ys) = key_presses xs @ key_presses ys"
  by (simp add: key_presses_def)

lemma key_presses_Nil [simp]: "key_presses [] = []"
  by (simp add: key_presses_def)

lemma key_presses_plain: "k \<noteq> KEY_PRESS \<Longrightarrow> key_presses [plain_event k d] = []"
  by (simp add: key_presses_def plain_event_def)

lemma opcodes_differ:
  "CEC_MSG_USER_CONTROL_PRESSED \<noteq> CEC_MSG_USER_CONTROL_RELEASED"
  "CEC_MSG_USER_CONTROL_PRESSED \<noteq> CEC_MSG_STANDBY"
  "CEC_MSG_USER_CONTROL_PRESSED \<noteq> CEC_MSG_IMAGE_VIEW_ON"
  "CEC_MSG_USER_CONTROL_PRESSED \<noteq> CEC_MSG_TEXT_VIEW_ON"
  "CEC_MSG_USER_CONTROL_PRESSED \<noteq> CEC_MSG_SET_STREAM_PATH"
  "CEC_MSG_USER_CONTROL_PRESSED \<noteq> CEC_MSG_ACTIVE_SOURCE"
  by (simp_all add: CEC_MSG_USER_CONTROL_PRESSED_def CEC_MSG_USER_CONTROL_RELEASED_def
      CEC_MSG_STANDBY_def CEC_MSG_IMAGE_VIEW_ON_def CEC_MSG_TEXT_VIEW_ON_def
      CEC_MSG_SET_STREAM_PATH_def CEC_MSG_ACTIVE_SOURCE_def)

lemma decode_keys:
  assumes "decode m a = (Inr ev, a')"
  shows "key_presses (case ev of Some e \<Rightarrow> [e] | None \<Rightarrow> []) =
    (case pressed_key m of Some k \<Rightarrow> [Some k] | None \<Rightarrow> [])"
proof (cases "opcode m = Some CEC_MSG_USER_CONTROL_PRESSED \<and> operands m \<noteq> []")
  case True
  then show ?thesis
    using assms by (auto simp: decode_def Let_def pressed_key_def key_presses_def)
next
  case False
  then show ?thesis
    using assms
    by (auto simp: decode_def Let_def pressed_key_def key_presses_def plain_event_def
        split: prod.splits option.splits if_splits)
qed

lemma drain_messages_keys:
  "drain_messages ms e out a = (Inr evs, a') \<Longrightarrow>
     key_presses evs = key_presses out @ map Some (List.map_filter pressed_key ms)"
proof (induction ms e out a rule: drain_messages.induct)
  case (1 e out a)
  then show ?case by (cases e) (auto simp: List.map_filter_simps)
next
  case (2 m ms e out a)
  obtain ev a1 where d: "decode m a = (Inr ev, a1)"
    and r: "drain_messages ms e (case ev of Some e \<Rightarrow> out @ [e] | None \<Rightarrow> out) a1 = (Inr evs, a')"
    using 2(2) by (auto split: prod.splits sum.splits)
  have "key_presses (case ev of Some e \<Rightarrow> out @ [e] | None \<Rightarrow> out) =
      key_presses out @ (case pressed_key m of Some k \<Rightarrow> [Some k] | None \<Rightarrow> [])"
    using decode_keys [OF d] by (cases ev) simp_all
  then show ?case
    using 2(1) [OF d [symmetric] refl r]
    by (simp add: List.map_filter_simps split: option.splits)
qed

lemma on_state_change_keys:
  "on_state_change claim p a = (Inr evs, a') \<Longrightarrow> key_presses evs = []"
  by (auto simp: on_state_change_def Let_def key_presses_plain
      split: if_splits prod.splits sum.splits option.splits bool.splits)

lemma drain_events_keys:
  "drain_events claim raws e out a = (Inr evs, a') \<Longrightarrow> key_presses evs = key_presses out"
proof (induction claim raws e out a rule: drain_events.induct)
  case (1 claim e out a)
  then show ?case by (cases e) auto
next
  case (2 claim raw raws e out a)
  then show ?case
    by (auto dest: on_state_change_keys split: if_splits prod.splits sum.splits)
qed

section \<open>Without a link\<close>

text \<open>No HDMI link, and nothing sent beyond \<open>s\<close>.\<close>

definition silent :: "cec_msg list \<Rightarrow> cec_adapter \<Rightarrow> bool" where
  "silent s a \<longleftrightarrow> phys_addr a = CEC_PHYS_ADDR_INVALID \<and> sent a = s"

lemma announce_silent: "silent s a \<Longrightarrow> announce a = (None, a)"
  by (simp add: silent_def announce_def)

lemma decode_silent: "silent s a \<Longrightarrow> silent s (snd (decode m a))"
  by (auto simp: decode_def Let_def announce_silent)

lemma drain_messages_silent:
  "silent s a \<Longrightarrow> silent s (snd (drain_messages ms e out a))"
proof (induction ms e out a rule: drain_messages.induct)
  case (1 e out a)
  then show ?case by (cases e) auto
next
  case (2 m ms e out a)
  then show ?case
    using decode_silent [OF 2(2), of m] by (auto split: prod.splits sum.splits)
qed

definition no_link_event :: "raw_event \<Rightarrow> bool" where
  "no_link_event raw \<longleftrightarrow>
     raw_kind raw \<noteq> CEC_EVENT_STATE_CHANGE \<or> raw_phys_addr raw = CEC_PHYS_ADDR_INVALID"

lemma drain_events_silent:
  "silent s a \<Longrightarrow> list_all no_link_event raws \<Longrightarrow> silent s (snd (drain_events claim raws e out a))"
proof (induction claim raws e out a rule: drain_events.induct)
  case (1 claim e out a)
  then show ?case by (cases e) auto
next
  case (2 claim raw raws e out a)
  show ?case
  proof (cases "raw_kind raw = CEC_EVENT_STATE_CHANGE")
    case True
    let ?ev = "[plain_event ADAPTER_LOST ''hdmi unplugged'']"
    let ?a = "a\<lparr>phys_addr := CEC_PHYS_ADDR_INVALID, log_addr := CEC_LOG_ADDR_UNREGISTERED\<rparr>"
    have o: "on_state_change claim (raw_phys_addr raw) a = (Inr ?ev, ?a)"
      using True 2(4) by (simp add: on_state_change_def no_link_event_def)
    have "silent s ?a" using 2(3) by (simp add: silent_def)
    then show ?thesis
      using 2(1) [OF True o [symmetric] refl] 2(4) True o by simp
  next
    case False
    then show ?thesis using 2 by simp
  qed
qed

lemma drain_device_silent:
  assumes "silent s a" and "list_all no_link_event (event_queue p)"
  shows "silent s (snd (drain_device claim p pri pin out a))"
proof -
  let ?r = "if pri then drain_events claim (event_queue p) (event_end p) [] a else (Inr [], a)"
  have 1: "silent s (snd ?r)" using assms drain_events_silent by auto
  then have "silent s (snd (if pin then drain_messages (message_queue p) (message_end p) [] (snd ?r)
      else (Inr [], snd ?r)))"
    using drain_messages_silent by auto
  with 1 show ?thesis
    by (auto simp: drain_device_def split: prod.splits sum.splits if_splits)
qed

lemma poll_loop_silent:
  "silent s a \<Longrightarrow> list_all no_link_event (event_queue p) \<Longrightarrow>
     silent s (snd (poll_loop claim p rs out a))"
proof (induction claim p rs out a rule: poll_loop.induct)
  case (3 claim p pri pin rs out a)
  then show ?case
    using drain_device_silent [OF 3(2,3), of claim pri pin out]
    by (auto split: prod.splits sum.splits)
qed auto

section \<open>The active source\<close>

lemma phys_bytes_round_trip:
  "(push_bit 8 (ucast (phys_bytes p ! 0)) OR ucast (phys_bytes p ! 1) :: 16 word) = p"
proof -
  have m: "(0xFF :: 16 word) = mask 8" by (simp add: mask_eq_decr_exp)
  show ?thesis
    unfolding phys_bytes_def m by (rule bit_word_eqI) (auto simp: bit_simps not_less)
qed

text \<open>The messages of an announcement on a working adapter, in order.\<close>

definition active_source_msg :: "cec_adapter \<Rightarrow> cec_msg" where
  "active_source_msg a =
     build_msg ([push_bit 4 (log_addr a) OR CEC_LOG_ADDR_BROADCAST, CEC_MSG_ACTIVE_SOURCE] @
       phys_bytes (phys_addr a))"

lemma active_source_parts:
  "opcode (active_source_msg a) = Some CEC_MSG_ACTIVE_SOURCE"
  "operands (active_source_msg a) = phys_bytes (phys_addr a)"
  unfolding active_source_msg_def
  by (rule build_msg_accessors [OF _ append_Cons [THEN trans]];
      simp add: CEC_MAX_MSG_SIZE_def)+

lemma announce_sends:
  assumes "phys_addr a \<noteq> CEC_PHYS_ADDR_INVALID" and "log_addr a < 15" and "fd_open a"
    and "length (osd_bytes a) \<le> 14" and "osd_bytes a \<noteq> []"
  shows "announce a = (None, a\<lparr>sent := sent a @
    [build_msg [push_bit 4 (log_addr a) OR CEC_LOG_ADDR_TV, CEC_MSG_IMAGE_VIEW_ON],
     active_source_msg a,
     build_msg ([push_bit 4 (log_addr a) OR CEC_LOG_ADDR_TV, CEC_MSG_SET_OSD_NAME] @ osd_bytes a)]\<rparr>)"
proof -
  have "log_addr a \<noteq> CEC_LOG_ADDR_UNREGISTERED" and "\<not> 16 \<le> log_addr a"
    using assms(2) by (auto simp: CEC_LOG_ADDR_UNREGISTERED_def word_less_nat_alt word_le_nat_alt)
  then show ?thesis
    using assms by (simp add: announce_def transmit_def send_osd_name_def active_source_msg_def
        Let_def CEC_MAX_MSG_SIZE_def)
qed

section \<open>Properties\<close>

text \<open>C34. Whatever the kernel answers and in whatever order the backend is opened, announced,
  polled and closed, everything it ever hands to the kernel is well formed. A message has two
  to sixteen bytes, in a buffer of sixteen, from a logical address below 15 that the kernel
  granted in answer to a claim of this client: nothing is ever sent before a claim was granted.
  So the OSD name always fits, however long the configured name is. A claim asks for one
  address, that of a playback device, under a name of fifteen bytes that ends with a zero.\<close>

theorem sent_messages_ok:
  "list_all (\<lambda>m. 2 \<le> msg_len m \<and> msg_len m \<le> 16 \<and> length (msg_bytes m) = 16 \<and> initiator m < 15 \<and>
       (\<exists>cs r. prefix (cs @ [r]) (claims (foldl (adapter_step claim) (make_adapter osd_name) calls)) \<and>
          claim (cs @ [r]) = Some (initiator m)))
     (sent (foldl (adapter_step claim) (make_adapter osd_name) calls)) \<and>
   list_all (\<lambda>r. la_num_log_addrs r = 1 \<and> la_log_addr_type r = [CEC_LOG_ADDR_TYPE_PLAYBACK, 0, 0, 0] \<and>
       length (la_osd_name r) = 15 \<and> last (la_osd_name r) = 0)
     (claims (foldl (adapter_step claim) (make_adapter osd_name) calls))"
proof -
  let ?a = "foldl (adapter_step claim) (make_adapter osd_name) calls"
  have inv: "adapter_inv claim ?a"
    by (rule adapter.run_keeps [OF make_adapter_inv]) (simp add: list_all_iff)
  show ?thesis
    using inv playback_claim_ok by (auto simp: adapter_inv_def msg_ok_def list_all_iff dest!: granted_prefix)
qed

text \<open>C35. While there is no HDMI link the client keeps quiet: as long as the kernel reports no
  new physical address, a poll transmits nothing, whatever the other devices on the bus ask
  for, and the adapter still has no link afterwards.\<close>

theorem no_link_no_transmit:
  assumes "phys_addr a = CEC_PHYS_ADDR_INVALID"
    and "list_all (\<lambda>raw. raw_kind raw \<noteq> CEC_EVENT_STATE_CHANGE \<or>
      raw_phys_addr raw = CEC_PHYS_ADDR_INVALID) (event_queue p)"
  shows "sent (snd (cec_poll p claim a)) = sent a \<and>
    phys_addr (snd (cec_poll p claim a)) = CEC_PHYS_ADDR_INVALID"
proof -
  have "silent (sent a) a" using assms(1) by (simp add: silent_def)
  moreover have "list_all no_link_event (event_queue p)"
    using assms(2) by (simp add: no_link_event_def [abs_def])
  ultimately have "silent (sent a) (snd (poll_loop claim p (poll_ready p) [] a))"
    by (rule poll_loop_silent)
  with \<open>silent (sent a) a\<close> show ?thesis
    by (auto simp: silent_def cec_poll_def split: option.splits queue_end.splits)
qed

lemma no_link_no_transmit_witness:
  "sent (snd (cec_poll
      \<lparr>poll_error = None, poll_ready = [ReadyDevice True True],
       event_queue = [\<lparr>raw_kind = 1, raw_phys_addr = 0xFFFF\<rparr>], event_end = EAGAIN,
       message_queue = [build_msg [0x0F, 0x86, 0xFF, 0xFF]], message_end = EAGAIN\<rparr>
      (\<lambda>_. Some 4) (make_adapter [0x56]\<lparr>fd_open := True, log_addr := 4\<rparr>))) = []"
  using no_link_no_transmit [of "make_adapter [0x56]\<lparr>fd_open := True, log_addr := 4\<rparr>"
      "\<lparr>poll_error = None, poll_ready = [ReadyDevice True True],
       event_queue = [\<lparr>raw_kind = 1, raw_phys_addr = 0xFFFF\<rparr>], event_end = EAGAIN,
       message_queue = [build_msg [0x0F, 0x86, 0xFF, 0xFF]], message_end = EAGAIN\<rparr>"
      "\<lambda>_. Some 4"]
  by (simp add: make_adapter_def CEC_PHYS_ADDR_INVALID_def)

text \<open>No key press is lost, invented or reordered: a poll that returns gives exactly the
  key codes of the user-control messages with an operand in the kernel's queue, in their
  order, whatever other messages and events come between them.\<close>

theorem keys_in_order:
  assumes "fd_open a" and "poll_error p = None" and "poll_ready p = [ReadyDevice pri True]"
    and "cec_poll p claim a = (Inr evs, a')"
  shows "map key_code (filter (\<lambda>e. ev_kind e = KEY_PRESS) evs) =
    map Some (List.map_filter pressed_key (message_queue p))"
proof -
  obtain evs1 a1 msgs where
    1: "(if pri then drain_events claim (event_queue p) (event_end p) [] a else (Inr [], a)) = (Inr evs1, a1)"
    and 2: "drain_messages (message_queue p) (message_end p) [] a1 = (Inr msgs, a')"
    and 3: "evs = evs1 @ msgs"
    using assms
    by (auto simp: cec_poll_def drain_device_def split: prod.splits sum.splits if_splits)
  have "key_presses evs1 = []"
    using 1 drain_events_keys by (fastforce split: if_splits)
  then have "key_presses evs = map Some (List.map_filter pressed_key (message_queue p))"
    using drain_messages_keys [OF 2] 3 by simp
  then show ?thesis by (simp add: key_presses_def)
qed

lemma keys_in_order_witness:
  "\<exists>evs a'. cec_poll
      \<lparr>poll_error = None, poll_ready = [ReadyDevice False True], event_queue = [], event_end = EAGAIN,
       message_queue = [build_msg [0x04, 0x44, 0x01], build_msg [0x04, 0x45], build_msg [0x04, 0x44, 0x2B]],
       message_end = ETIMEDOUT\<rparr>
      (\<lambda>_. None) (make_adapter []\<lparr>fd_open := True\<rparr>) = (Inr evs, a') \<and>
    map key_code (filter (\<lambda>e. ev_kind e = KEY_PRESS) evs) = [Some 1, Some 0x2B]"
proof -
  let ?p = "\<lparr>poll_error = None, poll_ready = [ReadyDevice False True], event_queue = [], event_end = EAGAIN,
       message_queue = [build_msg [0x04, 0x44, 0x01], build_msg [0x04, 0x45], build_msg [0x04, 0x44, 0x2B]],
       message_end = ETIMEDOUT\<rparr>"
  let ?a = "make_adapter []\<lparr>fd_open := True\<rparr>"
  let ?evs = "[\<lparr>ev_kind = KEY_PRESS, key_code = Some 1, ev_detail = []\<rparr>, plain_event KEY_RELEASE [],
    \<lparr>ev_kind = KEY_PRESS, key_code = Some 0x2B, ev_detail = []\<rparr>]"
  have p: "cec_poll ?p (\<lambda>_. None) ?a = (Inr ?evs, ?a)" by code_simp
  have k: "List.map_filter pressed_key (message_queue ?p) = [1, 0x2B]" by code_simp
  have "map key_code (filter (\<lambda>e. ev_kind e = KEY_PRESS) ?evs) = map Some [1, 0x2B]"
    unfolding k [symmetric] by (rule keys_in_order [where pri = False, OF _ _ _ p]) simp_all
  then show ?thesis using p by (intro exI [of _ ?evs] exI [of _ ?a]) simp
qed

text \<open>C36. Announcing tells the TV the truth: on an open adapter with a link and a claimed
  address it sends Image View On, Active Source and Set OSD Name, in this order, and any
  other client that decodes the Active Source message learns exactly our physical address:
  it reports a lost source if and only if its own address differs.\<close>

theorem announce_active_source:
  assumes "phys_addr a \<noteq> CEC_PHYS_ADDR_INVALID" and "log_addr a < 15" and "fd_open a"
    and "length (osd_bytes a) \<le> 14" and "osd_bytes a \<noteq> []"
  shows "\<exists>m1 m3. announce a = (None, a\<lparr>sent := sent a @ [m1, active_source_msg a, m3]\<rparr>) \<and>
    opcode m1 = Some CEC_MSG_IMAGE_VIEW_ON \<and> opcode m3 = Some CEC_MSG_SET_OSD_NAME \<and>
    operands m3 = osd_bytes a \<and>
    decode (active_source_msg a) b =
      (Inr (if phys_addr b = phys_addr a then None
            else Some (plain_event ACTIVE_SOURCE_LOST (''source 0x'' @ show_hex4 (unat (phys_addr a))))), b)"
proof -
  let ?m1 = "build_msg [push_bit 4 (log_addr a) OR CEC_LOG_ADDR_TV, CEC_MSG_IMAGE_VIEW_ON]"
  let ?m3 = "build_msg ([push_bit 4 (log_addr a) OR CEC_LOG_ADDR_TV, CEC_MSG_SET_OSD_NAME] @ osd_bytes a)"
  have "opcode ?m1 = Some CEC_MSG_IMAGE_VIEW_ON"
    by (rule build_msg_accessors) (simp_all add: CEC_MAX_MSG_SIZE_def)
  moreover have "opcode ?m3 = Some CEC_MSG_SET_OSD_NAME" "operands ?m3 = osd_bytes a"
    using assms(4)
    by (auto intro: build_msg_accessors simp: CEC_MAX_MSG_SIZE_def)
  moreover have "decode (active_source_msg a) b =
      (Inr (if phys_addr b = phys_addr a then None
            else Some (plain_event ACTIVE_SOURCE_LOST (''source 0x'' @ show_hex4 (unat (phys_addr a))))), b)"
    by (simp add: decode_def Let_def active_source_parts phys_bytes_round_trip [unfolded One_nat_def]
        CEC_MSG_ACTIVE_SOURCE_def CEC_MSG_USER_CONTROL_PRESSED_def CEC_MSG_USER_CONTROL_RELEASED_def
        CEC_MSG_STANDBY_def CEC_MSG_IMAGE_VIEW_ON_def CEC_MSG_TEXT_VIEW_ON_def CEC_MSG_SET_STREAM_PATH_def)
  ultimately show ?thesis
    using announce_sends [OF assms] by blast
qed

lemma announce_active_source_witness:
  "\<exists>m1 m2 m3 b. announce (make_adapter [0x56]\<lparr>fd_open := True, log_addr := 4, phys_addr := 0x1000\<rparr>) =
      (None, make_adapter [0x56]\<lparr>fd_open := True, log_addr := 4, phys_addr := 0x1000, sent := [m1, m2, m3]\<rparr>) \<and>
    decode m2 (make_adapter []\<lparr>phys_addr := 0x1000\<rparr>) = (Inr None, b)"
proof -
  let ?a = "make_adapter [0x56]\<lparr>fd_open := True, log_addr := 4, phys_addr := 0x1000\<rparr>"
  have "phys_addr ?a \<noteq> CEC_PHYS_ADDR_INVALID" "log_addr ?a < 15" "fd_open ?a"
    "length (osd_bytes ?a) \<le> 14" "osd_bytes ?a \<noteq> []" "sent ?a = []"
    by (simp_all add: make_adapter_def CEC_PHYS_ADDR_INVALID_def word_less_nat_alt)
  note a = this
  from announce_active_source [OF a(1-5), of "make_adapter []\<lparr>phys_addr := 0x1000\<rparr>"] a(6)
  show ?thesis by auto
qed

end
