(* ===== verification/Cec_Reader.thy ===== *)
theory Cec_Reader
  imports Cec_Kernel Py_Value
begin

text \<open>
  \<open>cec/__init__.py\<close>, \<open>cec/libcec.py\<close> and the rest of \<open>cec/base.py\<close>: the abstract backend as a
  record of its operations, the two backends besides the kernel's, the choice among them,
  and the reader thread as a machine whose steps are the statements of \<open>_run\<close> and \<open>_pump\<close>
  that talk to the backend or to the callback. The contract of a backend is the locale
  \<open>cec_backend_contract\<close>; all three backends fulfil it, and from it follows that the reader
  never reads an adapter that is not open. What a call of the outside world returns is the
  input of a step.
\<close>

section \<open>The abstract backend\<close>

record ('i, 'b) cec_backend =
  op_open :: "'i \<Rightarrow> 'b \<Rightarrow> 'b outcome"
  op_announce :: "'i \<Rightarrow> 'b \<Rightarrow> 'b outcome"
  op_poll :: "'i \<Rightarrow> 'b \<Rightarrow> cec_event list result \<times> 'b"
  op_close :: "'b \<Rightarrow> 'b"

record kernel_input =
  in_open :: open_replies
  in_poll :: poll_replies

definition kernel_backend :: "claimer \<Rightarrow> (kernel_input, cec_adapter) cec_backend" where
  "kernel_backend claim =
     \<lparr>op_open = (\<lambda>i. cec_open (in_open i) claim), op_announce = (\<lambda>_. announce),
      op_poll = (\<lambda>i. cec_poll (in_poll i) claim), op_close = cec_close\<rparr>"

subsection \<open>NullCecBackend\<close>

record null_backend =
  null_reason :: string
  null_stop :: bool

definition null_cec_backend :: "(unit, null_backend) cec_backend" where
  "null_cec_backend =
     \<lparr>op_open = (\<lambda>_ b. (None, b\<lparr>null_stop := False\<rparr>)), op_announce = (\<lambda>_ b. (None, b)),
      op_poll = (\<lambda>_ b. (Inr [], b)), op_close = (\<lambda>b. b\<lparr>null_stop := True\<rparr>)\<rparr>"

subsection \<open>LibCecBackend\<close>

record lib_cec =
  lib_osd_name :: string
  lib_events :: "cec_event list"
  lib_ready :: bool
  lib_closed :: bool

definition make_lib_cec :: "string \<Rightarrow> lib_cec" where
  "make_lib_cec osd_name =
     \<lparr>lib_osd_name = take 14 osd_name, lib_events = [], lib_ready = False, lib_closed = False\<rparr>"

text \<open>The callbacks of libcec put events into the queue.\<close>

definition lib_on_key :: "int \<Rightarrow> int \<Rightarrow> lib_cec \<Rightarrow> lib_cec" where
  "lib_on_key key duration b =
     b\<lparr>lib_events := lib_events b @
         [\<lparr>ev_kind = (if duration \<noteq> 0 then KEY_RELEASE else KEY_PRESS), key_code = Some key,
           ev_detail = []\<rparr>]\<rparr>"

definition lib_on_command :: "string \<Rightarrow> lib_cec \<Rightarrow> lib_cec" where
  "lib_on_command command b =
     (let parts = split_char (CHR '':'') command in
      if 2 \<le> length parts \<and> py_lower (parts ! 1) = ''36''
      then b\<lparr>lib_events := lib_events b @ [plain_event STANDBY ''tv standby'']\<rparr> else b)"

text \<open>What libcec does: whether the import and the initialisation work, and the callbacks that
  run while \<open>poll\<close> waits.\<close>

datatype lib_call = LibKey int int | LibCommand string

fun lib_callback :: "lib_call \<Rightarrow> lib_cec \<Rightarrow> lib_cec" where
  "lib_callback (LibKey key duration) b = lib_on_key key duration b"
| "lib_callback (LibCommand command) b = lib_on_command command b"

record lib_input =
  lib_import :: bool
  lib_init :: bool
  lib_callbacks :: "lib_call list"

definition lib_open :: "lib_input \<Rightarrow> lib_cec \<Rightarrow> lib_cec outcome" where
  "lib_open i b =
     (if \<not> lib_import i then (Some CecError, b)
      else if \<not> lib_init i then (Some CecError, b\<lparr>lib_ready := True\<rparr>)
      else (None, b\<lparr>lib_ready := True, lib_closed := False\<rparr>))"

text \<open>\<open>poll\<close> waits for a first event, then takes all that are there.\<close>

definition lib_poll :: "lib_input \<Rightarrow> lib_cec \<Rightarrow> cec_event list result \<times> lib_cec" where
  "lib_poll i b =
     (let b = fold lib_callback (lib_callbacks i) b in (Inr (lib_events b), b\<lparr>lib_events := []\<rparr>))"

definition lib_close :: "lib_cec \<Rightarrow> lib_cec" where
  "lib_close b =
     b\<lparr>lib_closed := True, lib_events := lib_events b @ [plain_event ADAPTER_LOST ''closing''],
       lib_ready := False\<rparr>"

definition lib_cec_backend :: "(lib_input, lib_cec) cec_backend" where
  "lib_cec_backend =
     \<lparr>op_open = lib_open, op_announce = (\<lambda>_ b. (None, b)), op_poll = lib_poll,
      op_close = lib_close\<rparr>"

section \<open>The choice of a backend\<close>

datatype backend_choice =
    UseNull string
  | UseKernel string string
  | UseLibCec string

definition create_backend :: "bool \<Rightarrow> bool \<Rightarrow> string \<Rightarrow> string \<Rightarrow> string \<Rightarrow> backend_choice" where
  "create_backend device_exists libcec_importable backend device osd_name =
     (if backend = ''none'' then UseNull ''cec-backend=none''
      else if backend \<in> {''kernel'', ''auto''} \<and> device_exists then UseKernel device osd_name
      else if backend = ''kernel'' then UseNull (device @ '' not present'')
      else if backend \<in> {''libcec'', ''auto''} then
        (if \<not> libcec_importable then
           (if backend = ''libcec'' then UseNull ''python3-cec not available''
            else UseNull (''no CEC adapter ('' @ device @ '' missing, no libcec)''))
         else UseLibCec osd_name)
      else UseNull (''unknown backend '' @ str_repr backend))"

section \<open>The reader thread\<close>

datatype reader_phase =
    AtRun
  | Opening
  | Announcing
  | AtPump
  | InPoll
  | Delivering "cec_event list"
  | Returned
  | Died py_error

record 'b reader =
  rd_phase :: reader_phase
  rd_backend :: 'b
  rd_stop :: bool
  rd_polled :: "cec_event list"
  rd_delivered :: "cec_event list"

definition start_reader :: "'b \<Rightarrow> 'b reader" where
  "start_reader b =
     \<lparr>rd_phase = AtRun, rd_backend = b, rd_stop = False, rd_polled = [], rd_delivered = []\<rparr>"

text \<open>
  One step of the thread. \<open>AtRun\<close> is the head of the loop of \<open>_run\<close>, which tests the stop event;
  a CecError of \<open>open\<close> is followed by a wait and the head again. \<open>AtPump\<close> is the head of the loop
  of \<open>_pump\<close>, where an OSError of \<open>poll\<close> closes the adapter and returns to \<open>_run\<close>. Between the test
  and the call that follows it another thread may stop the reader. Any other exception ends the thread. An
  exception of the callback is caught, so a delivery always goes on to the next event.
\<close>

definition reader_step :: "('i, 'b) cec_backend \<Rightarrow> 'b reader \<Rightarrow> 'i \<Rightarrow> 'b reader" where
  "reader_step be r i =
     (case rd_phase r of
        AtRun \<Rightarrow>
          r\<lparr>rd_phase := (if rd_stop r then Returned else Opening)\<rparr>
      | Opening \<Rightarrow>
          (case op_open be i (rd_backend r) of
             (None, b) \<Rightarrow> r\<lparr>rd_phase := Announcing, rd_backend := b\<rparr>
           | (Some e, b) \<Rightarrow>
               r\<lparr>rd_phase := (if e = CecError then AtRun else Died e), rd_backend := b\<rparr>)
      | Announcing \<Rightarrow>
          (case op_announce be i (rd_backend r) of
             (None, b) \<Rightarrow> r\<lparr>rd_phase := AtPump, rd_backend := b\<rparr>
           | (Some e, b) \<Rightarrow> r\<lparr>rd_phase := Died e, rd_backend := b\<rparr>)
      | AtPump \<Rightarrow>
          r\<lparr>rd_phase := (if rd_stop r then AtRun else InPoll)\<rparr>
      | InPoll \<Rightarrow>
          (case op_poll be i (rd_backend r) of
             (Inr evs, b) \<Rightarrow>
               r\<lparr>rd_phase := Delivering evs, rd_backend := b, rd_polled := rd_polled r @ evs\<rparr>
           | (Inl e, b) \<Rightarrow>
               if e = OSError then r\<lparr>rd_phase := AtRun, rd_backend := op_close be b\<rparr>
               else r\<lparr>rd_phase := Died e, rd_backend := b\<rparr>)
      | Delivering [] \<Rightarrow> r\<lparr>rd_phase := AtPump\<rparr>
      | Delivering (ev # evs) \<Rightarrow>
          r\<lparr>rd_phase := Delivering evs, rd_delivered := rd_delivered r @ [ev]\<rparr>
      | Returned \<Rightarrow> r
      | Died e \<Rightarrow> r)"

text \<open>\<open>CecReader.stop\<close>, from another thread at any moment: it sets the event, then it closes the
  backend. The reader may take any number of steps between the two.\<close>

definition reader_stop_set :: "'b reader \<Rightarrow> 'b reader" where
  "reader_stop_set r = r\<lparr>rd_stop := True\<rparr>"

definition reader_stop_close :: "('i, 'b) cec_backend \<Rightarrow> 'b reader \<Rightarrow> 'b reader" where
  "reader_stop_close be r = r\<lparr>rd_backend := op_close be (rd_backend r)\<rparr>"

definition reader_stop :: "('i, 'b) cec_backend \<Rightarrow> 'b reader \<Rightarrow> 'b reader" where
  "reader_stop be r = reader_stop_close be (reader_stop_set r)"

datatype 'i reader_input = ThreadStep 'i | StopSets | StopCloses

fun reader_event :: "('i, 'b) cec_backend \<Rightarrow> 'b reader \<Rightarrow> 'i reader_input \<Rightarrow> 'b reader" where
  "reader_event be r (ThreadStep i) = reader_step be r i"
| "reader_event be r StopSets = reader_stop_set r"
| "reader_event be r StopCloses = (if rd_stop r then reader_stop_close be r else r)"

section \<open>The contract of a backend\<close>

definition reads_adapter :: "reader_phase \<Rightarrow> bool" where
  "reads_adapter p \<longleftrightarrow> (case p of Announcing \<Rightarrow> True | AtPump \<Rightarrow> True | InPoll \<Rightarrow> True | Delivering _ \<Rightarrow> True | _ \<Rightarrow> False)"

locale cec_backend_contract =
  fixes be :: "('i, 'b) cec_backend"
    and is_open :: "'b \<Rightarrow> bool"
  assumes open_opens: "op_open be i b = (None, b') \<Longrightarrow> is_open b'"
    and announce_keeps: "is_open b \<Longrightarrow> is_open (snd (op_announce be i b))"
    and poll_keeps: "is_open b \<Longrightarrow> is_open (snd (op_poll be i b))"
    and close_closes: "\<not> is_open (op_close be b)"
begin

lemma step_reads_open:
  assumes "reads_adapter (rd_phase r) \<Longrightarrow> \<not> rd_stop r \<Longrightarrow> is_open (rd_backend r)"
    and "reads_adapter (rd_phase (reader_event be r e))" and "\<not> rd_stop (reader_event be r e)"
  shows "is_open (rd_backend (reader_event be r e))"
proof (cases e)
  case StopSets
  then show ?thesis using assms(3) by (simp add: reader_stop_set_def)
next
  case StopCloses
  then show ?thesis using assms by (simp add: reader_stop_close_def split: if_splits)
next
  case (ThreadStep i)
  have ns: "\<not> rd_stop r"
    using assms(3) ThreadStep
    by (auto simp: reader_step_def split: reader_phase.splits list.splits prod.splits option.splits
        sum.splits if_splits)
  show ?thesis
    using assms(1,2) ns open_opens [of i "rd_backend r"] announce_keeps [of "rd_backend r" i]
      poll_keeps [of "rd_backend r" i] ThreadStep
    by (cases "rd_phase r")
      (auto simp: reader_step_def reads_adapter_def
        split: list.splits prod.splits option.splits sum.splits if_splits)
qed

lemma run_reads_open:
  "(reads_adapter (rd_phase r) \<Longrightarrow> \<not> rd_stop r \<Longrightarrow> is_open (rd_backend r)) \<Longrightarrow>
     reads_adapter (rd_phase (foldl (reader_event be) r es)) \<Longrightarrow>
     \<not> rd_stop (foldl (reader_event be) r es) \<Longrightarrow> is_open (rd_backend (foldl (reader_event be) r es))"
proof (induction es arbitrary: r)
  case Nil
  then show ?case by simp
next
  case (Cons e es)
  show ?case
    using Cons.IH [of "reader_event be r e"] step_reads_open [OF Cons.prems(1), of e] Cons.prems(2,3)
    by simp
qed

end

section \<open>The backends fulfil the contract\<close>

lemma transmit_fd [simp]: "fd_open (snd (transmit d op ops a)) = fd_open a"
  by (auto simp: transmit_def Let_def)

lemma then_do_fd:
  "(\<And>a. fd_open (snd (f a)) = fd_open a) \<Longrightarrow> fd_open (snd (then_do r f)) = fd_open (snd r)"
  by (auto simp: then_do_def split: prod.splits option.splits)

lemma announce_fd [simp]: "fd_open (snd (announce a)) = fd_open a"
  by (simp add: announce_def then_do_fd send_osd_name_def)

lemma claim_fd [simp]: "fd_open (snd (claim_logical_address claim a)) = fd_open a"
  by (auto simp: claim_logical_address_def Let_def split: option.splits)

lemma announce_fdD: "announce a = (e, a') \<Longrightarrow> fd_open a' = fd_open a"
  using announce_fd [of a] by simp

lemma claim_fdD: "claim_logical_address claim a = (c, a') \<Longrightarrow> fd_open a' = fd_open a"
  using claim_fd [of claim a] by simp

lemma on_state_change_fd: "on_state_change claim p a = (r, a') \<Longrightarrow> fd_open a' = fd_open a"
  by (auto simp: on_state_change_def Let_def dest!: announce_fdD claim_fdD
      split: if_splits prod.splits option.splits sum.splits bool.splits)

lemma decode_fd: "decode m a = (r, a') \<Longrightarrow> fd_open a' = fd_open a"
  by (auto simp: decode_def Let_def dest!: announce_fdD split: if_splits prod.splits option.splits)

lemma drain_events_fd: "drain_events claim raws e out a = (r, a') \<Longrightarrow> fd_open a' = fd_open a"
proof (induction claim raws e out a rule: drain_events.induct)
  case (1 claim e out a)
  then show ?case by (cases e) auto
next
  case (2 claim raw raws e out a)
  then show ?case
    by (auto dest: on_state_change_fd split: if_splits prod.splits sum.splits)
qed

lemma drain_messages_fd: "drain_messages ms e out a = (r, a') \<Longrightarrow> fd_open a' = fd_open a"
proof (induction ms e out a rule: drain_messages.induct)
  case (1 e out a)
  then show ?case by (cases e) auto
next
  case (2 m ms e out a)
  then show ?case by (auto dest: decode_fd split: prod.splits sum.splits)
qed

lemma poll_loop_fd: "poll_loop claim p rs out a = (r, a') \<Longrightarrow> fd_open a' = fd_open a"
proof (induction claim p rs out a rule: poll_loop.induct)
  case (3 claim p pri pin rs out a)
  then show ?case
    by (auto simp: drain_device_def dest: drain_events_fd drain_messages_fd
        split: prod.splits sum.splits if_splits)
qed auto

lemma cec_poll_fd: "fd_open (snd (cec_poll p claim a)) = fd_open a"
  using poll_loop_fd [of claim p "poll_ready p" "[]" a]
  by (cases "poll_loop claim p (poll_ready p) [] a")
    (auto simp: cec_poll_def split: option.splits queue_end.splits)

interpretation kernel: cec_backend_contract "kernel_backend claim" fd_open for claim
  by unfold_locales
    (auto simp: kernel_backend_def cec_open_def cec_close_def cec_poll_fd Let_def dest!: claim_fdD
      split: if_splits option.splits prod.splits sum.splits)

interpretation null: cec_backend_contract null_cec_backend "\<lambda>b. \<not> null_stop b"
  by unfold_locales (auto simp: null_cec_backend_def)

lemma lib_callback_ready [simp]: "lib_ready (lib_callback c b) = lib_ready b"
  by (cases c) (auto simp: lib_on_key_def lib_on_command_def Let_def)

lemma fold_lib_callback_ready [simp]: "lib_ready (fold lib_callback cs b) = lib_ready b"
  by (induction cs arbitrary: b) auto

interpretation libcec: cec_backend_contract lib_cec_backend lib_ready
  by unfold_locales
    (auto simp: lib_cec_backend_def lib_open_def lib_poll_def lib_close_def Let_def split: if_splits)

section \<open>What the reader keeps\<close>

definition pending :: "reader_phase \<Rightarrow> cec_event list" where
  "pending p = (case p of Delivering evs \<Rightarrow> evs | _ \<Rightarrow> [])"

definition reader_order :: "'b reader \<Rightarrow> bool" where
  "reader_order r \<longleftrightarrow> rd_polled r = rd_delivered r @ pending (rd_phase r)"

lemma reader_order_step: "reader_order r \<Longrightarrow> reader_order (reader_event be r e)"
proof (cases e)
  case StopSets
  then show "reader_order r \<Longrightarrow> ?thesis" by (simp add: reader_order_def reader_stop_set_def)
next
  case StopCloses
  then show "reader_order r \<Longrightarrow> ?thesis" by (simp add: reader_order_def reader_stop_close_def)
next
  case (ThreadStep i)
  then show "reader_order r \<Longrightarrow> ?thesis"
    by (cases "rd_phase r")
      (auto simp: reader_order_def reader_step_def pending_def
        split: list.splits prod.splits option.splits sum.splits)
qed

interpretation reader: invariant_machine "reader_event be" reader_order "\<lambda>_. True" for be
  by unfold_locales (rule reader_order_step)

lemma start_reader_order: "reader_order (start_reader b)"
  by (simp add: reader_order_def start_reader_def pending_def)

text \<open>A retry against an adapter that opens but cannot claim addresses.\<close>

lemma retry_step:
  assumes "reply_open (in_open i)" and "reply_caps (in_open i) = Some caps"
    and "caps AND CEC_CAP_LOG_ADDRS = 0" and "rd_phase r = AtRun" and "\<not> rd_stop r"
  shows "reader_step (kernel_backend claim) (reader_step (kernel_backend claim) r i) i = r\<lparr>rd_backend :=
    (rd_backend r)\<lparr>fd_open := True, wake_open := True, open_fds := open_fds (rd_backend r) + 3\<rparr>\<rparr>"
  using assms by (simp add: reader_step_def kernel_backend_def cec_open_def Let_def)

lemma retries:
  assumes "reply_open (in_open i)" and "reply_caps (in_open i) = Some caps"
    and "caps AND CEC_CAP_LOG_ADDRS = 0"
  shows "rd_phase (foldl (reader_step (kernel_backend claim)) (start_reader a) (replicate (2 * n) i)) = AtRun \<and>
    \<not> rd_stop (foldl (reader_step (kernel_backend claim)) (start_reader a) (replicate (2 * n) i)) \<and>
    open_fds (rd_backend (foldl (reader_step (kernel_backend claim)) (start_reader a) (replicate (2 * n) i))) =
      open_fds a + 3 * n"
proof (induction n)
  case 0
  then show ?case by (simp add: start_reader_def)
next
  case (Suc n)
  let ?step = "reader_step (kernel_backend claim)"
  have "replicate (2 * Suc n) i = replicate (2 * n) i @ [i, i]"
    using replicate_add [of "2 * n" 2 i] by (simp add: numeral_2_eq_2)
  then have "foldl ?step (start_reader a) (replicate (2 * Suc n) i) =
      ?step (?step (foldl ?step (start_reader a) (replicate (2 * n) i)) i) i"
    by (simp only: foldl_append foldl.simps)
  then show ?case using Suc retry_step [OF assms] by simp
qed

section \<open>The end of the thread\<close>

text \<open>After \<open>stop\<close> a poll that was about to start finds the adapter closed, and none starts any more.\<close>

definition closed_poll :: "cec_adapter reader \<Rightarrow> bool" where
  "closed_poll r \<longleftrightarrow> (rd_stop r \<longrightarrow> rd_phase r = InPoll \<longrightarrow> \<not> fd_open (rd_backend r))"

lemma closed_poll_step: "closed_poll r \<Longrightarrow> closed_poll (reader_step (kernel_backend claim) r i)"
  by (cases "rd_phase r")
    (auto simp: closed_poll_def reader_step_def split: list.splits prod.splits option.splits sum.splits if_splits)

lemma reader_stop_facts:
  "rd_stop (reader_stop be r)" "rd_phase (reader_stop be r) = rd_phase r"
  "rd_polled (reader_stop be r) = rd_polled r" "reader_order (reader_stop be r) = reader_order r"
  "closed_poll (reader_stop (kernel_backend claim) r')"
  by (simp_all add: reader_stop_def reader_stop_set_def reader_stop_close_def reader_order_def
      closed_poll_def kernel_backend_def cec_close_def)

text \<open>How many more steps a stopped thread can take.\<close>

definition reader_work :: "reader_phase \<Rightarrow> nat" where
  "reader_work p =
     (case p of
        Returned \<Rightarrow> 0 | Died _ \<Rightarrow> 0 | AtRun \<Rightarrow> 1 | AtPump \<Rightarrow> 2 | Announcing \<Rightarrow> 3 | Opening \<Rightarrow> 4
      | Delivering evs \<Rightarrow> 3 + length evs | InPoll \<Rightarrow> 4)"

lemma stopped_step:
  assumes "rd_stop r" and "closed_poll r" and "reader_order r"
  shows "rd_stop (reader_step (kernel_backend claim) r i) \<and>
    closed_poll (reader_step (kernel_backend claim) r i) \<and>
    reader_order (reader_step (kernel_backend claim) r i) \<and>
    rd_polled (reader_step (kernel_backend claim) r i) = rd_polled r \<and>
    reader_work (rd_phase (reader_step (kernel_backend claim) r i)) \<le> reader_work (rd_phase r) - 1"
proof -
  have "closed_poll (reader_step (kernel_backend claim) r i)"
    "reader_order (reader_event (kernel_backend claim) r (ThreadStep i))"
    using assms closed_poll_step reader_order_step by blast+
  moreover have "op_poll (kernel_backend claim) i (rd_backend r) = (Inr [], rd_backend r)"
    if "rd_phase r = InPoll"
    using that assms by (simp add: closed_poll_def kernel_backend_def cec_poll_def)
  ultimately show ?thesis
    using assms(1)
    by (cases "rd_phase r")
      (auto simp: reader_step_def reader_work_def split: list.splits prod.splits option.splits)
qed

lemma reader_work_0: "reader_work p = 0 \<Longrightarrow> p = Returned \<or> (\<exists>e. p = Died e)"
  by (cases p) (auto simp: reader_work_def)

lemma stopped_runs_out:
  assumes "rd_stop r" and "closed_poll r" and "reader_order r" and "4 + length (pending (rd_phase r)) \<le> length is"
  shows "\<exists>r'. r' = foldl (reader_step (kernel_backend claim)) r is \<and>
    (rd_phase r' = Returned \<or> (\<exists>e. rd_phase r' = Died e)) \<and>
    rd_polled r' = rd_polled r \<and> rd_delivered r' = rd_polled r"
proof -
  let ?r = "\<lambda>is. foldl (reader_step (kernel_backend claim)) r is"
  have run: "rd_stop (?r is) \<and> closed_poll (?r is) \<and> reader_order (?r is) \<and> rd_polled (?r is) = rd_polled r \<and>
      reader_work (rd_phase (?r is)) \<le> reader_work (rd_phase r) - length is" for "is"
  proof (induction "is" rule: rev_induct)
    case Nil
    then show ?case using assms by simp
  next
    case (snoc i "is")
    then show ?case using stopped_step [of "?r is" claim i] by auto
  qed
  have "reader_work (rd_phase r) \<le> 4 + length (pending (rd_phase r))"
    by (simp add: reader_work_def pending_def split: reader_phase.split)
  then have "reader_work (rd_phase (?r is)) = 0" using run [of "is"] assms(4) by simp
  note ended = reader_work_0 [OF this]
  then have "pending (rd_phase (?r is)) = []" by (auto simp: pending_def)
  then show ?thesis using run [of "is"] ended by (auto simp: reader_order_def)
qed

section \<open>Properties\<close>

text \<open>C37. The reader thread never announces on or polls an adapter that is not open, unless
  another thread has asked it to stop: this holds along every run, whatever the kernel
  answers, through every failed read, reopening and retry.\<close>

theorem reader_reads_open_adapter:
  assumes "r = foldl (reader_event (kernel_backend claim)) (start_reader a) es"
    and "rd_phase r \<in> {Announcing, AtPump, InPoll} \<or> rd_phase r = Delivering evs"
    and "\<not> rd_stop r"
  shows "fd_open (rd_backend r)"
  using kernel.run_reads_open [of "start_reader a" claim es] assms
  by (auto simp: start_reader_def reads_adapter_def)

lemma reader_reads_open_adapter_witness:
  "\<exists>r :: cec_adapter reader. rd_phase r = Announcing \<and> fd_open (rd_backend r) \<and> open_fds (rd_backend r) = 3"
proof -
  let ?i = "\<lparr>in_open = \<lparr>reply_open = True, reply_caps = Some 4, reply_mode = True, reply_phys = Some 0x1000\<rparr>,
    in_poll = \<lparr>poll_error = None, poll_ready = [], event_queue = [], event_end = EAGAIN,
      message_queue = [], message_end = EAGAIN\<rparr>\<rparr>"
  let ?r = "foldl (reader_event (kernel_backend (\<lambda>_. Some 4))) (start_reader (make_adapter [0x56]))
    [ThreadStep ?i, ThreadStep ?i]"
  have p: "rd_phase ?r = Announcing" and s: "\<not> rd_stop ?r" and o: "open_fds (rd_backend ?r) = 3"
    by code_simp+
  have "fd_open (rd_backend ?r)"
    by (rule reader_reads_open_adapter [OF refl disjI1 s]) (subst p, simp)
  with p o show ?thesis by blast
qed

text \<open>With any backend at all, the callback receives the events in exactly the order in which
  they were polled, each once: what was delivered is always a prefix of what was polled, and
  the rest is what the thread is still delivering. A callback that raises loses nothing.\<close>

theorem reader_delivers_in_order:
  "rd_polled (foldl (reader_event be) (start_reader b) es) =
     rd_delivered (foldl (reader_event be) (start_reader b) es) @
     (case rd_phase (foldl (reader_event be) (start_reader b) es) of Delivering evs \<Rightarrow> evs | _ \<Rightarrow> [])"
  using reader.run_keeps [OF start_reader_order, of es be b]
  by (simp add: reader_order_def pending_def list_all_iff)

text \<open>Stopping the reader ends it, and soon: once another thread has set the event and closed the
  adapter, the thread polls nothing new and ends within four steps more than the events it is
  still delivering, whatever the kernel answers and wherever it was, in the middle of opening
  the adapter included; it delivers exactly those events.\<close>

theorem stopped_reader_ends:
  assumes "r = reader_stop (kernel_backend claim) (foldl (reader_event (kernel_backend claim)) (start_reader a) es)"
    and "4 + length (case rd_phase r of Delivering evs \<Rightarrow> evs | _ \<Rightarrow> []) \<le> length is"
  shows "\<exists>r'. r' = foldl (reader_step (kernel_backend claim)) r is \<and>
    (rd_phase r' = Returned \<or> (\<exists>e. rd_phase r' = Died e)) \<and>
    rd_polled r' = rd_polled r \<and> rd_delivered r' = rd_polled r"
proof -
  let ?r = "foldl (reader_event (kernel_backend claim)) (start_reader a) es"
  have "reader_order ?r" by (rule reader.run_keeps [OF start_reader_order]) (simp add: list_all_iff)
  then show ?thesis
    using stopped_runs_out [OF _ reader_stop_facts(5), of claim ?r "is" claim] assms
    by (simp add: reader_stop_facts pending_def)
qed

lemma stopped_reader_ends_witness:
  "\<exists>i (r :: cec_adapter reader). rd_phase r = Opening \<and> rd_stop r \<and>
     (let r' = foldl (reader_step (kernel_backend (\<lambda>_. Some 4))) r [i, i, i, i]
      in (rd_phase r' = Returned \<or> (\<exists>e. rd_phase r' = Died e)) \<and> rd_delivered r' = [])"
proof -
  let ?i = "\<lparr>in_open = \<lparr>reply_open = True, reply_caps = Some 4, reply_mode = True, reply_phys = Some 0x1000\<rparr>,
    in_poll = \<lparr>poll_error = None, poll_ready = [], event_queue = [], event_end = EAGAIN,
      message_queue = [], message_end = EAGAIN\<rparr>\<rparr>"
  let ?be = "kernel_backend (\<lambda>_. Some 4)"
  let ?r = "reader_stop ?be (foldl (reader_event ?be) (start_reader (make_adapter [0x56])) [ThreadStep ?i, StopSets])"
  have r: "rd_phase ?r = Opening" "rd_stop ?r" "rd_polled ?r = []" by code_simp+
  have "4 + length (case rd_phase ?r of Delivering evs \<Rightarrow> evs | _ \<Rightarrow> []) \<le> length [?i, ?i, ?i, ?i]"
    unfolding r(1) by simp
  from stopped_reader_ends [OF refl this] r show ?thesis by (auto simp: Let_def)
qed

text \<open>A device that opens but cannot claim logical addresses makes \<open>open\<close> raise CecError with
  its descriptors still open, and the reader retries without closing: after \<open>n\<close> retries, of two
  steps each, the
  process holds \<open>3 n\<close> more descriptors than at the start.\<close>

theorem failing_open_leaks:
  assumes "reply_open (in_open i)" and "reply_caps (in_open i) = Some caps"
    and "caps AND CEC_CAP_LOG_ADDRS = 0"
  shows "open_fds (rd_backend (foldl (reader_step (kernel_backend claim)) (start_reader a) (replicate (2 * n) i))) =
    open_fds a + 3 * n"
  using retries [OF assms] by blast

lemma failing_open_leaks_witness:
  "\<exists>i. open_fds (rd_backend (foldl (reader_step (kernel_backend (\<lambda>_. None)))
     (start_reader (make_adapter [])) (replicate 800 i))) = 1200"
proof -
  let ?i = "\<lparr>in_open = \<lparr>reply_open = True, reply_caps = Some 8, reply_mode = True, reply_phys = None\<rparr>,
    in_poll = \<lparr>poll_error = None, poll_ready = [], event_queue = [], event_end = EAGAIN,
      message_queue = [], message_end = EAGAIN\<rparr>\<rparr>"
  have "open_fds (rd_backend (foldl (reader_step (kernel_backend (\<lambda>_. None)))
      (start_reader (make_adapter [])) (replicate (2 * 400) ?i))) = open_fds (make_adapter []) + 3 * 400"
    by (rule failing_open_leaks [where caps = 8 and n = 400]) (simp_all add: CEC_CAP_LOG_ADDRS_def)
  then show ?thesis by (intro exI [of _ ?i]) (simp add: make_adapter_def)
qed

text \<open>An ioctl of \<open>open\<close> that fails with an OSError (an adapter that goes away while it is
  being opened) is not the CecError that the reader retries: the thread dies, and the remote
  stays dead until the client is restarted.\<close>

theorem oserror_in_open_kills_reader:
  assumes "rd_phase r = Opening" and "reply_open (in_open i)" and "reply_caps (in_open i) = None"
  shows "rd_phase (foldl (reader_step (kernel_backend claim)) r (i # is)) = Died OSError"
proof -
  have dead: "rd_phase r = Died e \<Longrightarrow> rd_phase (foldl (reader_step be) r js) = Died e"
    for be :: "('i, 'b) cec_backend" and r e js
    by (induction js arbitrary: r) (auto simp: reader_step_def)
  have "rd_phase (reader_step (kernel_backend claim) r i) = Died OSError"
    using assms by (simp add: reader_step_def kernel_backend_def cec_open_def Let_def)
  from dead [OF this] show ?thesis by simp
qed

lemma oserror_in_open_kills_reader_witness:
  "\<exists>i j. rd_phase (foldl (reader_step (kernel_backend (\<lambda>_. None))) (start_reader (make_adapter []))
     [j, i, i, i]) = Died OSError"
proof -
  let ?i = "\<lparr>in_open = \<lparr>reply_open = True, reply_caps = None, reply_mode = True, reply_phys = None\<rparr>,
    in_poll = \<lparr>poll_error = None, poll_ready = [], event_queue = [], event_end = EAGAIN,
      message_queue = [], message_end = EAGAIN\<rparr>\<rparr>"
  let ?r = "reader_step (kernel_backend (\<lambda>_. None)) (start_reader (make_adapter [])) ?i"
  have "rd_phase (foldl (reader_step (kernel_backend (\<lambda>_. None))) ?r [?i, ?i, ?i]) = Died OSError"
    by (rule oserror_in_open_kills_reader) (simp_all add: reader_step_def start_reader_def)
  then have "rd_phase (foldl (reader_step (kernel_backend (\<lambda>_. None))) (start_reader (make_adapter []))
      [?i, ?i, ?i, ?i]) = Died OSError"
    by simp
  then show ?thesis by blast
qed

end
