(* ===== verification/Controller.thy ===== *)
theory Controller
  imports Window Firstrun Cec_Reader
begin

text \<open>
  \<open>controller.py\<close>, with the key handler and \<open>idle\<close> of \<open>ui/app.py\<close>: what wires the other
  components together. Its state holds the timers that are pending, the worker threads and
  where each of them is, the calls that were marshalled onto the GTK main loop and have not
  run yet, the carousel's GLib source, and the window. Network answers and disk failures are
  arguments of the worker that meets them. Delays are in milliseconds.
\<close>

section \<open>State\<close>

text \<open>A call that \<open>idle\<close> queues for the main loop.\<close>

datatype call =
    CallSetupStatus setup_message bool
  | CallLeaveSetup
  | CallEnrolment caption
  | CallToast toast_message
  | CallApply client_config bool
  | CallStatus string
  | CallDispatch key_action
  | CallBlank bool

datatype timer_kind = RefreshTimer | RegistrationTimer

record timer =
  tm_id :: nat
  tm_kind :: timer_kind
  tm_delay :: int

text \<open>Where a worker thread is. A refresh is fetching (with the delay and the client it read when
  it started), about to check whether it may be scheduled again, or past that check and about
  to start the timer; a registration holds the configuration it read.\<close>

datatype worker =
    Fetching int config
  | Scheduling int
  | Starting int
  | Polling config
  | SetupStarting
  | SetupRegistering config

record controller =
  k_config :: config
  k_client :: config
  k_window :: window
  k_server_default :: "string option"
  k_refresh_timer :: "nat option"
  k_registration_timer :: "nat option"
  k_timers :: "timer list"
  k_next_timer :: nat
  k_workers :: "worker list"
  k_idle :: "call list"
  k_rotate_source :: nat
  k_rotations :: "nat list"
  k_rotating :: bool
  k_stopped :: bool
  k_backend :: "backend_choice option"
  k_fs :: fs

definition make_controller :: "config \<Rightarrow> window \<Rightarrow> fs \<Rightarrow> controller" where
  "make_controller c w fs =
     \<lparr>k_config = c, k_client = c, k_window = w, k_server_default = None, k_refresh_timer = None,
      k_registration_timer = None, k_timers = [], k_next_timer = 0, k_workers = [], k_idle = [],
      k_rotate_source = 0, k_rotations = [], k_rotating = (rotate_interval c \<noteq> 0),
      k_stopped = False, k_backend = None, k_fs = fs\<rparr>"

definition idle :: "call \<Rightarrow> controller \<Rightarrow> controller" where
  "idle c k = k\<lparr>k_idle := k_idle k @ [c]\<rparr>"

definition on_window :: "(window \<Rightarrow> window) \<Rightarrow> controller \<Rightarrow> controller" where
  "on_window f k = k\<lparr>k_window := f (k_window k)\<rparr>"

section \<open>Timers\<close>

definition FIRST_REFRESH_DELAY :: int where "FIRST_REFRESH_DELAY = 1000"

definition AUTH_RETRY_SECONDS :: int where "AUTH_RETRY_SECONDS = 900"

definition start_refresh_timer :: "int \<Rightarrow> controller \<Rightarrow> controller" where
  "start_refresh_timer delay k =
     k\<lparr>k_timers := k_timers k @ [\<lparr>tm_id = k_next_timer k, tm_kind = RefreshTimer, tm_delay = delay\<rparr>],
       k_refresh_timer := Some (k_next_timer k), k_next_timer := k_next_timer k + 1\<rparr>"

definition may_refresh :: "controller \<Rightarrow> bool" where
  "may_refresh k \<longleftrightarrow> \<not> (k_stopped k \<or> refresh_interval (k_config k) = 0)"

definition schedule_refresh :: "int \<Rightarrow> controller \<Rightarrow> controller" where
  "schedule_refresh delay k = (if may_refresh k then start_refresh_timer delay k else k)"

definition start_registration_timer :: "int \<Rightarrow> controller \<Rightarrow> controller" where
  "start_registration_timer delay k =
     k\<lparr>k_timers := k_timers k @ [\<lparr>tm_id = k_next_timer k, tm_kind = RegistrationTimer, tm_delay = delay\<rparr>],
       k_registration_timer := Some (k_next_timer k), k_next_timer := k_next_timer k + 1\<rparr>"

definition start_registration :: "controller \<Rightarrow> controller" where
  "start_registration k =
     (if server_url (k_config k) = [] \<or> api_token (k_config k) \<noteq> [] then k
      else start_registration_timer 500 k)"

section \<open>The carousel\<close>

definition cancel_rotation :: "controller \<Rightarrow> controller" where
  "cancel_rotation k =
     (if k_rotate_source k \<noteq> 0
      then k\<lparr>k_rotations := remove1 (k_rotate_source k) (k_rotations k), k_rotate_source := 0\<rparr>
      else k)"

text \<open>The new source takes the next id of the main loop, which hands out ids to toasts too.\<close>

definition add_rotation :: "controller \<Rightarrow> controller" where
  "add_rotation k =
     (let i = w_next_source (k_window k) in
      k\<lparr>k_window := (k_window k)\<lparr>w_next_source := i + 1\<rparr>, k_rotations := k_rotations k @ [i],
        k_rotate_source := i\<rparr>)"

definition apply_rotation :: "controller \<Rightarrow> controller" where
  "apply_rotation k =
     (let k = cancel_rotation k in
      if \<not> (k_rotating k \<and> rotate_interval (k_config k) \<noteq> 0) then k else add_rotation k)"

definition rotate_now :: "controller \<Rightarrow> controller" where
  "rotate_now = on_window (handle_action (Act DASHBOARD_NEXT))"

definition restart_rotation_clock :: "controller \<Rightarrow> controller" where
  "restart_rotation_clock k = (if k_rotate_source k \<noteq> 0 then apply_rotation k else k)"

definition toggle_rotation :: "controller \<Rightarrow> controller" where
  "toggle_rotation k =
     (if rotate_interval (k_config k) = 0 then on_window (toast ToastNoCarousel) k
      else
        (let k = apply_rotation (k\<lparr>k_rotating := \<not> k_rotating k\<rparr>)
         in on_window (toast (if k_rotating k then ToastCarouselOn else ToastCarouselPaused)) k))"

definition dispatch :: "key_action \<Rightarrow> controller \<Rightarrow> controller" where
  "dispatch a k =
     (if a = Act ROTATE_TOGGLE then toggle_rotation k
      else on_window (handle_action a) (restart_rotation_clock k))"

section \<open>Applying what the server said\<close>

definition select_start_dashboard :: "controller \<Rightarrow> controller" where
  "select_start_dashboard k =
     (let wanted = (if start_dashboard (k_config k) \<noteq> [] then start_dashboard (k_config k)
                    else (case k_server_default k of Some i \<Rightarrow> i | None \<Rightarrow> [])) in
      if wanted = [] then k
      else
        (case index_of_id wanted (w_dashboards (k_window k)) 0 of
           Some index \<Rightarrow> on_window (show_index index) k
         | None \<Rightarrow> k))"

definition apply_config :: "client_config \<Rightarrow> bool \<Rightarrow> controller \<Rightarrow> controller outcome" where
  "apply_config cc from_cache k =
     (if from_cache \<and> dashboards cc = [] then (None, k)
      else
        (let had_none = (w_dashboards (k_window k) = []);
             k = k\<lparr>k_server_default := default_dashboard_id cc\<rparr>
         in case set_dashboards (dashboards cc) True (k_window k) of
              (Some e, w) \<Rightarrow> (Some e, k\<lparr>k_window := w\<rparr>)
            | (None, w) \<Rightarrow>
                (None, if had_none then select_start_dashboard (k\<lparr>k_window := w\<rparr>)
                       else k\<lparr>k_window := w\<rparr>)))"

text \<open>A call runs on the main loop; PyGObject prints an exception of a callback and goes on.\<close>

fun run_call :: "call \<Rightarrow> controller \<Rightarrow> controller" where
  "run_call (CallSetupStatus m err) k = on_window (setup_status m err) k"
| "run_call CallLeaveSetup k = on_window leave_setup k"
| "run_call (CallEnrolment c) k = on_window (set_enrolment_status c) k"
| "run_call (CallToast t) k = on_window (toast t) k"
| "run_call (CallApply cc from_cache) k = snd (apply_config cc from_cache k)"
| "run_call (CallStatus s) k = on_window (set_status s) k"
| "run_call (CallDispatch a) k = dispatch a k"
| "run_call (CallBlank b) k = on_window (set_blanked b) k"

section \<open>Refreshing\<close>

text \<open>The end of \<open>_refresh\<close>'s network call: what it does with the answer, and the delay that its
  \<open>finally\<close> hands to \<open>_schedule_refresh\<close>, in seconds. An exception that is no ApiError, and one
  of the cache, leaves the method after the \<open>finally\<close>.\<close>

definition refresh_answer ::
  "(fs_op \<Rightarrow> bool) \<Rightarrow> environ \<Rightarrow> (http_request \<Rightarrow> http_outcome) \<Rightarrow> int \<Rightarrow> config \<Rightarrow> controller \<Rightarrow>
   int \<times> controller" where
  "refresh_answer fails env urlopen delay client k =
     (case fetch_client_config client urlopen of
        Inl (AuthError _) \<Rightarrow> (max delay AUTH_RETRY_SECONDS, idle (CallToast ToastTokenRejected) k)
      | Inl (ApiError _) \<Rightarrow> (delay, idle (CallToast ToastUnreachable) k)
      | Inl _ \<Rightarrow> (delay, k)
      | Inr cc \<Rightarrow>
          (case cache_save fails (cache_dir env) cc (k_fs k) of
             (None, fs) \<Rightarrow> (delay, idle (CallApply cc False) (k\<lparr>k_fs := fs\<rparr>))
           | (Some _, fs) \<Rightarrow> (delay, k\<lparr>k_fs := fs\<rparr>)))"

section \<open>Enrolment\<close>

definition configure_from_setup :: "string \<Rightarrow> controller \<Rightarrow> controller" where
  "configure_from_setup url k =
     (let c = (k_config k)\<lparr>server_url := url\<rparr>;
          k = idle (CallSetupStatus Registering False) (k\<lparr>k_config := c, k_client := c\<rparr>)
      in k\<lparr>k_workers := k_workers k @ [SetupStarting]\<rparr>)"

text \<open>The rest of \<open>_register_from_setup\<close> once the server has answered, or not: the next point of
  the thread, if it goes on.\<close>

definition setup_answer ::
  "(fs_op \<Rightarrow> bool) \<Rightarrow> environ \<Rightarrow> (http_request \<Rightarrow> http_outcome) \<Rightarrow> config \<Rightarrow> controller \<Rightarrow>
   worker option \<times> controller" where
  "setup_answer fails env urlopen config k =
     (case attempt_registration fails env urlopen config (k_fs k) of
        Inl _ \<Rightarrow> (None, k)
      | Inr (answer, c, fs, _) \<Rightarrow>
          (let k = k\<lparr>k_config := c, k_fs := fs\<rparr> in
           case answer of
             None \<Rightarrow> (None, idle (CallSetupStatus (DidNotAnswer (server_url c)) True) k)
           | Some r \<Rightarrow>
               if reg_approved r \<and> api_token c \<noteq> [] then
                 (Some (Scheduling 500),
                  idle CallLeaveSetup
                    (idle (CallSetupStatus ApprovedStartingUp False) (k\<lparr>k_client := c\<rparr>)))
               else
                 (None,
                  start_registration
                    (idle (CallEnrolment WaitingForApproval)
                      (idle CallLeaveSetup (idle (CallSetupStatus RegisteredWaiting False) k))))))"

text \<open>The rest of \<open>_poll_registration\<close>.\<close>

definition poll_answer ::
  "(fs_op \<Rightarrow> bool) \<Rightarrow> environ \<Rightarrow> (http_request \<Rightarrow> http_outcome) \<Rightarrow> config \<Rightarrow> controller \<Rightarrow>
   worker option \<times> controller" where
  "poll_answer fails env urlopen config k =
     (case attempt_registration fails env urlopen config (k_fs k) of
        Inl _ \<Rightarrow> (None, k)
      | Inr (answer, c, fs, _) \<Rightarrow>
          (let k = k\<lparr>k_config := c, k_fs := fs\<rparr> in
           case answer of
             None \<Rightarrow> (None, start_registration_timer (1000 * POLL_SECONDS) k)
           | Some r \<Rightarrow>
               if reg_approved r \<and> api_token c \<noteq> [] then
                 (Some (Scheduling 500), idle (CallEnrolment WaitingForDashboards) (k\<lparr>k_client := c\<rparr>))
               else
                 (None,
                  start_registration_timer (1000 * POLL_SECONDS)
                    (if reg_pending r then idle (CallEnrolment WaitingForApproval) k
                     else if reg_approved r then idle (CallEnrolment ApprovedWithoutToken) k else k))))"

section \<open>Threads\<close>

text \<open>One move of a worker, and where it is afterwards; \<open>None\<close> when the thread has ended.\<close>

fun worker_move ::
  "(fs_op \<Rightarrow> bool) \<Rightarrow> environ \<Rightarrow> (http_request \<Rightarrow> http_outcome) \<Rightarrow> worker \<Rightarrow> controller \<Rightarrow>
   worker option \<times> controller" where
  "worker_move fails env urlopen (Fetching delay client) k =
     (let (next_delay, k) = refresh_answer fails env urlopen delay client k
      in (Some (Scheduling (1000 * next_delay)), k))"
| "worker_move fails env urlopen (Scheduling delay) k =
     (if may_refresh k then (Some (Starting delay), k) else (None, k))"
| "worker_move fails env urlopen (Starting delay) k = (None, start_refresh_timer delay k)"
| "worker_move fails env urlopen (Polling config) k = poll_answer fails env urlopen config k"
| "worker_move fails env urlopen SetupStarting k = (Some (SetupRegistering (k_config k)), k)"
| "worker_move fails env urlopen (SetupRegistering config) k =
     setup_answer fails env urlopen config k"

definition worker_step ::
  "(fs_op \<Rightarrow> bool) \<Rightarrow> environ \<Rightarrow> (http_request \<Rightarrow> http_outcome) \<Rightarrow> nat \<Rightarrow> controller \<Rightarrow> controller" where
  "worker_step fails env urlopen i k =
     (case worker_move fails env urlopen (k_workers k ! i) k of
        (Some p, k') \<Rightarrow> k'\<lparr>k_workers := (k_workers k)[i := p]\<rparr>
      | (None, k') \<Rightarrow> k'\<lparr>k_workers := take i (k_workers k) @ drop (Suc i) (k_workers k)\<rparr>)"

text \<open>A pending timer fires: its thread enters \<open>_refresh\<close>, which reads the delay and the client,
  or \<open>_poll_registration\<close>, which returns at once after \<open>stop\<close>.\<close>

definition fire_timer :: "timer \<Rightarrow> controller \<Rightarrow> controller" where
  "fire_timer t k =
     (let k = k\<lparr>k_timers := remove1 t (k_timers k)\<rparr> in
      case tm_kind t of
        RefreshTimer \<Rightarrow>
          k\<lparr>k_workers := k_workers k @ [Fetching (refresh_interval (k_config k)) (k_client k)]\<rparr>
      | RegistrationTimer \<Rightarrow>
          if k_stopped k then k else k\<lparr>k_workers := k_workers k @ [Polling (k_config k)]\<rparr>)"

section \<open>CEC\<close>

definition backend_name :: "backend_choice \<Rightarrow> string" where
  "backend_name b =
     (case b of
        UseNull _ \<Rightarrow> ''NullCecBackend''
      | UseKernel _ _ \<Rightarrow> ''KernelCecBackend''
      | UseLibCec _ \<Rightarrow> ''LibCecBackend'')"

definition backend_status :: "backend_choice \<Rightarrow> string" where
  "backend_status b =
     (let detail = (case b of UseNull reason \<Rightarrow> reason | _ \<Rightarrow> []) in
      if detail \<noteq> [] then backend_name b @ '' ('' @ detail @ '')'' else backend_name b)"

definition start_cec :: "bool \<Rightarrow> bool \<Rightarrow> controller \<Rightarrow> controller" where
  "start_cec device_exists libcec_importable k =
     (let b = create_backend device_exists libcec_importable (cec_backend (k_config k))
                (cec_device (k_config k)) (osd_name (k_config k))
      in idle (CallStatus (backend_status b)) (k\<lparr>k_backend := Some b\<rparr>))"

definition event_kind_value :: "cec_event_kind \<Rightarrow> string" where
  "event_kind_value kd =
     (case kd of
        KEY_PRESS \<Rightarrow> ''key.press''
      | KEY_RELEASE \<Rightarrow> ''key.release''
      | STANDBY \<Rightarrow> ''standby''
      | WAKE \<Rightarrow> ''wake''
      | ACTIVE_SOURCE_LOST \<Rightarrow> ''active_source.lost''
      | ADAPTER_READY \<Rightarrow> ''adapter.ready''
      | ADAPTER_LOST \<Rightarrow> ''adapter.lost'')"

text \<open>The call that an event leads to, if any. \<open>action_for\<close> never raises on a key code.\<close>

definition event_call :: "cec_event \<Rightarrow> call option" where
  "event_call e =
     (case ev_kind e of
        KEY_PRESS \<Rightarrow>
          (case key_code e of
             None \<Rightarrow> None
           | Some code \<Rightarrow>
               (case action_for code of Inr (Some a) \<Rightarrow> Some (CallDispatch a) | _ \<Rightarrow> None))
      | STANDBY \<Rightarrow> Some (CallBlank True)
      | WAKE \<Rightarrow> Some (CallBlank False)
      | ADAPTER_READY \<Rightarrow> Some (CallStatus (event_kind_value (ev_kind e) @ '' ('' @ ev_detail e @ '')''))
      | ADAPTER_LOST \<Rightarrow> Some (CallStatus (event_kind_value (ev_kind e) @ '' ('' @ ev_detail e @ '')''))
      | _ \<Rightarrow> None)"

definition on_cec_event :: "cec_event \<Rightarrow> controller \<Rightarrow> controller" where
  "on_cec_event e k = (case event_call e of Some c \<Rightarrow> idle c k | None \<Rightarrow> k)"

section \<open>The main loop\<close>

text \<open>A key of the keyboard: whether the kiosk takes it, and the window afterwards. It goes to the
  window and not through \<open>dispatch\<close>.\<close>

definition on_key_pressed :: "string \<Rightarrow> controller \<Rightarrow> bool \<times> controller" where
  "on_key_pressed name k =
     (if w_needs_setup (k_window k) then (False, k)
      else
        (case action_for_key_name name of
           Inr (Some a) \<Rightarrow> (True, on_window (handle_action a) k)
         | _ \<Rightarrow> (False, k)))"

text \<open>Enter in the setup screen's entry, which must be sensitive for that; a saved address is
  handed to the controller.\<close>

definition submit_address ::
  "(fs_op \<Rightarrow> bool) \<Rightarrow> environ \<Rightarrow> string \<Rightarrow> controller \<Rightarrow> controller" where
  "submit_address fails env text k =
     (case submit_setup fails env (w_on_configured (k_window k)) text (k_fs k) (w_setup (k_window k)) of
        (_, s, fs, told) \<Rightarrow>
          (let k = on_window (\<lambda>w. w\<lparr>w_setup := s\<rparr>) (k\<lparr>k_fs := fs\<rparr>)
           in case told of None \<Rightarrow> k | Some url \<Rightarrow> configure_from_setup url k))"

text \<open>Attaching connects the setup screen before it loads the cache, so the connection is there
  even when that raises.\<close>

definition connect_setup :: "controller \<Rightarrow> controller" where
  "connect_setup k = on_window (\<lambda>w. w\<lparr>w_on_configured := True\<rparr>) k"

definition attach ::
  "environ \<Rightarrow> bool \<Rightarrow> bool \<Rightarrow> controller \<Rightarrow> controller outcome" where
  "attach env device_exists libcec_importable k =
     (case cache_load (cache_dir env) (k_fs k) (base_url (k_client k)) of
        Inl e \<Rightarrow> (Some e, connect_setup k)
      | Inr cc \<Rightarrow>
          then_do (apply_config cc True (connect_setup k)) (\<lambda>k.
            (None,
             apply_rotation (schedule_refresh FIRST_REFRESH_DELAY
               (start_registration (start_cec device_exists libcec_importable k))))))"

text \<open>\<open>stop\<close> cancels the two timers it still has references to.\<close>

definition cancels :: "controller \<Rightarrow> timer \<Rightarrow> bool" where
  "cancels k t \<longleftrightarrow> k_refresh_timer k = Some (tm_id t) \<or> k_registration_timer k = Some (tm_id t)"

definition stop :: "controller \<Rightarrow> controller" where
  "stop k =
     cancel_rotation
       (k\<lparr>k_stopped := True, k_timers := filter (\<lambda>t. \<not> cancels k t) (k_timers k)\<rparr>)"

section \<open>Steps\<close>

text \<open>
  The threads interleave. A worker moves, a timer fires; on the main loop the first queued
  call runs, the carousel or the toast's timer fires, WebKit reports, a key is pressed, a row
  of the chooser is clicked, an address is submitted; the CEC reader delivers an event; a
  signal stops the controller. The answers of the server are arbitrary, except that the pages
  it lists have addresses that parse (\<open>page_ok\<close>, the guard of the window).
\<close>

definition pages_parse :: "config \<Rightarrow> (http_request \<Rightarrow> http_outcome) \<Rightarrow> bool" where
  "pages_parse client urlopen \<longleftrightarrow>
     (case fetch_client_config client urlopen of
        Inr cc \<Rightarrow> list_all page_ok (dashboards cc)
      | Inl _ \<Rightarrow> True)"

fun worker_ok :: "(http_request \<Rightarrow> http_outcome) \<Rightarrow> worker \<Rightarrow> bool" where
  "worker_ok urlopen (Fetching delay client) = pages_parse client urlopen"
| "worker_ok urlopen _ = True"

inductive background :: "environ \<Rightarrow> controller \<Rightarrow> controller \<Rightarrow> bool" for env where
  timer_fires: "t \<in> set (k_timers k) \<Longrightarrow> background env k (fire_timer t k)"
| worker_moves: "i < length (k_workers k) \<Longrightarrow> worker_ok urlopen (k_workers k ! i) \<Longrightarrow>
    background env k (worker_step fails env urlopen i k)"

text \<open>The client's own doing, and what GTK, WebKit and the people in front of the screen add.\<close>

inductive own_step :: "environ \<Rightarrow> controller \<Rightarrow> controller \<Rightarrow> bool" for env where
  in_background: "background env k k' \<Longrightarrow> own_step env k k'"
| carousel: "k_rotations k \<noteq> [] \<Longrightarrow> own_step env k (rotate_now k)"
| toast_ends: "own_step env k (on_window (fire_source i) k)"
| page_loads: "own_step env k (on_window (on_load_changed e i) k)"
| page_fails: "own_step env k (on_window (\<lambda>w. snd (on_load_failed uri w)) k)"
| key: "own_step env k (snd (on_key_pressed name k))"
| row_clicked: "own_step env k (on_window (on_menu_activate i) k)"
| address: "w_needs_setup (k_window k) \<Longrightarrow> st_sensitive (w_setup (k_window k)) \<Longrightarrow>
    own_step env k (submit_address fails env text k)"
| system: "own_step env k (on_window (\<lambda>w. w\<lparr>w_local_ip := ip, w_cec_present := present\<rparr>) k)"

text \<open>With the calls that the main loop runs, the events that the CEC reader delivers, and the end.\<close>

inductive ctl_step :: "environ \<Rightarrow> controller \<Rightarrow> controller \<Rightarrow> bool" for env where
  own: "own_step env k k' \<Longrightarrow> ctl_step env k k'"
| call_runs: "k_idle k = c # cs \<Longrightarrow> ctl_step env k (run_call c (k\<lparr>k_idle := cs\<rparr>))"
| cec: "ctl_step env k (on_cec_event e k)"
| stopping: "ctl_step env k (stop k)"

inductive_cases background_cases: "background env k k'"
inductive_cases own_step_cases: "own_step env k k'"
inductive_cases ctl_step_cases: "ctl_step env k k'"

text \<open>The states a client can reach once its window is up and the controller attached.\<close>

inductive reachable :: "environ \<Rightarrow> config \<Rightarrow> controller \<Rightarrow> bool" for env c where
  attached: "make_window c dirs = Inr w \<Longrightarrow>
    attach env device_exists libcec_importable (make_controller c w fs) = (None, k) \<Longrightarrow>
    (\<And>cc. cache_load (cache_dir env) fs (base_url c) = Inr cc \<Longrightarrow> list_all page_ok (dashboards cc)) \<Longrightarrow>
    reachable env c k"
| steps: "reachable env c k \<Longrightarrow> ctl_step env k k' \<Longrightarrow> reachable env c k'"

section \<open>What the controller keeps\<close>

text \<open>The configuration changes in its address and its token only.\<close>

definition same_settings :: "config \<Rightarrow> config \<Rightarrow> bool" where
  "same_settings c c' \<longleftrightarrow> (\<exists>u t. c' = c\<lparr>server_url := u, api_token := t\<rparr>)"

fun worker_inv :: "config \<Rightarrow> worker \<Rightarrow> bool" where
  "worker_inv c (Fetching delay client) = (delay = refresh_interval c)"
| "worker_inv c (Polling config) = same_settings c config"
| "worker_inv c (SetupRegistering config) = same_settings c config"
| "worker_inv c _ = True"

fun call_ok :: "call \<Rightarrow> bool" where
  "call_ok (CallApply cc from_cache) = list_all page_ok (dashboards cc)"
| "call_ok _ = True"

fun refreshing :: "worker \<Rightarrow> bool" where
  "refreshing (Fetching delay client) = True"
| "refreshing (Scheduling delay) = True"
| "refreshing (Starting delay) = True"
| "refreshing _ = False"

text \<open>Some refresh is pending or under way.\<close>

definition chain_alive :: "controller \<Rightarrow> bool" where
  "chain_alive k \<longleftrightarrow>
     (\<exists>t \<in> set (k_timers k). tm_kind t = RefreshTimer) \<or> (\<exists>p \<in> set (k_workers k). refreshing p)"

text \<open>The carousel's source is the one that is pending, and it is there exactly when the carousel
  is on, until \<open>stop\<close>.\<close>

definition one_rotation :: "controller \<Rightarrow> bool" where
  "one_rotation k \<longleftrightarrow> k_rotations k = (if k_rotate_source k = 0 then [] else [k_rotate_source k])"

definition carousel_on :: "controller \<Rightarrow> bool" where
  "carousel_on k \<longleftrightarrow> k_rotating k \<and> rotate_interval (k_config k) \<noteq> 0"

definition rotation_inv :: "controller \<Rightarrow> bool" where
  "rotation_inv k \<longleftrightarrow>
     one_rotation k \<and> (k_rotate_source k \<noteq> 0 \<longrightarrow> carousel_on k) \<and>
     (\<not> k_stopped k \<longrightarrow> carousel_on k \<longrightarrow> k_rotate_source k \<noteq> 0)"

definition threads_inv :: "config \<Rightarrow> controller \<Rightarrow> bool" where
  "threads_inv c k \<longleftrightarrow>
     same_settings c (k_config k) \<and> list_all (worker_inv c) (k_workers k) \<and>
     list_all call_ok (k_idle k) \<and>
     (\<not> k_stopped k \<and> refresh_interval c \<noteq> 0 \<longrightarrow> chain_alive k)"

definition ctl_inv :: "config \<Rightarrow> controller \<Rightarrow> bool" where
  "ctl_inv c k \<longleftrightarrow> win_inv (k_window k) \<and> rotation_inv k \<and> threads_inv c k"

subsection \<open>The main loop leaves the threads alone\<close>

definition behind :: "controller \<Rightarrow> config \<times> worker list \<times> timer list \<times> bool \<times> call list" where
  "behind k = (k_config k, k_workers k, k_timers k, k_stopped k, k_idle k)"

lemma threads_inv_behind: "behind k = behind k' \<Longrightarrow> threads_inv c k = threads_inv c k'"
  by (simp add: behind_def threads_inv_def chain_alive_def)

lemma on_window_fields [simp]:
  "k_window (on_window f k) = f (k_window k)" "behind (on_window f k) = behind k"
  "k_rotating (on_window f k) = k_rotating k" "k_rotations (on_window f k) = k_rotations k"
  "k_rotate_source (on_window f k) = k_rotate_source k"
  by (simp_all add: on_window_def behind_def)

lemma behindD:
  assumes "behind k = behind k'"
  shows "k_config k = k_config k'" "k_workers k = k_workers k'" "k_timers k = k_timers k'"
    "k_stopped k = k_stopped k'" "k_idle k = k_idle k'"
  using assms by (simp_all add: behind_def)

lemma apply_rotation_fields [simp]:
  "behind (apply_rotation k) = behind k" "k_rotating (apply_rotation k) = k_rotating k"
  by (simp_all add: apply_rotation_def cancel_rotation_def add_rotation_def Let_def behind_def)

lemma rotation_ops_behind [simp]:
  "behind (restart_rotation_clock k) = behind k" "behind (toggle_rotation k) = behind k"
  "behind (dispatch a k) = behind k" "behind (rotate_now k) = behind k"
  by (simp_all add: restart_rotation_clock_def toggle_rotation_def dispatch_def rotate_now_def Let_def)
    (simp_all add: behind_def)

lemma apply_config_behind [simp]: "behind (snd (apply_config cc fc k)) = behind k"
  by (simp add: apply_config_def select_start_dashboard_def Let_def split: prod.split option.split)
    (simp add: behind_def)

lemma run_call_behind: "behind (run_call c k) = behind k"
  by (cases c) simp_all

subsection \<open>The window\<close>

lemma win_inv_next_source:
  assumes "win_inv w"
  shows "win_inv (w\<lparr>w_next_source := w_next_source w + 1\<rparr>)"
  by (rule win_inv_toast_only [OF assms])
    (use assms in \<open>simp_all add: screen_def win_inv_def base_inv_def toast_inv_def\<close>)

lemma apply_rotation_window:
  "win_inv (k_window k) \<Longrightarrow> win_inv (k_window (apply_rotation k))"
  using win_inv_next_source [of "k_window k"]
  by (simp add: apply_rotation_def cancel_rotation_def add_rotation_def Let_def)

lemma dispatch_window: "win_inv (k_window k) \<Longrightarrow> win_inv (k_window (dispatch a k))"
  using apply_rotation_window [of k] apply_rotation_window [of "k\<lparr>k_rotating := \<not> k_rotating k\<rparr>"]
  by (simp add: dispatch_def toggle_rotation_def restart_rotation_clock_def Let_def keep)

lemma apply_config_window:
  assumes "win_inv (k_window k)" and "list_all page_ok (dashboards cc)"
  shows "win_inv (k_window (snd (apply_config cc fc k)))"
proof -
  have "win_inv (snd (set_dashboards (dashboards cc) True (k_window k)))"
    by (rule win_inv_set_dashboards [OF assms])
  then show ?thesis
    using assms(1)
    by (auto simp: apply_config_def select_start_dashboard_def Let_def keep
        split: prod.split option.split)
qed

lemma run_call_window:
  assumes "win_inv (k_window k)" and "call_ok c"
  shows "win_inv (k_window (run_call c k))"
  using assms by (cases c) (simp_all add: keep dispatch_window apply_config_window)

subsection \<open>The carousel\<close>

lemma cancel_rotation_one:
  assumes "one_rotation k"
  shows "k_rotations (cancel_rotation k) = []" and "k_rotate_source (cancel_rotation k) = 0"
  using assms by (simp_all add: one_rotation_def cancel_rotation_def)

lemma cancel_rotation_fields [simp]:
  "k_window (cancel_rotation k) = k_window k" "k_rotating (cancel_rotation k) = k_rotating k"
  "behind (cancel_rotation k) = behind k" "k_config (cancel_rotation k) = k_config k"
  by (simp_all add: cancel_rotation_def behind_def)

lemma apply_rotation_inv:
  assumes "one_rotation k" and "win_inv (k_window k)"
  shows "one_rotation (apply_rotation k)"
    and "k_rotate_source (apply_rotation k) \<noteq> 0 \<longleftrightarrow> carousel_on (apply_rotation k)"
proof -
  let ?c = "cancel_rotation k"
  note c = cancel_rotation_one [OF assms(1)]
  have n: "w_next_source (k_window k) \<noteq> 0"
    using assms(2) by (simp add: win_inv_def base_inv_def toast_inv_def)
  have f: "apply_rotation k = (if carousel_on k then add_rotation ?c else ?c)"
    by (simp add: apply_rotation_def carousel_on_def)
  have "one_rotation ?c" "one_rotation (add_rotation ?c)"
    "k_rotate_source ?c = 0" "k_rotate_source (add_rotation ?c) \<noteq> 0"
    "carousel_on ?c = carousel_on k" "carousel_on (add_rotation ?c) = carousel_on k"
    using c n by (simp_all add: one_rotation_def carousel_on_def add_rotation_def Let_def)
  then show "one_rotation (apply_rotation k)"
    "k_rotate_source (apply_rotation k) \<noteq> 0 \<longleftrightarrow> carousel_on (apply_rotation k)"
    by (simp_all add: f)
qed

lemma rotation_inv_frame:
  assumes "rotation_inv k" and "k_rotations k' = k_rotations k"
    and "k_rotate_source k' = k_rotate_source k" and "k_rotating k' = k_rotating k"
    and "rotate_interval (k_config k') = rotate_interval (k_config k)" and "k_stopped k' = k_stopped k"
  shows "rotation_inv k'"
  using assms(1) unfolding rotation_inv_def one_rotation_def carousel_on_def assms(2-6) .

lemma rotation_inv_apply:
  assumes "one_rotation k" and "win_inv (k_window k)"
  shows "rotation_inv (apply_rotation k)"
  using apply_rotation_inv [OF assms] by (simp add: rotation_inv_def)

lemma rotation_inv_on_window: "rotation_inv k \<Longrightarrow> rotation_inv (on_window f k)"
  by (rule rotation_inv_frame) (simp_all add: on_window_def)

lemma rotation_inv_dispatch:
  assumes "rotation_inv k" and "win_inv (k_window k)"
  shows "rotation_inv (dispatch a k)"
proof -
  have o: "one_rotation k" "one_rotation (k\<lparr>k_rotating := \<not> k_rotating k\<rparr>)"
    using assms(1) by (simp_all add: rotation_inv_def one_rotation_def)
  have "rotation_inv (toggle_rotation k)"
    using rotation_inv_apply [OF o(2)] assms
    by (simp add: toggle_rotation_def Let_def rotation_inv_on_window)
  moreover have "rotation_inv (restart_rotation_clock k)"
    using rotation_inv_apply [OF o(1)] assms by (simp add: restart_rotation_clock_def)
  ultimately show ?thesis by (simp add: dispatch_def rotation_inv_on_window)
qed

lemma apply_config_rotation_fields [simp]:
  "k_rotations (snd (apply_config cc fc k)) = k_rotations k"
  "k_rotate_source (snd (apply_config cc fc k)) = k_rotate_source k"
  "k_rotating (snd (apply_config cc fc k)) = k_rotating k"
  by (simp_all add: apply_config_def select_start_dashboard_def Let_def split: prod.split option.split)

lemma rotation_inv_apply_config: "rotation_inv k \<Longrightarrow> rotation_inv (snd (apply_config cc fc k))"
  by (rule rotation_inv_frame)
    (simp_all add: behindD [OF apply_config_behind])

lemma run_call_rotation:
  assumes "rotation_inv k" and "win_inv (k_window k)"
  shows "rotation_inv (run_call c k)"
  using assms by (cases c) (simp_all add: rotation_inv_on_window rotation_inv_dispatch rotation_inv_apply_config)

subsection \<open>The threads\<close>

lemma same_settingsD:
  "same_settings c c' \<Longrightarrow> refresh_interval c' = refresh_interval c"
  "same_settings c c' \<Longrightarrow> rotate_interval c' = rotate_interval c"
  "same_settings c c' \<Longrightarrow> start_dashboard c' = start_dashboard c"
  by (auto simp: same_settings_def)

lemma same_settings_refl [simp]: "same_settings c c"
  unfolding same_settings_def by (intro exI [of _ "server_url c"] exI [of _ "api_token c"]) simp

lemma same_settings_update:
  assumes "same_settings c c'"
  shows "same_settings c (c'\<lparr>server_url := u\<rparr>)" and "same_settings c (c'\<lparr>api_token := t\<rparr>)"
proof -
  obtain u0 t0 where c': "c' = c\<lparr>server_url := u0, api_token := t0\<rparr>"
    using assms by (auto simp: same_settings_def)
  have "c'\<lparr>server_url := u\<rparr> = c\<lparr>server_url := u, api_token := t0\<rparr>"
    "c'\<lparr>api_token := t\<rparr> = c\<lparr>server_url := u0, api_token := t\<rparr>"
    by (simp_all add: c')
  then show "same_settings c (c'\<lparr>server_url := u\<rparr>)" "same_settings c (c'\<lparr>api_token := t\<rparr>)"
    unfolding same_settings_def by blast+
qed

lemma attempt_registration_config:
  assumes "attempt_registration fails env urlopen c0 fs = Inr (answer, c', fs', cmds)"
  obtains t where "c' = c0 \<or> c' = c0\<lparr>api_token := t\<rparr>"
  using assms by (auto simp: attempt_registration_def Let_def
      split: if_splits sum.splits py_error.splits prod.splits)

text \<open>What a move of a worker leaves alone, and what it adds.\<close>

definition move_frame :: "controller \<Rightarrow> controller \<Rightarrow> bool" where
  "move_frame k k' \<longleftrightarrow>
     k_window k' = k_window k \<and> k_rotations k' = k_rotations k \<and>
     k_rotate_source k' = k_rotate_source k \<and> k_rotating k' = k_rotating k \<and>
     k_stopped k' = k_stopped k \<and> k_workers k' = k_workers k \<and> set (k_timers k) \<subseteq> set (k_timers k')"

lemma move_frame_ops [simp]:
  "move_frame k k" "move_frame k (idle c k') = move_frame k k'"
  "move_frame k (k'\<lparr>k_config := cfg\<rparr>) = move_frame k k'"
  "move_frame k (k'\<lparr>k_client := cfg\<rparr>) = move_frame k k'"
  "move_frame k (k'\<lparr>k_fs := fs\<rparr>) = move_frame k k'"
  by (simp_all add: move_frame_def idle_def)

lemma move_frame_timers:
  "move_frame k k' \<Longrightarrow> move_frame k (start_refresh_timer d k')"
  "move_frame k k' \<Longrightarrow> move_frame k (start_registration_timer d k')"
  "move_frame k k' \<Longrightarrow> move_frame k (start_registration k')"
  by (auto simp: move_frame_def start_refresh_timer_def start_registration_timer_def
      start_registration_def)

text \<open>What a worker hands to the rest: the configuration, the queued calls and its next point.\<close>

definition hands_over :: "config \<Rightarrow> worker option \<Rightarrow> controller \<Rightarrow> bool" where
  "hands_over c p k \<longleftrightarrow>
     same_settings c (k_config k) \<and> list_all call_ok (k_idle k) \<and>
     (case p of Some q \<Rightarrow> worker_inv c q | None \<Rightarrow> True)"

lemma hands_over_ops [simp]:
  "hands_over c p (idle call k) = (call_ok call \<and> hands_over c p k)"
  "hands_over c p (k\<lparr>k_client := cfg\<rparr>) = hands_over c p k"
  "hands_over c p (k\<lparr>k_fs := fs\<rparr>) = hands_over c p k"
  "hands_over c p (start_refresh_timer d k) = hands_over c p k"
  "hands_over c p (start_registration_timer d k) = hands_over c p k"
  "hands_over c p (start_registration k) = hands_over c p k"
  by (auto simp: hands_over_def idle_def start_refresh_timer_def start_registration_timer_def
      start_registration_def)

lemma setup_answer_facts:
  assumes "same_settings c config" and "hands_over c None k"
    and "setup_answer fails env urlopen config k = (p, k')"
  shows "move_frame k k' \<and> hands_over c p k'"
proof (cases "attempt_registration fails env urlopen config (k_fs k)")
  case (Inl e)
  then show ?thesis using assms by (auto simp: setup_answer_def)
next
  case (Inr r)
  obtain answer c' fs' cmds where r: "r = (answer, c', fs', cmds)" by (cases r) auto
  let ?k = "k\<lparr>k_config := c', k_fs := fs'\<rparr>"
  have "same_settings c c'"
    using attempt_registration_config [of fails env urlopen config "k_fs k" answer c' fs' cmds]
      Inr r assms(1) same_settings_update(2) by metis
  then have "hands_over c None ?k" "hands_over c (Some (Scheduling 500)) ?k"
    using assms(2) by (simp_all add: hands_over_def)
  moreover have "move_frame k ?k" by simp
  ultimately show ?thesis
    using assms(3) Inr r
    by (auto simp: setup_answer_def Let_def move_frame_timers split: option.splits if_splits)
qed

lemma poll_answer_facts:
  assumes "same_settings c config" and "hands_over c None k"
    and "poll_answer fails env urlopen config k = (p, k')"
  shows "move_frame k k' \<and> hands_over c p k'"
proof (cases "attempt_registration fails env urlopen config (k_fs k)")
  case (Inl e)
  then show ?thesis using assms by (auto simp: poll_answer_def)
next
  case (Inr r)
  obtain answer c' fs' cmds where r: "r = (answer, c', fs', cmds)" by (cases r) auto
  let ?k = "k\<lparr>k_config := c', k_fs := fs'\<rparr>"
  have "same_settings c c'"
    using attempt_registration_config [of fails env urlopen config "k_fs k" answer c' fs' cmds]
      Inr r assms(1) same_settings_update(2) by metis
  then have "hands_over c None ?k" "hands_over c (Some (Scheduling 500)) ?k"
    using assms(2) by (simp_all add: hands_over_def)
  moreover have "move_frame k ?k" by simp
  ultimately show ?thesis
    using assms(3) Inr r
    by (auto simp: poll_answer_def Let_def move_frame_timers split: option.splits if_splits)
qed

lemma refresh_answer_facts:
  assumes "hands_over c None k" and "pages_parse client urlopen"
    and "refresh_answer fails env urlopen d client k = (n, k')"
  shows "move_frame k k' \<and> hands_over c None k'"
  using assms
  by (auto simp: refresh_answer_def pages_parse_def
      split: sum.splits py_error.splits prod.splits option.splits)

lemma hands_over_Scheduling: "hands_over c (Some (Scheduling d)) k = hands_over c None k"
  "hands_over c (Some (Starting d)) k = hands_over c None k"
  by (simp_all add: hands_over_def)

lemma worker_move_facts:
  assumes "worker_inv c p" and "worker_ok urlopen p" and "hands_over c None k"
    and "worker_move fails env urlopen p k = (p', k')"
  shows "move_frame k k' \<and> hands_over c p' k'"
proof (cases p)
  case (Fetching d client)
  obtain n k1 where r: "refresh_answer fails env urlopen d client k = (n, k1)" by fastforce
  show ?thesis
    using refresh_answer_facts [OF assms(3) _ r] assms(2,4) Fetching r
    by (auto simp: hands_over_Scheduling)
next
  case SetupStarting
  then show ?thesis using assms by (auto simp: hands_over_def)
next
  case (Polling config)
  then show ?thesis using assms poll_answer_facts by simp
next
  case (SetupRegistering config)
  then show ?thesis using assms setup_answer_facts by simp
qed (use assms in \<open>auto simp: hands_over_Scheduling move_frame_timers split: if_splits\<close>)

text \<open>A refresh that may go on goes on.\<close>

lemma worker_move_refresh:
  assumes "refreshing p" and "may_refresh k" and "worker_move fails env urlopen p k = (p', k')"
  shows "(\<exists>q. p' = Some q \<and> refreshing q) \<or> (\<exists>t \<in> set (k_timers k'). tm_kind t = RefreshTimer)"
  using assms by (cases p) (auto simp: start_refresh_timer_def split: prod.splits)

subsection \<open>Every step keeps it\<close>

lemma may_refresh_iff:
  "same_settings c (k_config k) \<Longrightarrow> may_refresh k \<longleftrightarrow> \<not> k_stopped k \<and> refresh_interval c \<noteq> 0"
  by (auto simp: may_refresh_def same_settingsD)

text \<open>Moving one worker keeps alive what the others, or the timers, carry.\<close>

lemma alive_move:
  assumes alive: "(\<exists>t \<in> set (k_timers k). timing t) \<or> (\<exists>p \<in> set (k_workers k). working p)"
    and i: "i < length (k_workers k)" and timers: "set (k_timers k) \<subseteq> set (k_timers k')"
    and moved: "working (k_workers k ! i) \<Longrightarrow>
      (\<exists>q. p' = Some q \<and> working q) \<or> (\<exists>t \<in> set (k_timers k'). timing t)"
  shows "(\<exists>t \<in> set (k_timers k'). timing t) \<or>
    (\<exists>p \<in> set (case p' of
        Some q \<Rightarrow> (k_workers k)[i := q]
      | None \<Rightarrow> take i (k_workers k) @ drop (Suc i) (k_workers k)). working p)"
proof -
  let ?ws = "k_workers k"
  have split: "?ws = take i ?ws @ ?ws ! i # drop (Suc i) ?ws" by (rule id_take_nth_drop [OF i])
  have upd: "?ws[i := q] = take i ?ws @ q # drop (Suc i) ?ws" for q by (rule upd_conv_take_nth_drop [OF i])
  consider t where "t \<in> set (k_timers k)" "timing t"
    | "working (?ws ! i)"
    | p where "p \<in> set (take i ?ws @ drop (Suc i) ?ws)" "working p"
    using alive split by (metis Un_iff list.set_intros set_ConsD set_append)
  then show ?thesis
  proof cases
    case 1
    then show ?thesis using timers by auto
  next
    case 2
    then show ?thesis using moved by (auto simp: upd)
  next
    case 3
    then show ?thesis by (auto simp: upd split: option.split)
  qed
qed

lemmas chain_alive_move =
  alive_move [where timing = "\<lambda>t. tm_kind t = RefreshTimer" and working = refreshing]

lemma ctl_inv_worker_step:
  assumes inv: "ctl_inv c k" and i: "i < length (k_workers k)"
    and ok: "worker_ok urlopen (k_workers k ! i)"
  shows "ctl_inv c (worker_step fails env urlopen i k)"
proof -
  let ?p = "k_workers k ! i"
  obtain p' k' where m: "worker_move fails env urlopen ?p k = (p', k')" by fastforce
  have th: "threads_inv c k" using inv by (simp add: ctl_inv_def)
  have p: "worker_inv c ?p" using th i by (simp add: threads_inv_def list_all_length)
  have "hands_over c None k" using th by (simp add: threads_inv_def hands_over_def)
  from worker_move_facts [OF p ok this m] have f: "move_frame k k'" and h: "hands_over c p' k'" by blast+
  let ?ws = "(case p' of Some q \<Rightarrow> (k_workers k)[i := q]
    | None \<Rightarrow> take i (k_workers k) @ drop (Suc i) (k_workers k))"
  let ?k = "k'\<lparr>k_workers := ?ws\<rparr>"
  have simps: "k_workers ?k = ?ws" "k_timers ?k = k_timers k'" by simp_all
  have step: "worker_step fails env urlopen i k = ?k"
    by (simp add: worker_step_def m split: option.split)
  have "list_all (worker_inv c) ?ws"
    using th h i by (auto simp: threads_inv_def hands_over_def list_all_iff
        upd_conv_take_nth_drop dest: in_set_takeD in_set_dropD split: option.splits)
  moreover have "chain_alive ?k" if "\<not> k_stopped k" and "refresh_interval c \<noteq> 0"
    unfolding chain_alive_def simps
  proof (rule chain_alive_move [OF _ i])
    show "(\<exists>t \<in> set (k_timers k). tm_kind t = RefreshTimer) \<or> (\<exists>p \<in> set (k_workers k). refreshing p)"
      using th that by (simp add: threads_inv_def chain_alive_def)
    show "set (k_timers k) \<subseteq> set (k_timers k')" using f by (simp add: move_frame_def)
    have "may_refresh k" using th that may_refresh_iff [of c k] by (simp add: threads_inv_def)
    then show "(\<exists>q. p' = Some q \<and> refreshing q) \<or> (\<exists>t \<in> set (k_timers k'). tm_kind t = RefreshTimer)"
      if "refreshing ?p"
      using worker_move_refresh [OF that _ m] by simp
  qed
  ultimately have "threads_inv c ?k"
    using h f by (simp add: threads_inv_def hands_over_def move_frame_def chain_alive_def)
  moreover have "win_inv (k_window ?k)" using inv f by (simp add: ctl_inv_def move_frame_def)
  moreover have "rotation_inv ?k"
  proof (rule rotation_inv_frame)
    show "rotation_inv k" using inv by (simp add: ctl_inv_def)
    show "rotate_interval (k_config ?k) = rotate_interval (k_config k)"
      using h th same_settingsD(2) [of c "k_config k"] same_settingsD(2) [of c "k_config k'"]
      by (simp add: hands_over_def threads_inv_def)
  qed (use f in \<open>simp_all add: move_frame_def\<close>)
  ultimately show ?thesis unfolding step ctl_inv_def by simp
qed

lemma ctl_inv_fire_timer:
  assumes "ctl_inv c k" and t: "t \<in> set (k_timers k)"
  shows "ctl_inv c (fire_timer t k)"
proof -
  have w: "win_inv (k_window k)" and r: "rotation_inv k" and th: "threads_inv c k"
    using assms(1) by (simp_all add: ctl_inv_def)
  have "chain_alive (fire_timer t k)" if a: "chain_alive k"
  proof (cases "tm_kind t")
    case RefreshTimer
    then show ?thesis by (simp add: chain_alive_def fire_timer_def)
  next
    case RegistrationTimer
    then have "u \<in> set (remove1 t (k_timers k))" if "u \<in> set (k_timers k)" "tm_kind u = RefreshTimer" for u
      using that by (metis in_set_remove1 timer_kind.distinct(1))
    then show ?thesis using a RegistrationTimer by (auto simp: chain_alive_def fire_timer_def Let_def)
  qed
  then have "threads_inv c (fire_timer t k)"
    using th by (auto simp: threads_inv_def fire_timer_def Let_def same_settingsD split: timer_kind.split)
  moreover have "rotation_inv (fire_timer t k)"
    by (rule rotation_inv_frame [OF r]) (simp_all add: fire_timer_def Let_def split: timer_kind.split)
  moreover have "k_window (fire_timer t k) = k_window k"
    by (simp add: fire_timer_def Let_def split: timer_kind.split)
  ultimately show ?thesis using w by (simp add: ctl_inv_def)
qed

lemma ctl_inv_background: "background env k k' \<Longrightarrow> ctl_inv c k \<Longrightarrow> ctl_inv c k'"
  by (erule background_cases) (auto intro: ctl_inv_worker_step ctl_inv_fire_timer)

lemma ctl_inv_on_window:
  assumes "ctl_inv c k" and "win_inv (k_window k) \<Longrightarrow> win_inv (f (k_window k))"
  shows "ctl_inv c (on_window f k)"
  using assms threads_inv_behind [of "on_window f k" k c]
  by (simp add: ctl_inv_def rotation_inv_on_window)

lemma ctl_inv_run_call:
  assumes "ctl_inv c k" and "k_idle k = call # calls"
  shows "ctl_inv c (run_call call (k\<lparr>k_idle := calls\<rparr>))"
proof -
  let ?k = "k\<lparr>k_idle := calls\<rparr>"
  have ok: "call_ok call" and w: "win_inv (k_window ?k)" and th: "threads_inv c ?k"
    using assms by (simp_all add: ctl_inv_def threads_inv_def chain_alive_def)
  have r: "rotation_inv ?k"
    by (rule rotation_inv_frame [of k]) (use assms(1) in \<open>simp_all add: ctl_inv_def\<close>)
  show ?thesis
    using run_call_window [OF w ok] run_call_rotation [OF r w] th
      threads_inv_behind [OF run_call_behind, of c call ?k]
    by (simp add: ctl_inv_def)
qed

lemma ctl_inv_idle:
  assumes "ctl_inv c k" and "call_ok call"
  shows "ctl_inv c (idle call k)"
proof -
  have "rotation_inv (idle call k)"
    by (rule rotation_inv_frame [of k]) (use assms(1) in \<open>simp_all add: ctl_inv_def idle_def\<close>)
  moreover have "threads_inv c (idle call k)"
    using assms by (simp add: ctl_inv_def threads_inv_def idle_def chain_alive_def)
  ultimately show ?thesis using assms by (simp add: ctl_inv_def idle_def)
qed

lemma event_call_ok: "event_call e = Some call \<Longrightarrow> call_ok call"
  by (auto simp: event_call_def split: cec_event_kind.splits option.splits sum.splits)

lemma ctl_inv_configure:
  assumes "ctl_inv c k"
  shows "ctl_inv c (configure_from_setup url k)"
proof -
  have w: "win_inv (k_window k)" and r: "rotation_inv k" and th: "threads_inv c k"
    using assms by (simp_all add: ctl_inv_def)
  have "threads_inv c (configure_from_setup url k)"
    using th by (auto simp: threads_inv_def configure_from_setup_def idle_def chain_alive_def Let_def
        same_settings_update)
  moreover have "rotation_inv (configure_from_setup url k)"
    by (rule rotation_inv_frame [OF r]) (simp_all add: configure_from_setup_def idle_def Let_def)
  moreover have "k_window (configure_from_setup url k) = k_window k"
    by (simp add: configure_from_setup_def idle_def Let_def)
  ultimately show ?thesis using w by (simp add: ctl_inv_def)
qed

lemma ctl_inv_submit:
  assumes "ctl_inv c k"
  shows "ctl_inv c (submit_address fails env text k)"
proof -
  obtain e st fs told where s: "submit_setup fails env (w_on_configured (k_window k)) text (k_fs k)
      (w_setup (k_window k)) = (e, st, fs, told)"
    by (metis prod_cases4)
  let ?k = "on_window (\<lambda>w. w\<lparr>w_setup := st\<rparr>) (k\<lparr>k_fs := fs\<rparr>)"
  have "ctl_inv c (k\<lparr>k_fs := fs\<rparr>)"
  proof -
    have "rotation_inv (k\<lparr>k_fs := fs\<rparr>)"
      by (rule rotation_inv_frame [of k]) (use assms in \<open>simp_all add: ctl_inv_def\<close>)
    then show ?thesis using assms by (simp add: ctl_inv_def threads_inv_def chain_alive_def)
  qed
  then have "ctl_inv c ?k" by (rule ctl_inv_on_window) (simp add: win_inv_frames)
  then show ?thesis
    by (auto simp: submit_address_def s Let_def ctl_inv_configure split: option.split)
qed

lemma ctl_inv_stop:
  assumes "ctl_inv c k"
  shows "ctl_inv c (stop k)"
proof -
  let ?k = "k\<lparr>k_stopped := True, k_timers := filter (\<lambda>t. \<not> cancels k t) (k_timers k)\<rparr>"
  have "one_rotation ?k" using assms by (simp add: ctl_inv_def rotation_inv_def one_rotation_def)
  then have "one_rotation (cancel_rotation ?k)" "k_rotate_source (cancel_rotation ?k) = 0"
    using cancel_rotation_one [of ?k] by (simp_all add: one_rotation_def)
  moreover have "k_stopped (cancel_rotation ?k)"
    using behindD(4) [OF cancel_rotation_fields(3), of ?k] by simp
  ultimately have "rotation_inv (stop k)" by (simp add: stop_def rotation_inv_def)
  moreover have "threads_inv c ?k"
    using assms by (simp add: ctl_inv_def threads_inv_def)
  then have "threads_inv c (stop k)"
    unfolding stop_def using threads_inv_behind [OF cancel_rotation_fields(3)] by blast
  ultimately show ?thesis using assms by (simp add: ctl_inv_def stop_def)
qed

lemma ctl_inv_own:
  assumes "own_step env k k'" and inv: "ctl_inv c k"
  shows "ctl_inv c k'"
  using assms(1)
proof (cases rule: own_step.cases)
  case in_background
  then show ?thesis using inv by (rule ctl_inv_background)
next
  case (key name)
  then show ?thesis
    using inv by (auto simp: on_key_pressed_def keep intro: ctl_inv_on_window
        split: option.split sum.split)
next
  case (system present ip)
  moreover have "win_inv (w\<lparr>w_local_ip := ip, w_cec_present := present\<rparr>)" if "win_inv w" for w
    using win_inv_frames(6) [where w = w and ip = ip]
      win_inv_frames(7) [where w = "w\<lparr>w_local_ip := ip\<rparr>" and b = present] that by simp
  ultimately show ?thesis using inv by (auto intro: ctl_inv_on_window)
next
  case (row_clicked i)
  moreover have "win_inv (on_menu_activate i w)" if "win_inv w" for w
    using that win_inv_D [OF that]
    by (auto simp: on_menu_activate_def keep intro!: win_inv_show_index win_inv_menu)
  ultimately show ?thesis using inv by (auto intro: ctl_inv_on_window)
qed (use inv in \<open>auto simp: rotate_now_def keep intro: ctl_inv_on_window ctl_inv_submit\<close>)

lemma ctl_inv_step:
  assumes "ctl_step env k k'" and inv: "ctl_inv c k"
  shows "ctl_inv c k'"
  using assms(1)
proof (cases rule: ctl_step.cases)
  case own
  then show ?thesis using inv by (rule ctl_inv_own)
next
  case (call_runs call calls)
  then show ?thesis using inv ctl_inv_run_call by blast
next
  case (cec e)
  then show ?thesis
    using inv by (auto simp: on_cec_event_def event_call_ok intro: ctl_inv_idle split: option.split)
next
  case stopping
  then show ?thesis using inv ctl_inv_stop by simp
qed

lemma attach_cases:
  assumes "attach env device_exists libcec_importable k = (None, k')"
  obtains cc k1 where "cache_load (cache_dir env) (k_fs k) (base_url (k_client k)) = Inr cc"
    and "apply_config cc True (connect_setup k) = (None, k1)"
    and "k' = apply_rotation (schedule_refresh FIRST_REFRESH_DELAY
      (start_registration (start_cec device_exists libcec_importable k1)))"
  using assms by (auto simp: attach_def then_do_def split: sum.splits prod.splits option.splits)

lemma connect_setup_frames [simp]:
  "behind (connect_setup k) = behind k" "k_window (connect_setup k) = (k_window k)\<lparr>w_on_configured := True\<rparr>"
  "k_config (connect_setup k) = k_config k" "k_client (connect_setup k) = k_client k"
  "k_server_default (connect_setup k) = k_server_default k"
  "k_refresh_timer (connect_setup k) = k_refresh_timer k"
  "k_registration_timer (connect_setup k) = k_registration_timer k"
  "k_timers (connect_setup k) = k_timers k" "k_next_timer (connect_setup k) = k_next_timer k"
  "k_workers (connect_setup k) = k_workers k" "k_idle (connect_setup k) = k_idle k"
  "k_rotate_source (connect_setup k) = k_rotate_source k"
  "k_rotations (connect_setup k) = k_rotations k" "k_rotating (connect_setup k) = k_rotating k"
  "k_stopped (connect_setup k) = k_stopped k" "k_backend (connect_setup k) = k_backend k"
  "k_fs (connect_setup k) = k_fs k"
  by (simp_all add: connect_setup_def on_window_def behind_def)

text \<open>What attaching does after the cached dashboards were applied leaves the window alone.\<close>

lemma attach_frames [simp]:
  "k_window (start_cec x y k) = k_window k" "k_window (start_registration k) = k_window k"
  "k_window (schedule_refresh d k) = k_window k"
  by (simp_all add: start_cec_def start_registration_def start_registration_timer_def
      schedule_refresh_def start_refresh_timer_def idle_def Let_def)

lemma attach_inv:
  assumes "make_window c dirs = Inr w"
    and "attach env device_exists libcec_importable (make_controller c w fs) = (None, k)"
    and "\<And>cc. cache_load (cache_dir env) fs (base_url c) = Inr cc \<Longrightarrow> list_all page_ok (dashboards cc)"
  shows "ctl_inv c k"
proof -
  let ?k0 = "connect_setup (make_controller c w fs)"
  obtain cc k1 where cc: "cache_load (cache_dir env) fs (base_url c) = Inr cc"
    and k1: "apply_config cc True ?k0 = (None, k1)"
    and k: "k = apply_rotation (schedule_refresh FIRST_REFRESH_DELAY
      (start_registration (start_cec device_exists libcec_importable k1)))"
    using attach_cases [OF assms(2)] by (auto simp: make_controller_def)
  let ?k1 = "snd (apply_config cc True ?k0)"
  let ?k2 = "start_registration (start_cec device_exists libcec_importable ?k1)"
  let ?k3 = "schedule_refresh FIRST_REFRESH_DELAY ?k2"
  have k: "k = apply_rotation ?k3" using k k1 by simp
  have "win_inv (k_window ?k1)"
    by (rule apply_config_window) (use make_window_inv [OF assms(1)] assms(3) [OF cc]
        in \<open>simp_all add: make_controller_def win_inv_frames\<close>)
  then have w: "win_inv (k_window ?k3)" by simp
  have b: "behind ?k1 = behind ?k0" by simp
  have "one_rotation ?k1" by (simp add: one_rotation_def make_controller_def)
  then have "one_rotation ?k3"
    by (simp add: one_rotation_def schedule_refresh_def start_refresh_timer_def
        start_registration_def start_registration_timer_def start_cec_def idle_def Let_def)
  then have "rotation_inv k" unfolding k using w by (rule rotation_inv_apply)
  moreover have "win_inv (k_window k)" unfolding k using w by (rule apply_rotation_window)
  moreover have "threads_inv c ?k3"
    using behindD [OF b]
    by (simp add: threads_inv_def chain_alive_def schedule_refresh_def start_refresh_timer_def
        start_registration_def start_registration_timer_def start_cec_def idle_def Let_def
        may_refresh_def make_controller_def)
  then have "threads_inv c k"
    unfolding k using threads_inv_behind [OF apply_rotation_fields(1)] by blast
  ultimately show ?thesis by (simp add: ctl_inv_def)
qed

lemma reachable_inv: "reachable env c k \<Longrightarrow> ctl_inv c k"
  by (induction rule: reachable.induct) (auto intro: attach_inv ctl_inv_step)

end
