(* ===== verification/Window_Live.thy ===== *)
theory Window_Live
  imports Window
begin

text \<open>
  What the window's operations add up to: which webviews are alive and in what order of use,
  what stays on screen when the server sends new dashboards, and what the covers and toasts
  show along any run of the window, from its construction on.
\<close>

section \<open>Which views are live\<close>

lemma order_length: "views_inv w \<Longrightarrow> length (w_view_order w) = length (w_views w)"
  using views_bound [of w] distinct_card [of "w_view_order w"] by (simp add: views_inv_def)

text \<open>Evicting drops from the front of the order of use, down to the limit.\<close>

lemma evict_order:
  "views_inv w \<Longrightarrow> current_dashboard w = Some d \<Longrightarrow> w_view_order w = xs @ [d_id d] \<Longrightarrow>
     w_view_order (evict_surplus w) = drop (length (w_view_order w) - view_limit w) (w_view_order w)"
proof (induction w arbitrary: xs rule: evict_surplus.induct)
  case (1 w)
  have len: "length (w_view_order w) = length (w_views w)" by (rule order_length [OF 1(2)])
  show ?case
  proof (cases "view_limit w < length (w_views w)")
    case False
    then show ?thesis using len by (simp add: evict_surplus.simps [of w])
  next
    case True
    have "1 \<le> view_limit w" by (simp add: view_limit_def)
    with True len 1(4) obtain y ys where xs: "xs = y # ys" by (cases xs) auto
    have y: "y \<noteq> d_id d" "y \<in> view_ids w"
      using 1(2,4) xs by (auto simp: views_inv_def)
    then have v: "find_victim w = Some y"
      using 1(3,4) xs by (simp add: find_victim_def view_ids_def)
    let ?w = "release_view y w"
    note s = release_view_same [of w y]
    have o: "w_view_order ?w = ys @ [d_id d]"
      using 1(4) xs y(2) by (simp add: release_view_order)
    have "w_view_order (evict_surplus ?w) =
        drop (length (w_view_order ?w) - view_limit ?w) (w_view_order ?w)"
      using 1(1) [OF True v release_view_inv [OF 1(2)] _ o] 1(3) same_current [OF s] by simp
    also have "\<dots> = drop (length (w_view_order w) - view_limit w) (w_view_order w)"
    proof -
      have l: "length (w_view_order w) = Suc (length (w_view_order ?w))" using 1(4) xs o by simp
      have "view_limit w \<le> length (w_view_order ?w)" using True len l by simp
      then have "length (w_view_order w) - view_limit w = Suc (length (w_view_order ?w) - view_limit w)"
        unfolding l by (rule Suc_diff_le)
      moreover have "w_view_order w = y # w_view_order ?w" using 1(4) xs o by simp
      ultimately show ?thesis by (simp only: same_limit [OF s] drop_Suc_Cons)
    qed
    finally show ?thesis using True v by (simp add: evict_surplus.simps [of w])
  qed
qed

lemma view_for_order:
  assumes "views_inv w" and "current_dashboard w = Some d" and "length (w_views w) \<le> view_limit w"
  shows "w_view_order (view_for d w) =
    (let used = remove1 (d_id d) (w_view_order w) @ [d_id d]
     in drop (length used - view_limit w) used)"
proof (cases "d_id d \<in> view_ids w")
  case True
  then have "view_for d w = touch (d_id d) w"
    using map_of_eq_None_iff [of "w_views w" "d_id d"] by (simp add: view_for_def view_ids_def)
  moreover have "length (remove1 (d_id d) (w_view_order w) @ [d_id d]) = length (w_view_order w)"
    using True assms(1) length_pos_if_in_set [of "d_id d" "w_view_order w"]
    by (simp add: views_inv_def length_remove1)
  ultimately show ?thesis
    using assms(3) order_length [OF assms(1)] by (simp add: touch_def Let_def)
next
  case False
  let ?w1 = "w\<lparr>w_loading_ids := insert (d_id d) (w_loading_ids w),
    w_views := AList.update (d_id d) (d_url d) (w_views w)\<rparr>"
  let ?w2 = "touch (d_id d) ?w1"
  have v: "view_for d w = evict_surplus ?w2"
    using False map_of_eq_None_iff [of "w_views w" "d_id d"] by (simp add: view_for_def view_ids_def)
  have "distinct (map fst (w_views ?w1))" "distinct (w_view_order ?w1)"
    "insert (d_id d) (set (w_view_order ?w1)) = view_ids ?w1"
    using assms(1) by (simp_all add: views_inv_def view_ids_def distinct_update dom_update)
  then have "views_inv ?w2" by (rule touch_facts)
  moreover have "current_dashboard ?w2 = current_dashboard w"
    by (simp add: current_dashboard_def touch_def)
  then have "current_dashboard ?w2 = Some d" using assms(2) by simp
  moreover have "w_view_order ?w2 = remove1 (d_id d) (w_view_order w) @ [d_id d]"
    by (simp add: touch_def)
  moreover have "view_limit ?w2 = view_limit w" by (simp add: view_limit_def touch_def)
  ultimately show ?thesis
    using evict_order [of ?w2 d] by (simp add: v Let_def)
qed

lemma show_index_order:
  assumes "win_inv w" and "w_dashboards w \<noteq> []"
  shows "w_view_order (show_index i w) =
    (let used = remove1 (d_id (w_dashboards w ! nat (i mod int (length (w_dashboards w))))) (w_view_order w) @
       [d_id (w_dashboards w ! nat (i mod int (length (w_dashboards w))))]
     in drop (length used - view_limit w) used)"
proof -
  let ?i = "i mod int (length (w_dashboards w))"
  let ?w1 = "w\<lparr>w_current := ?i\<rparr>"
  let ?d = "w_dashboards w ! nat ?i"
  have "current_dashboard ?w1 = Some ?d"
    using assms(2) by (simp add: current_dashboard_def)
  moreover have "views_inv ?w1" and "length (w_views ?w1) \<le> view_limit ?w1"
    using assms(1) by (simp_all add: win_inv_def base_inv_def views_inv_def view_ids_def view_limit_def)
  ultimately have "w_view_order (view_for ?d ?w1) =
    (let used = remove1 (d_id ?d) (w_view_order ?w1) @ [d_id ?d] in drop (length used - view_limit ?w1) used)"
    by (intro view_for_order)
  moreover have "view_limit ?w1 = view_limit w" by (simp add: view_limit_def)
  ultimately show ?thesis
    using assms(2) by (simp add: show_index_def Let_def)
qed

section \<open>A reference for the order of use\<close>

text \<open>What a cache of at most \<open>limit\<close> entries that forgets the least recently used one does
  when \<open>i\<close> is used; the list runs from the least to the most recent.\<close>

definition lru_touch :: "nat \<Rightarrow> string \<Rightarrow> string list \<Rightarrow> string list" where
  "lru_touch limit i used =
     (let used = remove1 i used @ [i] in drop (length used - limit) used)"

text \<open>The id of the dashboard that \<open>show_index\<close> shows for an index.\<close>

definition id_at :: "dashboard list \<Rightarrow> int \<Rightarrow> string" where
  "id_at ds i = d_id (ds ! nat (i mod int (length ds)))"

definition show_all :: "int list \<Rightarrow> window \<Rightarrow> window" where
  "show_all is w = foldl (\<lambda>w i. show_index i w) w is"

lemma show_all_run: "show_all is w = foldl win_step w (map WinShow is)"
  by (simp add: show_all_def foldl_map)

lemma show_index_dashboards [simp]:
  "win_inv w \<Longrightarrow> w_dashboards (show_index i w) = w_dashboards w"
  by (cases "w_dashboards w = []") (auto simp: show_index_empty show_index_facts win_inv_def shown_def)

lemma show_all_order:
  assumes "win_inv w" and "w_dashboards w \<noteq> []"
  shows "w_view_order (show_all is w) =
    foldl (\<lambda>used i. lru_touch (view_limit w) (id_at (w_dashboards w) i) used) (w_view_order w) is"
  using assms
proof (induction "is" arbitrary: w)
  case Nil
  then show ?case by (simp add: show_all_def)
next
  case (Cons i "is")
  have "win_inv (show_index i w)" by (rule win_inv_show_index [OF Cons.prems(1)])
  moreover have "view_limit (show_index i w) = view_limit w" by (simp add: view_limit_def)
  ultimately show ?case
    using Cons.IH [of "show_index i w"] Cons.prems
    by (simp add: show_all_def show_index_order lru_touch_def id_at_def)
qed

text \<open>Views whose dashboards stay are not touched by a refresh.\<close>

lemma release_other_view: "j \<noteq> i \<Longrightarrow> map_of (w_views (release_view j w)) i = map_of (w_views w) i"
  by (simp add: delete_conv')

lemma fold_release_view:
  "i \<notin> set ks \<Longrightarrow> map_of (w_views (fold release_view ks w)) i = map_of (w_views w) i"
  by (induction ks arbitrary: w) (auto simp: release_other_view simp del: release_view_views)

lemma drop_stale_view:
  "i \<in> live \<Longrightarrow> map_of (w_views (drop_stale_views live w)) i = map_of (w_views w) i"
  by (simp add: drop_stale_views_def fold_release_view)

lemma drop_stale_same: "same_but_views w (drop_stale_views live w)"
proof -
  have "same_but_views w (fold release_view ks w)" for ks
    by (induction ks arbitrary: w) (auto intro: same_but_views_trans [OF release_view_same])
  then show ?thesis by (simp add: drop_stale_views_def)
qed

text \<open>Showing a dashboard whose view is alive only brings that view to the front.\<close>

lemma show_index_live:
  assumes "w_dashboards w \<noteq> []" and "id_at (w_dashboards w) i \<in> view_ids w"
  shows "w_views (show_index i w) = w_views w"
proof -
  let ?k = "i mod int (length (w_dashboards w))"
  have "map_of (w_views w) (d_id (w_dashboards w ! nat ?k)) \<noteq> None"
    using assms(2) map_of_eq_None_iff [of "w_views w"] by (simp add: id_at_def view_ids_def)
  then show ?thesis
    using assms(1) by (simp add: show_index_def Let_def view_for_def touch_def)
qed

section \<open>An example\<close>

text \<open>A window with room for two views, three dashboards, and a run over them that shows the
  second, then the third, while the chooser is used and a toast is pending.\<close>

definition example_config :: config where
  "example_config = default_config\<lparr>server_url := ''http://vt'', max_live_views := 2\<rparr>"

definition example_dashboard :: "string \<Rightarrow> dashboard" where
  "example_dashboard i =
     \<lparr>d_id = i, d_name = i, d_url = ''http://vt/view/'' @ i, d_order = 0, d_group = []\<rparr>"

definition example_dashboards :: "dashboard list" where
  "example_dashboards = map example_dashboard [''a'', ''b'', ''c'']"

definition example_window :: window where
  "example_window = projr (make_window example_config [])"

definition example_events :: "window_event list" where
  "example_events =
     [WinSetDashboards example_dashboards True, WinLoad LoadFinished ''a'',
      WinAction (Act DASHBOARD_NEXT), WinTimer 1, WinAction (DigitAction 3),
      WinAction (Act MENU_TOGGLE)]"

lemma example_make: "make_window example_config [] = Inr example_window"
proof -
  have "\<not> isl (make_window example_config [])" by code_simp
  then show ?thesis by (simp add: example_window_def)
qed

definition example_run :: window where
  "example_run = foldl win_step example_window example_events"

lemma example_run_facts:
  "length (w_views example_run) = 2" "w_view_order example_run = [''b'', ''c'']"
  "w_dashboards example_run = example_dashboards"
  "current_dashboard example_run = Some (example_dashboard ''c'')"
  "w_loading example_run" "w_toast_visible example_run" "\<not> w_needs_setup example_run"
  by code_simp+

lemma example_guard: "list_all win_guard example_events" "list_all page_ok example_dashboards"
  by code_simp+

section \<open>Properties\<close>

text \<open>C15. At no time are more webviews alive than \<open>max-live-views\<close> allows (and one is always
  allowed): the bound holds after any sequence of dashboard lists, key actions, load events,
  timers and status reports that starts with a new window.\<close>

theorem live_views_bounded:
  assumes "make_window c dirs = Inr w" and "list_all win_guard es"
  shows "int (length (w_views (foldl win_step w es))) \<le> max 1 (max_live_views c)"
proof -
  have "length (w_views (foldl win_step w es)) \<le> view_limit w"
    by (rule kiosk.run_bound [OF make_window_inv(1) [OF assms(1)] assms(2)])
  then show ?thesis
    using make_window_inv(2) [OF assms(1)] by (simp add: view_limit_def)
qed

lemma live_views_bounded_witness:
  "length (w_views example_run) = 2 \<and> int (length (w_views example_run)) \<le> max 1 2"
proof -
  have "max_live_views example_config = 2" by code_simp
  then show ?thesis
    using live_views_bounded [OF example_make example_guard(1)] example_run_facts(1)
    by (simp add: example_run_def)
qed

text \<open>C14. The visible child of the window is what the state says, after any run of the window: with
  dashboards, the visible view is that of the current one, it is alive, the setup screen is
  gone, and the loading cover is up exactly while that view is loading; without dashboards it is
  the setup screen, with the cover down, or the placeholder; and the chooser lists the
  dashboards of the window. Nothing is said of the cover over the placeholder, where one can be
  left over (\<open>cover_outlives_dashboards\<close>).\<close>

theorem screen_matches_state:
  assumes "make_window c dirs = Inr w\<^sub>0" and "list_all win_guard es" and "w = foldl win_step w\<^sub>0 es"
  shows "(case current_dashboard w of
      None \<Rightarrow> w_dashboards w = [] \<and>
        w_visible w = (if w_needs_setup w then SetupChild else Placeholder) \<and>
        (w_needs_setup w \<longrightarrow> \<not> w_loading w)
    | Some d \<Rightarrow> \<not> w_needs_setup w \<and> w_visible w = ViewChild (d_id d) \<and>
        map_of (w_views w) (d_id d) \<noteq> None \<and> w_loading w = (d_id d \<in> w_loading_ids w)) \<and>
    menu_dashboards (w_menu w) = w_dashboards w"
proof -
  have inv: "win_inv w"
    unfolding assms(3) by (rule kiosk.run_keeps [OF make_window_inv(1) [OF assms(1)] assms(2)])
  then have "shown w" by (simp add: win_inv_def)
  then show ?thesis
    using win_inv_D [OF inv] map_of_eq_None_iff [of "w_views w"]
    by (auto simp: shown_def current_dashboard_def view_ids_def Let_def split: if_splits)
qed

lemma screen_matches_state_witness:
  "w_visible example_run = ViewChild ''c'' \<and> w_loading example_run \<and>
   ''c'' \<in> w_loading_ids example_run \<and> map_of (w_views example_run) ''c'' \<noteq> None"
  using screen_matches_state [OF example_make example_guard(1) example_run_def] example_run_facts(4,5)
  by (simp add: example_dashboard_def)

text \<open>A toast never hides the next one: after any run at most one timer is pending, a toast
  is visible exactly while it is, and when it fires the toast goes.\<close>

theorem toast_timer:
  assumes "make_window c dirs = Inr w\<^sub>0" and "list_all win_guard es" and "w = foldl win_step w\<^sub>0 es"
  shows "length (w_sources w) \<le> 1 \<and> w_toast_visible w = (w_sources w \<noteq> []) \<and>
    w_sources (toast t w) = [w_next_source w] \<and>
    (\<forall>i. i \<noteq> w_next_source w \<longrightarrow> w_toast_visible (fire_source i (toast t w))) \<and>
    \<not> w_toast_visible (fire_source (w_next_source w) (toast t w))"
proof -
  have "win_inv w"
    unfolding assms(3) by (rule kiosk.run_keeps [OF make_window_inv(1) [OF assms(1)] assms(2)])
  then have "toast_inv w" by (simp add: win_inv_def base_inv_def)
  then show ?thesis by (auto simp: toast_inv_def toast_def fire_source_def Let_def split: if_splits)
qed

lemma toast_timer_witness:
  "length (w_sources example_run) \<le> 1 \<and> w_sources example_run \<noteq> []"
  using toast_timer [OF example_make example_guard(1) example_run_def] example_run_facts(6) by simp

text \<open>C12. The views kept alive are exactly those a least-recently-used cache of the same size
  keeps: for a window in the middle of any run and any further sequence of indices shown, the
  order of use is the one the reference computes, and the live views are its entries.\<close>

theorem views_refine_lru:
  assumes "make_window c dirs = Inr w\<^sub>0" and "list_all win_guard es" and "w = foldl win_step w\<^sub>0 es"
    and "w_dashboards w \<noteq> []"
  shows "w_view_order (show_all is w) =
      foldl (\<lambda>used i. lru_touch (nat (max 1 (max_live_views c))) (id_at (w_dashboards w) i) used)
        (w_view_order w) is \<and>
    set (map fst (w_views (show_all is w))) = set (w_view_order (show_all is w))"
proof -
  have inv: "win_inv w"
    unfolding assms(3) by (rule kiosk.run_keeps [OF make_window_inv(1) [OF assms(1)] assms(2)])
  have "view_limit w = view_limit w\<^sub>0" unfolding assms(3) by (rule kiosk.run_limit)
  then have "view_limit w = nat (max 1 (max_live_views c))"
    using make_window_inv(2) [OF assms(1)] by (simp add: view_limit_def)
  moreover have "win_inv (show_all is w)"
    unfolding show_all_run by (rule kiosk.run_keeps [OF inv]) (simp add: list_all_iff)
  ultimately show ?thesis
    using show_all_order [OF inv assms(4)]
    by (simp add: win_inv_def base_inv_def views_inv_def view_ids_def)
qed

lemma views_refine_lru_witness:
  "w_view_order (show_all [0, 2, 1] example_run) = [''c'', ''b''] \<and>
   set (map fst (w_views (show_all [0, 2, 1] example_run))) = {''b'', ''c''}"
proof -
  have "foldl (\<lambda>used i. lru_touch (nat (max 1 (max_live_views example_config)))
      (id_at example_dashboards i) used) [''b'', ''c''] [0, 2, 1] = [''c'', ''b'']"
    by code_simp
  moreover have "example_dashboards \<noteq> []" by (simp add: example_dashboards_def)
  ultimately show ?thesis
    using views_refine_lru [OF example_make example_guard(1) example_run_def, of "[0, 2, 1]"]
      example_run_facts(2,3) by auto
qed

text \<open>C13. A refresh never changes what a viewer is looking at: when the server still allows the
  current dashboard, the same one stays current and visible, wherever it moved in the list,
  and its page is not loaded again.\<close>

theorem refresh_keeps_current:
  assumes "make_window c dirs = Inr w\<^sub>0" and "list_all win_guard es" and "w = foldl win_step w\<^sub>0 es"
    and "current_dashboard w = Some d" and "list_all page_ok ds" and "d_id d \<in> d_id ` set ds"
    and "w' = snd (set_dashboards ds True w)"
  shows "map_option d_id (current_dashboard w') = Some (d_id d) \<and> w_visible w' = ViewChild (d_id d) \<and>
    map_of (w_views w') (d_id d) = map_of (w_views w) (d_id d)"
proof -
  have inv: "win_inv w"
    unfolding assms(3) by (rule kiosk.run_keeps [OF make_window_inv(1) [OF assms(1)] assms(2)])
  have ne: "ds \<noteq> []" using assms(6) by auto
  have ns: "\<not> w_needs_setup w" and live: "d_id d \<in> view_ids w"
    using inv assms(4)
    by (auto simp: win_inv_def shown_def current_dashboard_def Let_def split: if_splits)
  obtain k where k: "index_of_id (d_id d) ds 0 = Some k"
    using index_of_id_None [of "d_id d" ds 0] assms(6) by (cases "index_of_id (d_id d) ds 0") auto
  note r = index_of_id_range [OF k]
  obtain al where w': "w' = show_index k (swapped ds al w)"
    using set_dashboards_form [OF ns assms(5), of True] assms(4,7) ne k by auto
  note s = swapped_facts [OF inv, of ds al]
  have ids: "id_at (w_dashboards (swapped ds al w)) k = d_id d"
    using r by (simp add: s id_at_def)
  have same: "map_of (w_views (swapped ds al w)) (d_id d) = map_of (w_views w) (d_id d)"
    using assms(6) by (simp add: swapped_def drop_stale_view)
  then have "d_id d \<in> view_ids (swapped ds al w)"
    using live map_of_eq_None_iff [of "w_views w" "d_id d"]
      map_of_eq_None_iff [of "w_views (swapped ds al w)" "d_id d"] by (auto simp: view_ids_def)
  then have "w_views w' = w_views (swapped ds al w)"
    unfolding w' using ids s(2) ne by (intro show_index_live) simp_all
  moreover have f: "win_inv w'" "w_dashboards w' = ds" "w_current w' = k"
    unfolding w' using show_index_facts [OF s(1), of k] s(2,3) ne ns r by simp_all
  ultimately show ?thesis
    using same r ne by (auto simp: win_inv_def shown_def current_dashboard_def Let_def)
qed

lemma refresh_keeps_current_witness:
  "\<exists>w'. w' = snd (set_dashboards (map example_dashboard [''x'', ''c'', ''y'']) True example_run) \<and>
     w_visible w' = ViewChild ''c'' \<and> map_of (w_views w') ''c'' = map_of (w_views example_run) ''c''"
proof -
  have "list_all page_ok (map example_dashboard [''x'', ''c'', ''y''])" by code_simp
  from refresh_keeps_current [OF example_make example_guard(1) example_run_def example_run_facts(4) this _ refl]
  show ?thesis by (simp add: example_dashboard_def)
qed

text \<open>C18. The number beside a dashboard in the chooser is the key that opens it. After any run of the
  window, row by row: the row names its dashboard; a number key of the remote and of the
  keyboard both give the digit of the badge; and that digit does exactly what choosing the
  row does, with a toast of the row's name on top.\<close>

theorem badge_is_the_key:
  assumes "make_window c dirs = Inr w\<^sub>0" and "list_all win_guard es" and "w = foldl win_step w\<^sub>0 es"
    and "i < length (menu_rows (w_menu w))"
    and "row_badge (menu_rows (w_menu w) ! i) = BadgeNumber n"
  shows "row_title (menu_rows (w_menu w) ! i) = d_name (w_dashboards w ! i) \<and>
    action_for (UI_NUMBER_0 + n) = Inr (Some (DigitAction n)) \<and>
    action_for_key_name (digit_name n) = Inr (Some (DigitAction n)) \<and>
    handle_action (DigitAction n) w =
      toast (ToastName (row_title (menu_rows (w_menu w) ! i))) (on_menu_activate (int i) w)"
proof -
  have "win_inv w"
    unfolding assms(3) by (rule kiosk.run_keeps [OF make_window_inv(1) [OF assms(1)] assms(2)])
  then have m: "menu_inv (w_menu w)" "menu_dashboards (w_menu w) = w_dashboards w"
    by (simp_all add: win_inv_D)
  then have rows: "menu_rows (w_menu w) = build_rows 1 (w_dashboards w)" by (simp add: menu_inv_def)
  have n: "n = int i + 1" "i < 9"
    using menu_rows_badge [OF m(1) assms(4)] assms(5) by (auto split: if_splits)
  have i: "i < length (w_dashboards w)" using assms(4) rows by simp
  then have "row_title (menu_rows (w_menu w) ! i) = d_name (w_dashboards w ! i)"
    by (simp add: rows build_rows_nth build_row_def)
  then show ?thesis
    using n i remote.digit [of n] keyboard.digit [of n]
    by (simp add: handle_action_def jump_to_digit_def on_menu_activate_def)
qed

lemma badge_is_the_key_witness:
  "\<exists>n. row_badge (menu_rows (w_menu example_run) ! 1) = BadgeNumber n \<and>
     action_for (UI_NUMBER_0 + n) = Inr (Some (DigitAction n)) \<and>
     handle_action (DigitAction n) example_run = toast (ToastName ''b'') (on_menu_activate 1 example_run)"
proof -
  have r: "1 < length (menu_rows (w_menu example_run))"
    "row_badge (menu_rows (w_menu example_run) ! 1) = BadgeNumber 2"
    "row_title (menu_rows (w_menu example_run) ! 1) = ''b''" by code_simp+
  show ?thesis
    using badge_is_the_key [OF example_make example_guard(1) example_run_def r(1,2)] r
    by (intro exI [of _ 2]) simp
qed

text \<open>A loading cover can outlive its dashboard: when the server withdraws the last dashboard
  while its page is still loading, the placeholder becomes the visible child but the cover on
  top of it stays as it was.\<close>

theorem cover_outlives_dashboards:
  assumes "\<not> w_needs_setup w" and "w' = snd (set_dashboards [] keep_current w)"
  shows "current_dashboard w' = None \<and> w_visible w' = Placeholder \<and> w_loading w' = w_loading w"
  using assms
  by (simp add: set_dashboards_def Let_def current_dashboard_def same_but_viewsD [OF drop_stale_same])

lemma cover_outlives_dashboards_witness:
  "\<exists>w'. w' = snd (set_dashboards [] True example_run) \<and> w_visible w' = Placeholder \<and> w_loading w'"
  using cover_outlives_dashboards [OF example_run_facts(7) refl, of True] example_run_facts(5) by simp

text \<open>A load that fails in a background view takes the cover off the current dashboard, whose
  page may not have painted yet: the handler never asks which view failed.\<close>

lemma load_failed_uncovers_current:
  assumes "current_dashboard w = Some d"
  shows "\<not> w_loading (snd (on_load_failed uri w))"
  using assms
  by (simp add: on_load_failed_def Let_def w_loading_sync current_frame split: sum.split)

end
