(* ===== verification/Controller_Live.thy ===== *)
theory Controller_Live
  imports Controller Window_Live
begin

text \<open>
  What the threads, the timers and the main loop add up to, in any state that a started
  client can reach: the refreshes never dry up, the carousel has one timer, stopping lets
  every thread come to its end, the start dashboard is the one asked for, and the setup
  screen gives way exactly when the server has answered.
\<close>

section \<open>One refresh after another\<close>

lemma may_refresh_idle [simp]:
  "may_refresh (idle c k) = may_refresh k" "may_refresh (k\<lparr>k_fs := fs\<rparr>) = may_refresh k"
  "may_refresh (k\<lparr>k_workers := ws\<rparr>) = may_refresh k"
  by (simp_all add: may_refresh_def idle_def)

lemma idle_fields [simp]:
  "k_timers (idle c k) = k_timers k" "k_next_timer (idle c k) = k_next_timer k"
  "k_workers (idle c k) = k_workers k" "k_idle (idle c k) = k_idle k @ [c]"
  "k_window (idle c k) = k_window k" "k_fs (idle c k) = k_fs k" "k_config (idle c k) = k_config k"
  by (simp_all add: idle_def)

definition refused :: "client_config result \<Rightarrow> bool" where
  "refused r \<longleftrightarrow> (\<exists>code. r = Inl (AuthError code))"

text \<open>The calls that the answer to a refresh queues.\<close>

definition answer_calls :: "client_config result \<Rightarrow> bool \<Rightarrow> call list" where
  "answer_calls r saved =
     (case r of
        Inl (AuthError _) \<Rightarrow> [CallToast ToastTokenRejected]
      | Inl (ApiError _) \<Rightarrow> [CallToast ToastUnreachable]
      | Inl _ \<Rightarrow> []
      | Inr cc \<Rightarrow> if saved then [CallApply cc False] else [])"

definition cache_saved ::
  "(fs_op \<Rightarrow> bool) \<Rightarrow> environ \<Rightarrow> client_config result \<Rightarrow> fs \<Rightarrow> bool" where
  "cache_saved fails env r fs \<longleftrightarrow>
     (case r of Inl _ \<Rightarrow> True | Inr cc \<Rightarrow> fst (cache_save fails (cache_dir env) cc fs) = None)"

lemma refresh_answer_form:
  assumes "refresh_answer fails env urlopen delay client k = (n, k')"
  shows "n = (if refused (fetch_client_config client urlopen) then max delay AUTH_RETRY_SECONDS else delay)"
    and "k_idle k' = k_idle k @ answer_calls (fetch_client_config client urlopen)
      (cache_saved fails env (fetch_client_config client urlopen) (k_fs k))"
    and "k_timers k' = k_timers k" and "k_next_timer k' = k_next_timer k"
    and "k_workers k' = k_workers k" and "may_refresh k' = may_refresh k"
  using assms
  by (auto simp: refresh_answer_def refused_def answer_calls_def cache_saved_def
      split: sum.splits py_error.splits prod.splits option.splits)

section \<open>The end\<close>

text \<open>How many more moves a thread or a timer has in it once the controller was stopped.\<close>

fun worker_work :: "worker \<Rightarrow> nat" where
  "worker_work (Scheduling d) = 1"
| "worker_work (Fetching d client) = 2"
| "worker_work (Starting d) = 4"
| "worker_work (Polling config) = 2"
| "worker_work (SetupRegistering config) = 2"
| "worker_work SetupStarting = 3"

definition timer_work :: "timer \<Rightarrow> nat" where
  "timer_work t = (case tm_kind t of RefreshTimer \<Rightarrow> 3 | RegistrationTimer \<Rightarrow> 1)"

definition work_left :: "controller \<Rightarrow> nat" where
  "work_left k =
     sum_list (map timer_work (k_timers k)) + sum_list (map worker_work (k_workers k))"

definition opt_work :: "worker option \<Rightarrow> nat" where
  "opt_work p = (case p of None \<Rightarrow> 0 | Some q \<Rightarrow> worker_work q)"

lemma timers_work_idle [simp]:
  "k_timers (start_refresh_timer d k) =
     k_timers k @ [\<lparr>tm_id = k_next_timer k, tm_kind = RefreshTimer, tm_delay = d\<rparr>]"
  "k_timers (start_registration_timer d k) =
     k_timers k @ [\<lparr>tm_id = k_next_timer k, tm_kind = RegistrationTimer, tm_delay = d\<rparr>]"
  by (simp_all add: start_refresh_timer_def start_registration_timer_def)

lemma start_registration_work:
  "sum_list (map timer_work (k_timers (start_registration k))) \<le>
     Suc (sum_list (map timer_work (k_timers k)))"
  by (simp add: start_registration_def timer_work_def)

lemma worker_move_work:
  assumes "worker_move fails env urlopen p k = (p', k')" and "k_stopped k"
  shows "opt_work p' + sum_list (map timer_work (k_timers k')) <
    worker_work p + sum_list (map timer_work (k_timers k))"
proof (cases p)
  case (Fetching d client)
  then show ?thesis
    using assms refresh_answer_form(3) by (auto simp: opt_work_def split: prod.splits)
next
  case (SetupRegistering config)
  then show ?thesis
    using assms start_registration_work
    by (auto simp: setup_answer_def opt_work_def Let_def less_Suc_eq_le start_registration_def timer_work_def
        split: sum.splits prod.splits option.splits if_splits)
next
  case (Polling config)
  then show ?thesis
    using assms
    by (auto simp: poll_answer_def opt_work_def Let_def timer_work_def
        split: sum.splits prod.splits option.splits if_splits)
qed (use assms in \<open>auto simp: opt_work_def timer_work_def may_refresh_def\<close>)

lemma sum_list_update_or_drop:
  assumes "i < length xs"
  shows "sum_list (map f (case p of Some q \<Rightarrow> xs[i := q] | None \<Rightarrow> take i xs @ drop (Suc i) xs)) + f (xs ! i) =
    sum_list (map f xs) + (case p of Some q \<Rightarrow> f q | None \<Rightarrow> (0 :: nat))"
proof -
  have "sum_list (map f xs) = sum_list (map f (take i xs)) + f (xs ! i) + sum_list (map f (drop (Suc i) xs))"
    using arg_cong [OF id_take_nth_drop [OF assms], of "\<lambda>ys. sum_list (map f ys)"] by simp
  then show ?thesis using assms by (auto simp: upd_conv_take_nth_drop split: option.split)
qed

lemma worker_move_stopped:
  assumes "worker_move fails env urlopen p k = (p', k')"
  shows "k_stopped k' = k_stopped k" and "k_window k' = k_window k"
  using assms by (cases p;
    auto simp: refresh_answer_def setup_answer_def poll_answer_def idle_def start_refresh_timer_def
      start_registration_timer_def start_registration_def Let_def
      split: sum.splits prod.splits option.splits py_error.splits if_splits)+

lemma background_work:
  assumes "background env k k'" and "k_stopped k"
  shows "work_left k' < work_left k \<and> k_stopped k'"
  using assms(1)
proof (cases rule: background.cases)
  case (timer_fires t)
  have s: "sum_list (map timer_work (remove1 t (k_timers k))) + timer_work t =
      sum_list (map timer_work (k_timers k))"
    using sum_list_map_remove1 [OF timer_fires(2), of timer_work] by simp
  then show ?thesis
    using timer_fires assms(2)
    by (cases "tm_kind t") (auto simp: fire_timer_def Let_def work_left_def timer_work_def)
next
  case (worker_moves i urlopen fails)
  obtain p' k1 where m: "worker_move fails env urlopen (k_workers k ! i) k = (p', k1)" by fastforce
  let ?ws = "(case p' of Some q \<Rightarrow> (k_workers k)[i := q]
    | None \<Rightarrow> take i (k_workers k) @ drop (Suc i) (k_workers k))"
  have k': "k' = k1\<lparr>k_workers := ?ws\<rparr>"
    using worker_moves(1) by (simp add: worker_step_def m split: option.split)
  have "k_stopped k1 = k_stopped k" by (rule worker_move_stopped(1) [OF m])
  then show ?thesis
    using worker_move_work [OF m assms(2)] sum_list_update_or_drop [OF worker_moves(2), of worker_work p'] assms(2)
    by (simp add: work_left_def k' opt_work_def)
qed

section \<open>The main loop\<close>

text \<open>The main loop until its queue is empty. A call never queues another, so there are as many
  turns as there are calls at the start.\<close>

fun turns :: "nat \<Rightarrow> controller \<Rightarrow> controller" where
  "turns 0 k = k"
| "turns (Suc n) k =
     (case k_idle k of [] \<Rightarrow> k | c # cs \<Rightarrow> turns n (run_call c (k\<lparr>k_idle := cs\<rparr>)))"

definition main_loop :: "controller \<Rightarrow> controller" where
  "main_loop k = turns (length (k_idle k)) k"

lemma run_call_idle [simp]: "k_idle (run_call c k) = k_idle k"
  using behindD(5) [OF run_call_behind] .

lemma turns_idle: "k_idle (turns n k) = drop n (k_idle k)"
  by (induction n arbitrary: k) (auto split: list.split)

lemma main_loop_idle: "k_idle (main_loop k) = []"
  by (simp add: main_loop_def turns_idle)

text \<open>It is a run of the program.\<close>

lemma turns_steps: "(ctl_step env)\<^sup>*\<^sup>* k (turns n k)"
proof (induction n arbitrary: k)
  case 0
  then show ?case by simp
next
  case (Suc n)
  show ?case
  proof (cases "k_idle k")
    case Nil
    then show ?thesis by simp
  next
    case (Cons c cs)
    have "ctl_step env k (run_call c (k\<lparr>k_idle := cs\<rparr>))" using Cons by (rule ctl_step.call_runs)
    then show ?thesis
      using Suc.IH Cons by (auto intro: converse_rtranclp_into_rtranclp)
  qed
qed

lemma main_loop_steps: "(ctl_step env)\<^sup>*\<^sup>* k (main_loop k)"
  unfolding main_loop_def by (rule turns_steps)

section \<open>The start dashboard\<close>

definition wanted_dashboard :: "config \<Rightarrow> client_config \<Rightarrow> string option" where
  "wanted_dashboard c cc =
     (if start_dashboard c \<noteq> [] then Some (start_dashboard c) else default_dashboard_id cc)"

lemma apply_first:
  assumes inv: "win_inv (k_window k)" and ns: "\<not> w_needs_setup (k_window k)"
    and none: "w_dashboards (k_window k) = []" and ok: "list_all page_ok (dashboards cc)"
    and ne: "dashboards cc \<noteq> []" and c: "start_dashboard (k_config k) = start_dashboard c"
  obtains w where "base_inv w" "w_dashboards w = dashboards cc" "\<not> w_needs_setup w"
    "k_window (snd (apply_config cc fc k)) =
       (case wanted_dashboard c cc of
          None \<Rightarrow> show_index 0 w
        | Some i \<Rightarrow>
            if i = [] then show_index 0 w
            else (case index_of_id i (dashboards cc) 0 of
                    Some n \<Rightarrow> show_index n (show_index 0 w)
                  | None \<Rightarrow> show_index 0 w))"
proof -
  have "current_dashboard (k_window k) = None" using none by (simp add: current_dashboard_def)
  with set_dashboards_form [OF ns ok, of True] ne obtain al where
    sd: "set_dashboards (dashboards cc) True (k_window k) = (None, show_index 0 (swapped (dashboards cc) al (k_window k)))"
    by auto
  let ?w = "swapped (dashboards cc) al (k_window k)"
  note s = swapped_facts [OF inv, of "dashboards cc" al]
  have "w_dashboards (show_index 0 ?w) = dashboards cc"
    using show_index_facts(2) [OF s(1)] s(2,3) ne ns by simp
  then have "k_window (snd (apply_config cc fc k)) =
       (case wanted_dashboard c cc of
          None \<Rightarrow> show_index 0 ?w
        | Some i \<Rightarrow>
            if i = [] then show_index 0 ?w
            else (case index_of_id i (dashboards cc) 0 of
                    Some n \<Rightarrow> show_index n (show_index 0 ?w)
                  | None \<Rightarrow> show_index 0 ?w))"
    using ne none c
    by (auto simp: apply_config_def sd select_start_dashboard_def wanted_dashboard_def Let_def
        split: option.split)
  then show thesis using that s ns by blast
qed

text \<open>What is current after showing an index in range.\<close>

lemma shown_current:
  assumes "base_inv w" and "w_dashboards w \<noteq> []" and "\<not> w_needs_setup w"
    and "0 \<le> i" and "i < int (length (w_dashboards w))"
  shows "current_dashboard (show_index i w) = Some (w_dashboards w ! nat i)"
  using show_index_facts(2,3) [OF assms(1-3), of i] assms(4,5) by (simp add: current_dashboard_def)

lemma first_dashboards_shown:
  assumes inv: "win_inv (k_window k)" and ns: "\<not> w_needs_setup (k_window k)"
    and none: "w_dashboards (k_window k) = []" and ok: "list_all page_ok (dashboards cc)"
    and ne0: "dashboards cc \<noteq> []" and c: "start_dashboard (k_config k) = start_dashboard c"
    and wanted: "wanted = wanted_dashboard c cc"
  shows "w_dashboards (k_window (snd (apply_config cc from_cache k))) = dashboards cc \<and>
    (if wanted \<in> (Some \<circ> d_id) ` set (dashboards cc) \<and> wanted \<noteq> Some []
     then map_option d_id (current_dashboard (k_window (snd (apply_config cc from_cache k)))) = wanted
     else current_dashboard (k_window (snd (apply_config cc from_cache k))) = Some (hd (dashboards cc)))"
proof -
  let ?w = "k_window (snd (apply_config cc from_cache k))"
  obtain v where v: "base_inv v" "w_dashboards v = dashboards cc" "\<not> w_needs_setup v"
    and w: "?w = (case wanted of
          None \<Rightarrow> show_index 0 v
        | Some i \<Rightarrow>
            if i = [] then show_index 0 v
            else (case index_of_id i (dashboards cc) 0 of
                    Some n \<Rightarrow> show_index n (show_index 0 v)
                  | None \<Rightarrow> show_index 0 v))"
    using apply_first [OF inv ns none ok ne0 c, of from_cache] unfolding wanted by auto
  have ne: "w_dashboards v \<noteq> []" using v(2) ne0 by simp
  note f = show_index_facts [OF v(1) ne v(3), of 0]
  have b0: "base_inv (show_index 0 v)" using f(1) by (simp add: win_inv_def)
  have first: "current_dashboard (show_index 0 v) = Some (hd (dashboards cc))"
    using shown_current [OF v(1) ne v(3), of 0] v(2) ne by (simp add: hd_conv_nth)
  show ?thesis
  proof (cases "wanted \<in> (Some \<circ> d_id) ` set (dashboards cc) \<and> wanted \<noteq> Some []")
    case True
    then obtain i where i: "wanted = Some i" "i \<noteq> []" "i \<in> d_id ` set (dashboards cc)" by auto
    then obtain n where n: "index_of_id i (dashboards cc) 0 = Some n"
      using index_of_id_None [of i "dashboards cc" 0] by (cases "index_of_id i (dashboards cc) 0") auto
    note r = index_of_id_range [OF n]
    have ws: "?w = show_index n (show_index 0 v)" using w i n by simp
    have "current_dashboard ?w = Some (dashboards cc ! nat n)"
      unfolding ws using shown_current [OF b0, of n] f(2,6) v(2,3) ne r by simp
    moreover have "w_dashboards ?w = dashboards cc"
      unfolding ws using show_index_facts(2) [OF b0] f(2,6) v(2,3) ne by simp
    ultimately show ?thesis using True i r by simp
  next
    case False
    then have "?w = show_index 0 v"
      using w index_of_id_None [of "the wanted" "dashboards cc" 0]
      by (auto simp: image_iff split: option.splits)
    then show ?thesis using False f(2) v(2) first by auto
  qed
qed

section \<open>An example\<close>

text \<open>A client that starts with an address and no token, and the state in which a server has
  approved it.\<close>

definition run_config :: config where
  "run_config = example_config\<lparr>rotate_interval := 10, device_id := ''device-1''\<rparr>"

definition run_window :: window where
  "run_window = projr (make_window run_config [])"

definition run_start :: controller where
  "run_start = snd (attach [] True False (make_controller run_config run_window (\<lambda>_. Absent)))"

lemma run_window_made: "make_window run_config [] = Inr run_window"
proof -
  have "\<not> isl (make_window run_config [])" by code_simp
  then show ?thesis by (simp add: run_window_def)
qed

lemma run_attach:
  "attach [] True False (make_controller run_config run_window (\<lambda>_. Absent)) =
     (None, apply_rotation (schedule_refresh FIRST_REFRESH_DELAY (start_registration
       (start_cec True False (connect_setup (make_controller run_config run_window (\<lambda>_. Absent)))))))"
  by (simp add: attach_def make_controller_def cache_load_def is_file_def apply_config_def
      empty_client_config_def)

lemma run_start_reachable: "reachable [] run_config run_start"
proof -
  have a: "attach [] True False (make_controller run_config run_window (\<lambda>_. Absent)) = (None, run_start)"
    by (simp add: run_start_def run_attach)
  have "cache_load (cache_dir []) (\<lambda>_. Absent) (base_url run_config) = Inr empty_client_config"
    by (simp add: cache_load_def is_file_def)
  then show ?thesis
    by (intro reachable.attached [OF run_window_made a]) (simp add: empty_client_config_def)
qed

definition approving :: "http_request \<Rightarrow> http_outcome" where
  "approving rq = Answer ''application/json''
     (JsonText (JDict [(''status'', JStr ''approved''), (''token'', JStr ''t'')]))"

definition run_polling :: controller where
  "run_polling = fire_timer \<lparr>tm_id = 0, tm_kind = RegistrationTimer, tm_delay = 500\<rparr> run_start"

definition run_approved :: controller where
  "run_approved = worker_step (\<lambda>_. False) [] approving 0 run_polling"

definition run_chained :: controller where
  "run_chained =
     worker_step (\<lambda>_. False) [] approving 0 (worker_step (\<lambda>_. False) [] approving 0 run_approved)"

lemma run_start_facts:
  "k_timers run_start =
     [\<lparr>tm_id = 0, tm_kind = RegistrationTimer, tm_delay = 500\<rparr>,
      \<lparr>tm_id = 1, tm_kind = RefreshTimer, tm_delay = 1000\<rparr>]"
  "k_workers run_start = []" "\<not> k_stopped run_start" "k_next_timer run_start = 2"
  "k_registration_timer run_start = Some 0" "k_config run_start = run_config"
  "k_rotations run_start = [1]"
proof -
  have "w_next_source w = 1" if "make_window c dirs = Inr w" for c dirs w
    using that by (auto simp: make_window_def bind_result_Inr_iff Let_def)
  from this [OF run_window_made] have "w_next_source run_window = 1" .
  then show "k_timers run_start =
     [\<lparr>tm_id = 0, tm_kind = RegistrationTimer, tm_delay = 500\<rparr>,
      \<lparr>tm_id = 1, tm_kind = RefreshTimer, tm_delay = 1000\<rparr>]"
    "k_workers run_start = []" "\<not> k_stopped run_start" "k_next_timer run_start = 2"
    "k_registration_timer run_start = Some 0" "k_config run_start = run_config"
    "k_rotations run_start = [1]"
    unfolding run_start_def run_attach
    by (simp_all add: apply_rotation_def cancel_rotation_def add_rotation_def
        schedule_refresh_def start_refresh_timer_def may_refresh_def start_registration_def
        start_registration_timer_def start_cec_def idle_def make_controller_def Let_def
        FIRST_REFRESH_DELAY_def run_config_def example_config_def default_config_def)
qed

lemma run_polling_reachable: "reachable [] run_config run_polling"
proof -
  have "\<lparr>tm_id = 0, tm_kind = RegistrationTimer, tm_delay = 500\<rparr> \<in> set (k_timers run_start)"
    by (simp add: run_start_facts)
  from own [OF in_background [OF timer_fires [OF this]]] show ?thesis
    unfolding run_polling_def by (rule reachable.steps [OF run_start_reachable])
qed

lemma worker_reachable:
  assumes "reachable env c k" and "i < length (k_workers k)" and "worker_ok urlopen (k_workers k ! i)"
  shows "reachable env c (worker_step fails env urlopen i k)"
  using assms reachable.steps own in_background worker_moves by metis

lemma run_polling_facts:
  "k_workers run_polling = [Polling run_config]" "\<not> k_stopped run_polling"
  "k_timers run_polling = [\<lparr>tm_id = 1, tm_kind = RefreshTimer, tm_delay = 1000\<rparr>]"
  "k_next_timer run_polling = 2" "k_registration_timer run_polling = Some 0"
  "k_rotations run_polling = [1]"
  using run_start_facts by (simp_all add: run_polling_def fire_timer_def)

lemma approved_answer:
  obtains fs' cmds where "attempt_registration (\<lambda>_. False) [] approving run_config fs =
    Inr (Some \<lparr>reg_status = ''approved'', reg_token = ''t''\<rparr>, run_config\<lparr>api_token := ''t''\<rparr>, fs', cmds)"
proof -
  have "register run_config approving (osd_name run_config) = Inr \<lparr>reg_status = ''approved'', reg_token = ''t''\<rparr>"
    "server_url run_config \<noteq> []" "api_token run_config = []"
    by code_simp+
  moreover obtain e fs' cmds where "persist (\<lambda>_. False) [] None ''api-token'' ''t'' fs = (e, fs', cmds)"
    by (metis prod_cases3)
  ultimately show thesis
    using that by (simp add: attempt_registration_def reg_pending_def reg_approved_def)
qed

lemma run_approved_reachable: "reachable [] run_config run_approved"
  unfolding run_approved_def
  by (rule worker_reachable [OF run_polling_reachable]) (simp_all add: run_polling_facts)

lemma run_approved_facts:
  "k_workers run_approved = [Scheduling 500]" "\<not> k_stopped run_approved"
  "k_timers run_approved = [\<lparr>tm_id = 1, tm_kind = RefreshTimer, tm_delay = 1000\<rparr>]"
  "k_next_timer run_approved = 2" "refresh_interval (k_config run_approved) = 300"
  "k_registration_timer run_approved = Some 0" "k_rotations run_approved = [1]"
proof -
  obtain fs' cmds where a: "attempt_registration (\<lambda>_. False) [] approving run_config (k_fs run_polling) =
    Inr (Some \<lparr>reg_status = ''approved'', reg_token = ''t''\<rparr>, run_config\<lparr>api_token := ''t''\<rparr>, fs', cmds)"
    by (rule approved_answer)
  have "refresh_interval run_config = 300" by code_simp
  then show "k_workers run_approved = [Scheduling 500]" "\<not> k_stopped run_approved"
    "k_timers run_approved = [\<lparr>tm_id = 1, tm_kind = RefreshTimer, tm_delay = 1000\<rparr>]"
    "k_next_timer run_approved = 2" "refresh_interval (k_config run_approved) = 300"
    "k_registration_timer run_approved = Some 0" "k_rotations run_approved = [1]"
    using run_polling_facts a
    by (simp_all add: run_approved_def worker_step_def poll_answer_def reg_approved_def idle_def)
qed

lemma run_chained_form:
  "run_chained = start_refresh_timer 500 (run_approved\<lparr>k_workers := []\<rparr>)"
  using run_approved_facts(1,2,5)
  by (simp add: run_chained_def worker_step_def may_refresh_def start_refresh_timer_def)

lemma run_chained_reachable: "reachable [] run_config run_chained"
proof -
  let ?k = "worker_step (\<lambda>_. False) [] approving 0 run_approved"
  have k: "k_workers ?k = [Starting 500]"
    using run_approved_facts(1,2,5) by (simp add: worker_step_def may_refresh_def)
  have "reachable [] run_config ?k"
    by (rule worker_reachable [OF run_approved_reachable]) (simp_all add: run_approved_facts)
  then show ?thesis
    unfolding run_chained_def by (rule worker_reachable) (simp_all add: k)
qed

lemma run_chained_facts:
  "\<not> k_stopped run_chained" "k_workers run_chained = []"
  "k_timers run_chained =
     [\<lparr>tm_id = 1, tm_kind = RefreshTimer, tm_delay = 1000\<rparr>,
      \<lparr>tm_id = 2, tm_kind = RefreshTimer, tm_delay = 500\<rparr>]"
  "k_refresh_timer run_chained = Some 2" "k_registration_timer run_chained = Some 0"
  "length (k_rotations run_chained) = 1"
  using run_approved_facts by (simp_all add: run_chained_form start_refresh_timer_def)

section \<open>Properties\<close>

text \<open>Refreshes never dry up. In every state a started client can reach, whatever the servers
  answered, the disk refused, the remote sent and in whatever order the threads ran, until it
  is stopped a refresh is pending on a timer or under way on a thread (unless
  \<open>refresh-interval\<close> is 0).\<close>

theorem refresh_never_stops:
  assumes "reachable env c k" and "\<not> k_stopped k" and "refresh_interval c \<noteq> 0"
  shows "(\<exists>t \<in> set (k_timers k). tm_kind t = RefreshTimer) \<or>
    (\<exists>p \<in> set (k_workers k). case p of Fetching _ _ \<Rightarrow> True | Scheduling _ \<Rightarrow> True | Starting _ \<Rightarrow> True | _ \<Rightarrow> False)"
proof -
  have "chain_alive k"
    using reachable_inv [OF assms(1)] assms(2,3) by (simp add: ctl_inv_def threads_inv_def)
  moreover have "refreshing p = (case p of Fetching _ _ \<Rightarrow> True | Scheduling _ \<Rightarrow> True | Starting _ \<Rightarrow> True | _ \<Rightarrow> False)"
    for p by (cases p) simp_all
  ultimately show ?thesis by (simp add: chain_alive_def)
qed

lemma refresh_never_stops_witness:
  "\<exists>t \<in> set (k_timers run_chained). tm_kind t = RefreshTimer"
proof -
  have "refresh_interval run_config \<noteq> 0" by code_simp
  then show ?thesis
    using refresh_never_stops [OF run_chained_reachable run_chained_facts(1)] run_chained_facts(2) by simp
qed

text \<open>C6. One refresh, from the answer to the next timer. Whatever the server answers, the thread
  starts exactly one new timer, for the interval, or for at least 900 seconds after a
  rejected token; it queues a toast for a rejected token or an unreachable server, and the
  new configuration only if the cache could be written.\<close>

theorem refresh_cycle:
  assumes "i < length (k_workers k)" and "k_workers k ! i = Fetching delay client" and "may_refresh k"
    and "k\<^sub>1 = worker_step fails env urlopen i k" and "k\<^sub>2 = worker_step fails' env urlopen' i k\<^sub>1"
    and "k\<^sub>3 = worker_step fails'' env urlopen'' i k\<^sub>2"
  shows "k_timers k\<^sub>3 = k_timers k @ [\<lparr>tm_id = k_next_timer k, tm_kind = RefreshTimer, tm_delay = 1000 *
      (case fetch_client_config client urlopen of Inl (AuthError _) \<Rightarrow> max delay 900 | _ \<Rightarrow> delay)\<rparr>] \<and>
    k_idle k\<^sub>3 = k_idle k @
      (case fetch_client_config client urlopen of
         Inl (AuthError _) \<Rightarrow> [CallToast ToastTokenRejected]
       | Inl (ApiError _) \<Rightarrow> [CallToast ToastUnreachable]
       | Inl _ \<Rightarrow> []
       | Inr cc \<Rightarrow> if fst (cache_save fails (cache_dir env) cc (k_fs k)) = None then [CallApply cc False] else []) \<and>
    length (k_workers k\<^sub>3) + 1 = length (k_workers k)"
proof -
  obtain n k' where r: "refresh_answer fails env urlopen delay client k = (n, k')" by fastforce
  note f = refresh_answer_form [OF r]
  let ?ws = "(k_workers k)[i := Scheduling (1000 * n)]"
  have 1: "k\<^sub>1 = k'\<lparr>k_workers := ?ws\<rparr>"
    using assms(2,4) r by (simp add: worker_step_def)
  have 2: "k\<^sub>2 = k'\<lparr>k_workers := (k_workers k)[i := Starting (1000 * n)]\<rparr>"
    using assms(1,3,5) f(6) by (simp add: worker_step_def 1)
  have 3: "k\<^sub>3 = (start_refresh_timer (1000 * n) k')\<lparr>k_workers := take i (k_workers k) @ drop (Suc i) (k_workers k)\<rparr>"
    using assms(1,6) by (simp add: worker_step_def 2 start_refresh_timer_def)
  have n: "n = (case fetch_client_config client urlopen of Inl (AuthError _) \<Rightarrow> max delay 900 | _ \<Rightarrow> delay)"
    using f(1) by (auto simp: refused_def AUTH_RETRY_SECONDS_def split: sum.split py_error.split)
  have "k_idle k\<^sub>3 = k_idle k'" by (simp add: 3 start_refresh_timer_def)
  then show ?thesis
    using assms(1) f(2,3,4) unfolding n [symmetric]
    by (auto simp: 3 answer_calls_def cache_saved_def split: sum.split py_error.split)
qed

lemma refresh_cycle_witness:
  "k_timers (worker_step (\<lambda>_. False) [] (\<lambda>_. NetworkFailure) 0 (worker_step (\<lambda>_. False) [] (\<lambda>_. NetworkFailure) 0
     (worker_step (\<lambda>_. False) [] (\<lambda>_. StatusError 401) 0
       (run_start\<lparr>k_workers := [Fetching 300 run_config], k_timers := []\<rparr>)))) =
   [\<lparr>tm_id = 2, tm_kind = RefreshTimer, tm_delay = 900000\<rparr>]"
proof -
  let ?k = "run_start\<lparr>k_workers := [Fetching 300 run_config], k_timers := []\<rparr>"
  have f: "fetch_client_config run_config (\<lambda>_. StatusError 401) = Inl (AuthError 401)" by code_simp
  have "refresh_interval run_config \<noteq> 0" by code_simp
  then have m: "may_refresh ?k" by (simp add: may_refresh_def run_start_facts)
  show ?thesis
    using refresh_cycle [of 0 ?k 300 run_config, OF _ _ m refl refl refl, where urlopen = "\<lambda>_. StatusError 401"]
    by (simp add: f run_start_facts)
qed

text \<open>C16. The carousel has at most one timer, and it runs exactly when the carousel is on: after
  any interleaving of presses, pauses and rotations there is never a second timer that would
  rotate twice, and until the client is stopped a carousel that is configured and not paused
  keeps its timer.\<close>

theorem carousel_timer:
  assumes "reachable env c k"
  shows "length (k_rotations k) \<le> 1 \<and>
    (if k_rotating k \<and> rotate_interval c \<noteq> 0 then k_stopped k \<or> k_rotations k = [k_rotate_source k]
     else k_rotations k = [])"
proof -
  have "rotation_inv k" and "rotate_interval (k_config k) = rotate_interval c"
    using reachable_inv [OF assms] by (auto simp: ctl_inv_def threads_inv_def same_settingsD)
  then show ?thesis by (auto simp: rotation_inv_def one_rotation_def carousel_on_def)
qed

lemma carousel_timer_witness: "k_rotations run_start = [k_rotate_source run_start]"
proof -
  have "k_rotating run_start" "rotate_interval run_config = 10"
    unfolding run_start_def run_attach
    by (simp_all add: apply_rotation_def cancel_rotation_def add_rotation_def
        schedule_refresh_def start_refresh_timer_def may_refresh_def start_registration_def
        start_registration_timer_def start_cec_def idle_def make_controller_def Let_def
        run_config_def example_config_def default_config_def)
  then show ?thesis
    using carousel_timer [OF run_start_reachable] run_start_facts(3) by simp
qed

text \<open>Stopping works: from the moment the controller is stopped, the timers and threads that
  are left can make only a bounded number of moves, whatever the servers answer. A refresh
  that is under way ends without a successor, and one that slipped past the check makes one
  more request and ends.\<close>

theorem shutdown_terminates:
  assumes "k_stopped k" and "(background env ^^ n) k k'"
  shows "n + work_left k' \<le> work_left k \<and> k_stopped k'"
  using assms(2)
proof (induction n arbitrary: k')
  case 0
  then show ?case using assms(1) by simp
next
  case (Suc n)
  then obtain k1 where "(background env ^^ n) k k1" and b: "background env k1 k'" by auto
  then have "n + work_left k1 \<le> work_left k \<and> k_stopped k1" using Suc.IH by blast
  then show ?case using background_work [OF b] by auto
qed

lemma shutdown_terminates_witness:
  "(background [] ^^ 1) (stop run_chained)
     (fire_timer \<lparr>tm_id = 1, tm_kind = RefreshTimer, tm_delay = 1000\<rparr> (stop run_chained)) \<and>
   1 + work_left (fire_timer \<lparr>tm_id = 1, tm_kind = RefreshTimer, tm_delay = 1000\<rparr> (stop run_chained))
     \<le> work_left (stop run_chained)"
proof -
  have s: "k_stopped (stop run_chained)" by (simp add: stop_def cancel_rotation_def)
  have "\<lparr>tm_id = 1, tm_kind = RefreshTimer, tm_delay = 1000\<rparr> \<in> set (k_timers (stop run_chained))"
    by (simp add: stop_def cancel_rotation_def cancels_def run_chained_facts)
  then have b: "(background [] ^^ 1) (stop run_chained)
     (fire_timer \<lparr>tm_id = 1, tm_kind = RefreshTimer, tm_delay = 1000\<rparr> (stop run_chained))"
    by (auto intro: timer_fires)
  show ?thesis using b shutdown_terminates [OF s b] by simp
qed

text \<open>The first dashboards to arrive, from the cache or from the server, are shown from the
  right one on: from the configured start dashboard, without one from the server's default,
  and from the first dashboard when that one is not in the list or nobody asked for one.\<close>

theorem start_dashboard_shown:
  assumes "reachable env c k" and "\<not> w_needs_setup (k_window k)" and "w_dashboards (k_window k) = []"
    and "list_all page_ok (dashboards cc)" and "dashboards cc \<noteq> []"
    and "wanted = (if start_dashboard c \<noteq> [] then Some (start_dashboard c) else default_dashboard_id cc)"
    and "w = k_window (run_call (CallApply cc from_cache) k)"
  shows "w_dashboards w = dashboards cc \<and>
    (if wanted \<in> (Some \<circ> d_id) ` set (dashboards cc) \<and> wanted \<noteq> Some []
     then map_option d_id (current_dashboard w) = wanted
     else current_dashboard w = Some (hd (dashboards cc)))"
proof -
  have "win_inv (k_window k)" and "start_dashboard (k_config k) = start_dashboard c"
    using reachable_inv [OF assms(1)] by (auto simp: ctl_inv_def threads_inv_def same_settingsD)
  then show ?thesis
    using first_dashboards_shown [OF _ assms(2-5), of c wanted from_cache] assms(6,7)
    by (simp add: wanted_dashboard_def)
qed

lemma start_dashboard_shown_witness:
  "\<exists>cc w. w = k_window (run_call (CallApply cc True) run_start) \<and> length (dashboards (cc :: client_config)) = 3 \<and>
     map_option d_id (current_dashboard w) = Some ''b''"
proof -
  let ?cc = "\<lparr>dashboards = example_dashboards, default_dashboard_id = Some ''b''\<rparr>"
  have w: "k_window run_start = run_window\<lparr>w_on_configured := True, w_next_source := w_next_source run_window + 1\<rparr>"
    unfolding run_start_def run_attach
    by (simp add: apply_rotation_def cancel_rotation_def add_rotation_def
        schedule_refresh_def start_refresh_timer_def may_refresh_def start_registration_def
        start_registration_timer_def start_cec_def idle_def make_controller_def Let_def
        run_config_def example_config_def default_config_def)
  have u: "server_url run_config \<noteq> []" "start_dashboard run_config = []" by code_simp+
  have "\<not> w_needs_setup v" "w_dashboards v = []" if "make_window run_config [] = Inr v" for v
    using that u(1) by (auto simp: make_window_def bind_result_Inr_iff Let_def)
  then have "\<not> w_needs_setup (k_window run_start)" "w_dashboards (k_window run_start) = []"
    using run_window_made by (simp_all add: w)
  then show ?thesis
    using start_dashboard_shown [OF run_start_reachable _ _ _ _ refl refl, of ?cc True] u(2)
      example_guard(2)
    by (intro exI [of _ ?cc] exI [of _ "k_window (run_call (CallApply ?cc True) run_start)"])
      (simp add: example_dashboards_def example_dashboard_def)
qed

text \<open>C10. Typing an address ends in one of three ways. When the server answers the enrolment, the
  setup screen gives way to the kiosk, which goes on fetching if the answer was an approval
  with a token and otherwise says that it is waiting and keeps asking; when it does not
  answer, the setup screen stays, says so and can be typed into again; and on any other
  exception the thread dies and the screen stays as it was.\<close>

theorem setup_outcome:
  assumes "w_needs_setup (k_window k)" and "k_idle k = []"
    and "server_url config \<noteq> []" and "api_token config = []"
    and "setup_answer fails env urlopen config k = (p, k')" and "w = k_window (main_loop k')"
  shows "case register config urlopen (osd_name config) of
      Inr r \<Rightarrow> \<not> w_needs_setup w \<and> w_visible w = Placeholder \<and>
        (if reg_approved r \<and> reg_token r \<noteq> [] then p = Some (Scheduling 500)
         else p = None \<and> w_caption w = WaitingForApproval \<and>
           RegistrationTimer \<in> tm_kind ` set (k_timers k'))
    | Inl e \<Rightarrow> p = None \<and>
        (if \<exists>x. e = ApiError x \<or> (\<exists>code. e = AuthError code)
         then w_needs_setup w \<and> w_setup w = (w_setup (k_window k))
           \<lparr>st_message := DidNotAnswer (server_url config), st_error := True, st_sensitive := True\<rparr>
         else w = k_window k)"
proof (cases "register config urlopen (osd_name config)")
  case (Inl e)
  then show ?thesis
    using assms
    by (cases e) (auto simp: setup_answer_def attempt_registration_def main_loop_def idle_def
        on_window_def setup_status_def set_setup_status_def reset_for_retry_def Let_def)
next
  case (Inr r)
  show ?thesis
  proof (cases "reg_approved r \<and> reg_token r \<noteq> []")
    case True
    obtain x fs' cmds where "persist fails env None ''api-token'' (reg_token r) (k_fs k) = (x, fs', cmds)"
      by (metis prod_cases3)
    then have "attempt_registration fails env urlopen config (k_fs k) =
        Inr (Some r, config\<lparr>api_token := reg_token r\<rparr>, fs', cmds)"
      using assms(3,4) Inr True by (simp add: attempt_registration_def reg_pending_def reg_approved_def)
    then show ?thesis
      using assms(1,2,5,6) Inr True
      by (auto simp: setup_answer_def main_loop_def idle_def on_window_def setup_status_def leave_setup_def Let_def)
  next
    case False
    then have "attempt_registration fails env urlopen config (k_fs k) = Inr (Some r, config, k_fs k, [])"
      using assms(3,4) Inr by (auto simp: attempt_registration_def)
    then show ?thesis
      using assms(1-6) Inr False
      by (auto simp: setup_answer_def main_loop_def idle_def on_window_def setup_status_def leave_setup_def
          set_enrolment_status_def start_registration_def start_registration_timer_def Let_def)
  qed
qed

lemma setup_outcome_witness:
  "\<exists>p k' w k\<^sub>0. setup_answer (\<lambda>_. False) [] (\<lambda>_. NetworkFailure) run_config k\<^sub>0 = (p, k') \<and>
     w = k_window (main_loop k') \<and> w_needs_setup w \<and> st_error (w_setup w) \<and> st_sensitive (w_setup w)"
proof -
  let ?k = "run_start\<lparr>k_idle := [], k_window := run_window\<lparr>w_needs_setup := True\<rparr>\<rparr>"
  obtain p k' where a: "setup_answer (\<lambda>_. False) [] (\<lambda>_. NetworkFailure) run_config ?k = (p, k')"
    by fastforce
  have r: "register run_config (\<lambda>_. NetworkFailure) (osd_name run_config) = Inl (ApiError Unreachable)"
    and c: "server_url run_config \<noteq> []" "api_token run_config = []"
    by code_simp+
  show ?thesis
    using a setup_outcome [OF _ _ c a refl] r
    by (intro exI [of _ p] exI [of _ k'] exI [of _ "k_window (main_loop k')"] exI [of _ ?k]) simp
qed

text \<open>A device that holds a token can never leave the setup screen: enrolment is skipped for
  it, and the screen reports that the server did not answer, whichever address is typed and
  whatever the server would have said.\<close>

theorem setup_with_token_fails:
  assumes "w_needs_setup (k_window k)" and "k_idle k = []" and "api_token config \<noteq> []"
    and "setup_answer fails env urlopen config k = (p, k')" and "w = k_window (main_loop k')"
  shows "p = None \<and> w_needs_setup w \<and> st_message (w_setup w) = DidNotAnswer (server_url config)"
  using assms
  by (auto simp: setup_answer_def attempt_registration_def main_loop_def idle_def on_window_def
      setup_status_def set_setup_status_def reset_for_retry_def Let_def)

lemma setup_with_token_fails_witness:
  "\<exists>k k'. setup_answer (\<lambda>_. False) [] approving (run_config\<lparr>api_token := ''t''\<rparr>) k = (None, k') \<and>
     w_needs_setup (k_window (main_loop k'))"
proof -
  let ?k = "run_start\<lparr>k_idle := [], k_window := run_window\<lparr>w_needs_setup := True\<rparr>\<rparr>"
  obtain p k' where a: "setup_answer (\<lambda>_. False) [] approving (run_config\<lparr>api_token := ''t''\<rparr>) ?k = (p, k')"
    by fastforce
  show ?thesis
    using a setup_with_token_fails [OF _ _ _ a refl] by (intro exI [of _ ?k] exI [of _ k']) simp
qed

text \<open>Enrolment can die in silence: an exception that is no \<open>ApiError\<close>, such as a malformed
  HTTP answer, ends the polling thread without a new timer, so the client reaches a state in
  which it holds no token, is not stopped, and no timer or thread will ever ask again.\<close>

theorem enrolment_can_die:
  "\<exists>env c k. reachable env c k \<and> \<not> k_stopped k \<and> api_token (k_config k) = [] \<and>
     server_url (k_config k) \<noteq> [] \<and> RegistrationTimer \<notin> tm_kind ` set (k_timers k) \<and>
     k_workers k = []"
proof -
  let ?k = "worker_step (\<lambda>_. False) [] (\<lambda>_. OtherFailure HttpException) 0 run_polling"
  have "reachable [] run_config ?k"
    by (rule worker_reachable [OF run_polling_reachable]) (simp_all add: run_polling_facts)
  moreover have "attempt_registration (\<lambda>_. False) [] (\<lambda>_. OtherFailure HttpException) run_config fs =
      Inl HttpException" for fs
  proof -
    have "register run_config (\<lambda>_. OtherFailure HttpException) (osd_name run_config) = Inl HttpException"
      "server_url run_config \<noteq> []" "api_token run_config = []"
      by code_simp+
    then show ?thesis by (simp add: attempt_registration_def)
  qed
  then have k: "?k = run_polling\<lparr>k_workers := []\<rparr>"
    using run_polling_facts(1) by (simp add: worker_step_def poll_answer_def)
  moreover have "k_config run_polling = run_config"
    by (simp add: run_polling_def fire_timer_def run_start_facts)
  moreover have "server_url run_config \<noteq> []" "api_token run_config = []" by code_simp+
  ultimately show ?thesis
    using run_polling_facts(2,3)
    by (intro exI [of _ "[]"] exI [of _ run_config] exI [of _ ?k] conjI) simp_all
qed

end
