(* ===== verification/Enrolment.thy ===== *)
theory Enrolment
  imports Controller_Live
begin

text \<open>
  How long a client without a token keeps asking for one. The lemmas follow a registration
  from thread to timer and back; the property says what alone can end the asking.
\<close>

section \<open>Asking\<close>

fun enrols :: "worker \<Rightarrow> bool" where
  "enrols (Polling config) = True"
| "enrols SetupStarting = True"
| "enrols (SetupRegistering config) = True"
| "enrols _ = False"

definition enrolling :: "controller \<Rightarrow> bool" where
  "enrolling k \<longleftrightarrow>
     (\<exists>t \<in> set (k_timers k). tm_kind t = RegistrationTimer) \<or> (\<exists>p \<in> set (k_workers k). enrols p)"

text \<open>A step after which nobody may be asking any more: the client was stopped, holds a token, has
  said on the setup screen that the address did not answer, or the step is that of a thread
  whose registration raised something that is no ApiError.\<close>

definition gave_up :: "environ \<Rightarrow> controller \<Rightarrow> controller \<Rightarrow> bool" where
  "gave_up env k k' \<longleftrightarrow>
     k_stopped k' \<or> api_token (k_config k') \<noteq> [] \<or>
     (\<exists>url. CallSetupStatus (DidNotAnswer url) True \<in> set (k_idle k')) \<or>
     (\<exists>fails urlopen i config e.
        i < length (k_workers k) \<and> k_workers k ! i \<in> {Polling config, SetupRegistering config} \<and>
        k' = worker_step fails env urlopen i k \<and>
        attempt_registration fails env urlopen config (k_fs k) = Inl e \<and>
        (\<forall>reason. e \<noteq> ApiError reason) \<and> (\<forall>code. e \<noteq> AuthError code))"

lemma attempt_registration_error:
  "attempt_registration fails env urlopen config fs = Inl e \<Longrightarrow>
     (\<forall>reason. e \<noteq> ApiError reason) \<and> (\<forall>code. e \<noteq> AuthError code)"
  by (auto simp: attempt_registration_def split: if_splits sum.splits py_error.splits prod.splits)

lemma attempt_registration_answered:
  "attempt_registration fails env urlopen config fs = Inr (Some r, c, fs', cmds) \<Longrightarrow> server_url c \<noteq> []"
  by (auto simp: attempt_registration_def split: if_splits sum.splits py_error.splits prod.splits)

lemma worker_move_timers:
  assumes "worker_move fails env urlopen p k = (p', k')"
  shows "set (k_timers k) \<subseteq> set (k_timers k')"
proof (cases p)
  case (Fetching d client)
  then show ?thesis using assms refresh_answer_form(3) by (auto split: prod.splits)
next
  case (SetupRegistering config)
  then show ?thesis
    using assms
    by (auto simp: setup_answer_def start_registration_def Let_def
        split: sum.splits prod.splits option.splits if_splits)
next
  case (Polling config)
  then show ?thesis
    using assms
    by (auto simp: poll_answer_def Let_def split: sum.splits prod.splits option.splits if_splits)
qed (use assms in \<open>auto split: if_splits\<close>)

text \<open>A thread that asks leaves a timer or a thread that will ask, or a reason.\<close>

lemma worker_move_enrols:
  assumes "enrols p" and "worker_move fails env urlopen p k = (p', k')"
  shows "(\<exists>q. p' = Some q \<and> enrols q) \<or> (\<exists>t \<in> set (k_timers k'). tm_kind t = RegistrationTimer) \<or>
    api_token (k_config k') \<noteq> [] \<or>
    (\<exists>url. CallSetupStatus (DidNotAnswer url) True \<in> set (k_idle k')) \<or>
    (\<exists>config e. p \<in> {Polling config, SetupRegistering config} \<and>
       attempt_registration fails env urlopen config (k_fs k) = Inl e)"
proof (cases p)
  case (Polling config)
  then show ?thesis
    using assms
    by (auto simp: poll_answer_def Let_def start_registration_timer_def
        split: sum.splits prod.splits option.splits if_splits)
next
  case (SetupRegistering config)
  show ?thesis
  proof (cases "attempt_registration fails env urlopen config (k_fs k)")
    case (Inl e)
    then show ?thesis using SetupRegistering by blast
  next
    case (Inr r)
    obtain answer c fs cmds where r: "r = (answer, c, fs, cmds)" by (cases r) auto
    show ?thesis
    proof (cases answer)
      case None
      then show ?thesis using assms SetupRegistering Inr r by (auto simp: setup_answer_def Let_def)
    next
      case (Some g)
      then have "server_url c \<noteq> []" using attempt_registration_answered Inr r by blast
      then show ?thesis
        using assms SetupRegistering Inr r Some
        by (auto simp: setup_answer_def Let_def start_registration_def start_registration_timer_def
            idle_def split: if_splits)
    qed
  qed
qed (use assms in auto)

lemma gave_upI:
  "api_token (k_config k') \<noteq> [] \<Longrightarrow> gave_up env k k'"
  "CallSetupStatus (DidNotAnswer url) True \<in> set (k_idle k') \<Longrightarrow> gave_up env k k'"
  "i < length (k_workers k) \<Longrightarrow> k_workers k ! i \<in> {Polling config, SetupRegistering config} \<Longrightarrow>
     attempt_registration fails env urlopen config (k_fs k) = Inl e \<Longrightarrow>
     gave_up env k (worker_step fails env urlopen i k)"
  using attempt_registration_error [of fails env urlopen config "k_fs k" e]
  unfolding gave_up_def by blast+

lemma enrolling_worker_step:
  assumes "enrolling k" and i: "i < length (k_workers k)"
  shows "enrolling (worker_step fails env urlopen i k) \<or> gave_up env k (worker_step fails env urlopen i k)"
proof -
  obtain p' k' where m: "worker_move fails env urlopen (k_workers k ! i) k = (p', k')" by fastforce
  let ?ws = "case p' of Some q \<Rightarrow> (k_workers k)[i := q]
    | None \<Rightarrow> take i (k_workers k) @ drop (Suc i) (k_workers k)"
  have step: "worker_step fails env urlopen i k = k'\<lparr>k_workers := ?ws\<rparr>"
    by (simp add: worker_step_def m split: option.split)
  show ?thesis
  proof (rule disjCI)
    let ?k = "worker_step fails env urlopen i k"
    assume on: "\<not> gave_up env k ?k"
    have "(\<exists>t \<in> set (k_timers k'). tm_kind t = RegistrationTimer) \<or> (\<exists>p \<in> set ?ws. enrols p)"
    proof (rule alive_move [OF _ i])
      show "(\<exists>t \<in> set (k_timers k). tm_kind t = RegistrationTimer) \<or> (\<exists>p \<in> set (k_workers k). enrols p)"
        using assms(1) by (simp add: enrolling_def)
      show "set (k_timers k) \<subseteq> set (k_timers k')" by (rule worker_move_timers [OF m])
      have "api_token (k_config k') = []" "CallSetupStatus (DidNotAnswer url) True \<notin> set (k_idle k')" for url
        using on gave_upI(1) [of ?k] gave_upI(2) [of _ ?k] unfolding step by auto
      moreover have "\<not> (\<exists>config e. k_workers k ! i \<in> {Polling config, SetupRegistering config} \<and>
          attempt_registration fails env urlopen config (k_fs k) = Inl e)"
        using on gave_upI(3) [OF i] by blast
      ultimately show "(\<exists>q. p' = Some q \<and> enrols q) \<or> (\<exists>t \<in> set (k_timers k'). tm_kind t = RegistrationTimer)"
        if "enrols (k_workers k ! i)"
        using worker_move_enrols [OF that m] by blast
    qed
    then show "enrolling ?k" by (simp add: enrolling_def step)
  qed
qed

lemma enrolling_fire_timer:
  assumes "enrolling k" and "t \<in> set (k_timers k)"
  shows "enrolling (fire_timer t k) \<or> gave_up env k (fire_timer t k)"
proof (cases "tm_kind t")
  case RegistrationTimer
  then show ?thesis by (auto simp: fire_timer_def enrolling_def gave_up_def Let_def)
next
  case RefreshTimer
  have "u \<in> set (remove1 t (k_timers k))" if "u \<in> set (k_timers k)" "tm_kind u = RegistrationTimer" for u
    using that RefreshTimer by (metis in_set_remove1 timer_kind.distinct(1))
  then show ?thesis using assms(1) RefreshTimer by (auto simp: fire_timer_def enrolling_def Let_def)
qed

lemma enrolling_behind: "behind k = behind k' \<Longrightarrow> enrolling k = enrolling k'"
  by (simp add: enrolling_def behind_def)

lemma enrolling_own:
  assumes "enrolling k" and "own_step env k k'"
  shows "enrolling k' \<or> gave_up env k k'"
  using assms(2)
proof (cases rule: own_step.cases)
  case in_background
  then show ?thesis
    by (cases rule: background.cases) (use assms(1) enrolling_worker_step enrolling_fire_timer in auto)
next
  case (key name)
  then show ?thesis
    using assms(1) enrolling_behind [of "snd (on_key_pressed name k)" k]
    by (simp add: on_key_pressed_def split: sum.split option.split)
next
  case (address fails input)
  then show ?thesis
    using assms(1)
    by (auto simp: submit_address_def configure_from_setup_def enrolling_def on_window_def idle_def
        Let_def split: prod.split option.split)
qed (use assms(1) enrolling_behind [OF on_window_fields(2)] enrolling_behind [OF rotation_ops_behind(4)]
    in auto)

lemma enrolling_step:
  assumes "enrolling k" and "ctl_step env k k'"
  shows "enrolling k' \<or> gave_up env k k'"
  using assms(2)
proof (cases rule: ctl_step.cases)
  case own
  then show ?thesis using assms(1) enrolling_own by blast
next
  case (call_runs c cs)
  have "enrolling (k\<lparr>k_idle := cs\<rparr>)" using assms(1) by (simp add: enrolling_def)
  then show ?thesis using call_runs(1) enrolling_behind [OF run_call_behind] by blast
next
  case (cec e)
  then show ?thesis
    using assms(1) by (auto simp: on_cec_event_def enrolling_def split: option.split)
next
  case stopping
  then show ?thesis by (simp add: gave_up_def stop_def cancel_rotation_def)
qed

lemma attach_enrols:
  assumes "attach env device_exists libcec_importable (make_controller c w fs) = (None, k)"
    and "server_url c \<noteq> []" and "api_token c = []"
  shows "enrolling k"
proof -
  let ?k0 = "connect_setup (make_controller c w fs)"
  obtain cc k1 where k1: "apply_config cc True ?k0 = (None, k1)"
    and k: "k = apply_rotation (schedule_refresh FIRST_REFRESH_DELAY
      (start_registration (start_cec device_exists libcec_importable k1)))"
    by (rule attach_cases [OF assms(1)])
  have "behind k1 = behind ?k0" using apply_config_behind [of cc True ?k0] k1 by simp
  then have "k_config k1 = c" by (simp add: behind_def make_controller_def)
  then have "enrolling (schedule_refresh FIRST_REFRESH_DELAY
      (start_registration (start_cec device_exists libcec_importable k1)))"
    using assms(2,3)
    by (simp add: enrolling_def schedule_refresh_def start_registration_def start_cec_def Let_def)
  then show ?thesis unfolding k using enrolling_behind [OF apply_rotation_fields(1)] by blast
qed

section \<open>Properties\<close>

text \<open>C8. A device without a token keeps asking for one. A client that starts with an address and no
  token has, in every state it can reach, a registration pending on a timer or under way on a
  thread, unless on the way there it was stopped, came to hold a token, told the person at the
  setup screen that an address did not answer, or lost the thread to an exception that is no
  ApiError. An unreachable server, a refusal and a pending answer never end it.\<close>

theorem enrolment_goes_on:
  assumes "reachable env c k" and "server_url c \<noteq> []" and "api_token c = []"
  shows "(\<exists>t \<in> set (k_timers k). tm_kind t = RegistrationTimer) \<or> (\<exists>p \<in> set (k_workers k). enrols p) \<or>
    (\<exists>m m'. reachable env c m \<and> ctl_step env m m' \<and> gave_up env m m' \<and> (ctl_step env)\<^sup>*\<^sup>* m' k)"
  using assms(1)
proof (induction rule: reachable.induct)
  case (attached dirs w device_exists libcec_importable fs k)
  have "enrolling k" by (rule attach_enrols [OF attached(2) assms(2,3)])
  then show ?case by (auto simp: enrolling_def)
next
  case (steps k k')
  show ?case
  proof (cases "enrolling k")
    case True
    then show ?thesis
      using enrolling_step [OF True steps(2)] steps(1,2) unfolding enrolling_def by blast
  next
    case False
    then obtain m m' where "reachable env c m" "ctl_step env m m'" "gave_up env m m'"
      "(ctl_step env)\<^sup>*\<^sup>* m' k"
      using steps by (auto simp: enrolling_def)
    then show ?thesis using rtranclp.rtrancl_into_rtrancl steps(2) by meson
  qed
qed

text \<open>The client of the example, whose server could not be reached.\<close>

definition run_unanswered :: controller where
  "run_unanswered = worker_step (\<lambda>_. False) [] (\<lambda>_. NetworkFailure) 0 run_polling"

lemma enrolment_goes_on_witness:
  "reachable [] run_config run_unanswered \<and> k_workers run_unanswered = [] \<and>
   ((\<exists>t \<in> set (k_timers run_unanswered). tm_kind t = RegistrationTimer) \<or>
    (\<exists>m m'. reachable [] run_config m \<and> ctl_step [] m m' \<and> gave_up [] m m' \<and>
       (ctl_step [])\<^sup>*\<^sup>* m' run_unanswered))"
proof -
  have r: "reachable [] run_config run_unanswered"
    unfolding run_unanswered_def
    by (rule worker_reachable [OF run_polling_reachable]) (simp_all add: run_polling_facts)
  have c: "server_url run_config \<noteq> []" "api_token run_config = []" by code_simp+
  have "register run_config (\<lambda>_. NetworkFailure) (osd_name run_config) = Inl (ApiError Unreachable)"
    by code_simp
  then have "attempt_registration (\<lambda>_. False) [] (\<lambda>_. NetworkFailure) run_config fs =
      Inr (None, run_config, fs, [])" for fs
    using c by (simp add: attempt_registration_def)
  then have "k_workers run_unanswered = []"
    using run_polling_facts(1)
    by (simp add: run_unanswered_def worker_step_def poll_answer_def)
  then show ?thesis using r enrolment_goes_on [OF r c] by simp
qed

end
