(* ===== verification/Entry.thy ===== *)
theory Entry
  imports Firstrun Policy
begin

text \<open>
  \<open>__main__.py\<close> with \<open>enforce_wayland\<close> of \<open>ui/app.py\<close>, \<open>netinfo.py\<close> and \<open>branding.py\<close>: what
  happens between the start of the process and the GTK main loop. The command line is its two
  options, the clock and the compositor's socket are sequences of readings, and the network
  and the files of the image are functions. Times are in milliseconds.
\<close>

section \<open>The environment\<close>

definition setdefault_env :: "string \<Rightarrow> string \<Rightarrow> environ \<Rightarrow> environ" where
  "setdefault_env k v env = (if map_of env k = None then env @ [(k, v)] else env)"

definition enforce_wayland :: "environ \<Rightarrow> environ" where
  "enforce_wayland env =
     setdefault_env ''WEBKIT_FORCE_SANDBOX'' ''0''
       (setdefault_env ''WAYLAND_DISPLAY'' ''wayland-0''
         (AList.update ''GDK_BACKEND'' ''wayland'' env))"

section \<open>Waiting for the compositor\<close>

text \<open>\<open>os.path.join\<close> of a directory and a name: an absolute name replaces the directory, and a
  directory that ends in a slash gets no second one.\<close>

definition path_join :: "string \<Rightarrow> string \<Rightarrow> string" where
  "path_join a b =
     (if starts_with ''/'' b then b
      else if a = [] \<or> ends_with ''/'' a then a @ b else a @ ''/'' @ b)"

definition env_or :: "environ \<Rightarrow> string \<Rightarrow> string \<Rightarrow> string" where
  "env_or env k d = (case map_of env k of Some v \<Rightarrow> v | None \<Rightarrow> d)"

definition socket_path :: "environ \<Rightarrow> string" where
  "socket_path env = path_join (env_or env ''XDG_RUNTIME_DIR'' []) (env_or env ''WAYLAND_DISPLAY'' ''wayland-0'')"

text \<open>The loop, from the reading number \<open>i\<close> of the clock on; it may not end when the clock stands
  still.\<close>

partial_function (option) wait_loop ::
  "(nat \<Rightarrow> int) \<Rightarrow> (nat \<Rightarrow> bool) \<Rightarrow> int \<Rightarrow> nat \<Rightarrow> bool option" where
  "wait_loop clock exists_at deadline i =
     (if clock i < deadline then
        (if exists_at i then Some True else wait_loop clock exists_at deadline (Suc i))
      else Some (exists_at i))"

definition wait_for_wayland ::
  "environ \<Rightarrow> (nat \<Rightarrow> int) \<Rightarrow> (string \<Rightarrow> nat \<Rightarrow> bool) \<Rightarrow> int \<Rightarrow> bool option" where
  "wait_for_wayland env clock exists_at timeout =
     (if env_or env ''XDG_RUNTIME_DIR'' [] = [] then Some False
      else wait_loop clock (exists_at (socket_path env)) (clock 0 + 1000 * timeout) 1)"

section \<open>main\<close>

record arguments =
  arg_check_config :: bool
  arg_wait :: int

text \<open>What the process does: it ends with a code, it ends with a traceback, it never stops waiting,
  or it enters the GTK main loop with a configuration.\<close>

datatype startup = Exit int | Uncaught py_error | WaitsForever | Run config

definition first_boot ::
  "(fs_op \<Rightarrow> bool) \<Rightarrow> environ \<Rightarrow> string \<Rightarrow> lease_dir list \<Rightarrow> config \<Rightarrow> fs \<Rightarrow>
   config result \<times> fs" where
  "first_boot fails env uuid dirs c fs =
     (case ensure_device_id fails env uuid c fs of
        (c, fs, _) \<Rightarrow>
          if server_url c = [] \<and> dhcp_discovery c then
            (case discover fails env dirs c fs of
               Inl e \<Rightarrow> (Inl e, fs)
             | Inr (c, fs, _) \<Rightarrow> (Inr c, fs))
          else (Inr c, fs))"

definition start_main ::
  "(fs_op \<Rightarrow> bool) \<Rightarrow> environ \<Rightarrow> string option \<Rightarrow> string \<Rightarrow> string \<Rightarrow> lease_dir list \<Rightarrow>
   (nat \<Rightarrow> int) \<Rightarrow> (string \<Rightarrow> nat \<Rightarrow> bool) \<Rightarrow> arguments \<Rightarrow> fs \<Rightarrow> startup \<times> fs" where
  "start_main fails env meminfo host uuid dirs clock exists_at args fs =
     (case load fs env None meminfo host of
        Inl (ValueError _) \<Rightarrow> (Exit 2, fs)
      | Inl e \<Rightarrow> (Uncaught e, fs)
      | Inr c \<Rightarrow>
          (case (if arg_check_config args then (Inr c, fs) else first_boot fails env uuid dirs c fs) of
             (Inl e, fs) \<Rightarrow> (Uncaught e, fs)
           | (Inr c, fs) \<Rightarrow>
               if arg_check_config args then (Exit 0, fs)
               else
                 (case wait_for_wayland (enforce_wayland env) clock exists_at (arg_wait args) of
                    Some True \<Rightarrow> (Run c, fs)
                  | Some False \<Rightarrow> (Exit 1, fs)
                  | None \<Rightarrow> (WaitsForever, fs))))"

section \<open>The device on the network, and its logo\<close>

text \<open>\<open>local_ip\<close>, given what connecting a UDP socket to an address tells: the local address, or
  None for an OSError.\<close>

definition FALLBACK_TARGET :: string where "FALLBACK_TARGET = ''10.255.255.255''"

definition local_ip :: "(string \<Rightarrow> string option) \<Rightarrow> string \<Rightarrow> string result" where
  "local_ip route url =
     bind_result (if url \<noteq> [] then bind_result (urlparse url) (\<lambda>(_, netloc). Inr (hostname netloc)) else Inr [])
       (\<lambda>target. Inr (case route (if target \<noteq> [] then target else FALLBACK_TARGET) of
                        Some a \<Rightarrow> a
                      | None \<Rightarrow> []))"

definition logo_candidates :: "environ \<Rightarrow> string \<Rightarrow> string list" where
  "logo_candidates env checkout =
     (case env_get env ''SNAP'' of
        Some snap \<Rightarrow> [snap @ ''/assets/visiontak-logo.png'']
      | None \<Rightarrow> []) @ [checkout @ ''/assets/visiontak-logo.png'']"

definition logo_path :: "(string \<Rightarrow> bool) \<Rightarrow> environ \<Rightarrow> string \<Rightarrow> string option" where
  "logo_path present env checkout = find present (logo_candidates env checkout)"

section \<open>Lemmas\<close>

lemma wait_loop_ends:
  assumes "\<And>n. i \<le> n \<Longrightarrow> clock n + 1000 \<le> clock (Suc n)" and "deadline \<le> clock i + 1000 * int m"
  shows "\<exists>n. i \<le> n \<and> n \<le> i + m \<and> wait_loop clock exists_at deadline i = Some (exists_at n) \<and>
    (\<forall>j. i \<le> j \<and> j < n \<longrightarrow> \<not> exists_at j) \<and> (exists_at n \<or> deadline \<le> clock n)"
  using assms
proof (induction m arbitrary: i)
  case 0
  then show ?case by (intro exI [of _ i]) (auto simp: wait_loop.simps [of clock exists_at deadline i])
next
  case (Suc m)
  show ?case
  proof (cases "clock i < deadline \<and> \<not> exists_at i")
    case False
    then show ?thesis
      by (intro exI [of _ i]) (auto simp: wait_loop.simps [of clock exists_at deadline i])
  next
    case True
    have "deadline \<le> clock (Suc i) + 1000 * int m"
      using Suc.prems(1) [of i] Suc.prems(2) by simp
    then obtain n where n: "Suc i \<le> n" "n \<le> Suc i + m"
      "wait_loop clock exists_at deadline (Suc i) = Some (exists_at n)"
      "\<forall>j. Suc i \<le> j \<and> j < n \<longrightarrow> \<not> exists_at j" "exists_at n \<or> deadline \<le> clock n"
      using Suc.IH [of "Suc i"] Suc.prems(1) by auto
    have "\<not> exists_at j" if "i \<le> j" "j < n" for j
      using that True n(4) by (cases "j = i") auto
    then show ?thesis
      using n(1,2,3,5) True by (intro exI [of _ n]) (simp add: wait_loop.simps [of clock exists_at deadline i])
  qed
qed

lemma ensure_device_id_strong:
  "ensure_device_id fails env uuid c fs = (c', fs', cmds) \<Longrightarrow>
     strong_device_id (device_id c') \<and> (\<exists>i. c' = c\<lparr>device_id := i\<rparr>)"
  using new_device_id_strong [of uuid]
  by (auto simp: ensure_device_id_def Let_def split: if_splits prod.splits intro: exI [of _ "device_id c"])

lemma discover_config:
  "discover fails env dirs c fs = Inr (c', fs', cmds) \<Longrightarrow> \<exists>u. c' = c\<lparr>server_url := u\<rparr>"
  by (auto simp: discover_def bind_result_Inr_iff split: if_splits prod.splits
      intro: exI [of _ "server_url c"])

lemma config_ok_update:
  "config_ok (c\<lparr>server_url := u\<rparr>) = config_ok c" "config_ok (c\<lparr>device_id := i\<rparr>) = config_ok c"
  by (simp_all add: config_ok_def)

lemma first_boot_config:
  assumes "first_boot fails env uuid dirs c fs = (Inr c', fs')"
  shows "strong_device_id (device_id c') \<and> (config_ok c' = config_ok c)"
proof -
  obtain c1 fs1 cmds where e: "ensure_device_id fails env uuid c fs = (c1, fs1, cmds)"
    by (metis prod_cases3)
  obtain i where 1: "strong_device_id (device_id c1)" "c1 = c\<lparr>device_id := i\<rparr>"
    using ensure_device_id_strong [OF e] by blast
  show ?thesis
    using assms 1 e discover_config [of fails env dirs c1 fs1]
    by (auto simp: first_boot_def config_ok_update split: if_splits sum.splits prod.splits)
qed

text \<open>The configuration that enters the main loop passed every check.\<close>

lemma started_config:
  assumes "start_main fails env meminfo host uuid dirs clock exists_at args fs = (Run c, fs')"
  shows "strong_device_id (device_id c) \<and> config_ok c \<and>
    wait_for_wayland (enforce_wayland env) clock exists_at (arg_wait args) = Some True"
proof -
  obtain c0 where l: "load fs env None meminfo host = Inr c0" and nc: "\<not> arg_check_config args"
    using assms by (auto simp: start_main_def split: sum.splits py_error.splits if_splits prod.splits)
  then have b: "first_boot fails env uuid dirs c0 fs = (Inr c, fs')"
    and w: "wait_for_wayland (enforce_wayland env) clock exists_at (arg_wait args) = Some True"
    using assms by (auto simp: start_main_def split: prod.splits sum.splits option.splits bool.splits)
  have "config_ok c" using first_boot_config [OF b] load_config_ok [OF l] by simp
  then show ?thesis using first_boot_config [OF b] w by simp
qed

section \<open>Properties\<close>

text \<open>\<open>--check-config\<close> is read-only, as the configure hook needs it: it changes no file, asks no
  network and waits for no compositor, whatever the disk would refuse, and its exit code says
  whether the configuration loads: 0, or 2 for an invalid value. An address that is missing
  is not an error.\<close>

theorem check_config_read_only:
  assumes "arg_check_config args"
  shows "start_main fails env meminfo host uuid dirs clock exists_at args fs =
    (case load fs env None meminfo host of
       Inr _ \<Rightarrow> Exit 0 | Inl (ValueError _) \<Rightarrow> Exit 2 | Inl e \<Rightarrow> Uncaught e, fs)"
  using assms by (simp add: start_main_def split: sum.split py_error.split)

lemma check_config_read_only_witness:
  "start_main (\<lambda>_. True) [(''VISIONTAK_REFRESH_INTERVAL'', ''5'')] None ''pi'' [] [] (\<lambda>_. 0) (\<lambda>_ _. False)
     \<lparr>arg_check_config = True, arg_wait = 60\<rparr> (\<lambda>_. Absent) = (Exit 2, \<lambda>_. Absent) \<and>
   start_main (\<lambda>_. True) [] None ''pi'' [] [] (\<lambda>_. 0) (\<lambda>_ _. False)
     \<lparr>arg_check_config = True, arg_wait = 60\<rparr> (\<lambda>_. Absent) = (Exit 0, \<lambda>_. Absent)"
proof -
  have bad: "load (\<lambda>_. Absent) [(''VISIONTAK_REFRESH_INTERVAL'', ''5'')] None None ''pi'' =
      Inl (ValueError RefreshIntervalRange)"
    and good: "load (\<lambda>_. Absent) [] None None ''pi'' = Inr (default_config\<lparr>device_id := ''pi''\<rparr>)"
    by code_simp+
  show ?thesis by (simp add: check_config_read_only bad good)
qed

text \<open>C27. Waiting for the compositor ends: with a clock that advances by at least the second that the
  loop sleeps, at most \<open>timeout + 1\<close> looks at the socket are made, and the answer is that of the
  last one: yes as soon as the socket is seen, no only once the time is over.\<close>

theorem wait_for_wayland_ends:
  assumes "env_or env ''XDG_RUNTIME_DIR'' [] \<noteq> []"
    and "\<And>n. clock n \<le> clock (Suc n)" and "\<And>n. 1 \<le> n \<Longrightarrow> clock n + 1000 \<le> clock (Suc n)"
  shows "\<exists>n. 1 \<le> n \<and> n \<le> 1 + nat timeout \<and>
    wait_for_wayland env clock exists_at timeout = Some (exists_at (socket_path env) n) \<and>
    (\<forall>j. 1 \<le> j \<and> j < n \<longrightarrow> \<not> exists_at (socket_path env) j) \<and>
    (exists_at (socket_path env) n \<or> clock 0 + 1000 * timeout \<le> clock n)"
proof -
  have "clock 0 + 1000 * timeout \<le> clock 1 + 1000 * int (nat timeout)"
    using assms(2) [of 0] by simp
  from wait_loop_ends [of 1 clock, OF assms(3) this, of "exists_at (socket_path env)"]
  show ?thesis using assms(1) by (simp add: wait_for_wayland_def)
qed

lemma wait_for_wayland_ends_witness:
  "\<exists>n :: nat. n \<le> 3 \<and> wait_for_wayland [(''XDG_RUNTIME_DIR'', ''/run/user/0'')] (\<lambda>n. 1500 * int n) (\<lambda>p n. n = 3) 60 =
     Some (n = 3) \<and> n = 3"
proof -
  have e: "env_or [(''XDG_RUNTIME_DIR'', ''/run/user/0'')] ''XDG_RUNTIME_DIR'' [] \<noteq> []" by code_simp
  obtain n where n: "1 \<le> n" "n \<le> 1 + nat 60"
    "wait_for_wayland [(''XDG_RUNTIME_DIR'', ''/run/user/0'')] (\<lambda>n. 1500 * int n) (\<lambda>p n. n = 3) 60 = Some (n = 3)"
    "\<forall>j. 1 \<le> j \<and> j < n \<longrightarrow> j \<noteq> 3" "n = 3 \<or> 60000 \<le> 1500 * int n"
    using wait_for_wayland_ends [OF e, of "\<lambda>n. 1500 * int n" 60 "\<lambda>p n. n = 3"] by auto
  have "n = 3"
  proof (rule ccontr)
    assume "n \<noteq> 3"
    with n(5) have "3 < n" by simp
    with n(4) [rule_format, of 3] show False by simp
  qed
  then show ?thesis using n(3) by (intro exI [of _ n]) simp
qed

text \<open>C26. A client that comes up has an identity and a usable configuration: whenever the process
  enters the main loop, the device id it runs with is strong (not a host name every unit
  shares); the refresh and rotation intervals, the number of live views, the CEC backend, the
  acceleration mode and the length of the OSD name are in range; and the compositor's socket
  was seen.\<close>

theorem started_client_is_sound:
  assumes "start_main fails env meminfo host uuid dirs clock exists_at args fs = (Run c, fs')"
  shows "strong_device_id (device_id c) \<and>
    (refresh_interval c = 0 \<or> 10 \<le> refresh_interval c) \<and>
    (rotate_interval c = 0 \<or> 5 \<le> rotate_interval c) \<and> 1 \<le> max_live_views c \<and>
    cec_backend c \<in> {''auto'', ''kernel'', ''libcec'', ''none''} \<and>
    hardware_acceleration c \<in> {''auto'', ''always'', ''never''} \<and> utf8_length (osd_name c) \<le> 14 \<and>
    wait_for_wayland (enforce_wayland env) clock exists_at (arg_wait args) = Some True"
  using started_config [OF assms] by (simp add: config_ok_def)

lemma started_client_is_sound_witness:
  "\<exists>c fs'. start_main (\<lambda>_. False) [(''XDG_RUNTIME_DIR'', ''/run'')] None ''localhost'' ''0f3a'' [] (\<lambda>_. 0) (\<lambda>_ _. True)
     \<lparr>arg_check_config = False, arg_wait = 60\<rparr> (\<lambda>_. Absent) = (Run c, fs') \<and>
     device_id c = ''visiontak_client_0f3a'' \<and> strong_device_id (device_id c)"
proof -
  let ?r = "start_main (\<lambda>_. False) [(''XDG_RUNTIME_DIR'', ''/run'')] None ''localhost'' ''0f3a'' [] (\<lambda>_. 0) (\<lambda>_ _. True)
     \<lparr>arg_check_config = False, arg_wait = 60\<rparr> (\<lambda>_. Absent)"
  have "fst ?r = Run (default_config\<lparr>device_id := ''visiontak_client_0f3a''\<rparr>)"
    by code_simp (simp add: wait_loop.simps default_config_def)
  then have r: "?r = (Run (default_config\<lparr>device_id := ''visiontak_client_0f3a''\<rparr>), snd ?r)"
    by (simp add: prod_eq_iff)
  show ?thesis using r started_client_is_sound [OF r] by (intro exI conjI) (assumption, simp_all)
qed

end
