(* ===== verification/App.thy ===== *)
theory App
  imports Controller_Live Entry
begin

text \<open>
  \<open>KioskApplication\<close> of \<open>ui/app.py\<close>: what GTK's startup and activation do with the configuration
  that \<open>main\<close> hands over. The first activation creates the window, installs the key handler and
  attaches the controller; any later one only presents the window. The lemmas join the start
  of the process to the states of the controller.
\<close>

section \<open>Activation\<close>

text \<open>The session that the webviews share keeps its data below the cache directory, which is made
  first; the rest of the window needs no file. The operating system may refuse the directory.\<close>

definition build_network_session :: "(fs_op \<Rightarrow> bool) \<Rightarrow> environ \<Rightarrow> fs \<Rightarrow> py_error option \<times> fs" where
  "build_network_session fails env fs = run_ops fails [Mkdir (cache_dir env @ ''/webkit'')] fs"

definition kiosk_window ::
  "(fs_op \<Rightarrow> bool) \<Rightarrow> environ \<Rightarrow> config \<Rightarrow> lease_dir list \<Rightarrow> fs \<Rightarrow> window result" where
  "kiosk_window fails env c dirs fs =
     bind_result (make_window c dirs)
       (\<lambda>w. case build_network_session fails env fs of (Some e, _) \<Rightarrow> Inl e | (None, _) \<Rightarrow> Inr w)"

text \<open>The kiosk is the window together with the controller that was made for it. \<open>app_attaches\<close>:
  \<open>set_controller\<close> was called before.\<close>

record application =
  app_config :: config
  app_attaches :: bool
  app_kiosk :: "controller option"
  app_key_handlers :: nat
  app_presented :: bool
  app_styled :: bool

definition make_application :: "config \<Rightarrow> application" where
  "make_application c =
     \<lparr>app_config = c, app_attaches = False, app_kiosk = None, app_key_handlers = 0,
      app_presented = False, app_styled = False\<rparr>"

definition set_controller :: "application \<Rightarrow> application" where
  "set_controller app = app\<lparr>app_attaches := True\<rparr>"

text \<open>\<open>_load_css\<close> installs the style sheet of the package for the display, which there may not be.\<close>

definition load_css :: "bool \<Rightarrow> application \<Rightarrow> application outcome" where
  "load_css has_display app =
     (if \<not> has_display then (Some RuntimeError, app) else (None, app\<lparr>app_styled := True\<rparr>))"

definition do_startup :: "bool \<Rightarrow> application \<Rightarrow> application outcome" where
  "do_startup has_display app = load_css has_display app"

definition do_activate ::
  "(fs_op \<Rightarrow> bool) \<Rightarrow> environ \<Rightarrow> bool \<Rightarrow> bool \<Rightarrow> lease_dir list \<Rightarrow> fs \<Rightarrow> application \<Rightarrow> application outcome" where
  "do_activate fails env device_exists libcec_importable dirs fs app =
     (case app_kiosk app of
        Some _ \<Rightarrow> (None, app\<lparr>app_presented := True\<rparr>)
      | None \<Rightarrow>
          (case kiosk_window fails env (app_config app) dirs fs of
             Inl e \<Rightarrow> (Some e, app)
           | Inr w \<Rightarrow>
               (let k = make_controller (app_config app) w fs;
                    app = app\<lparr>app_kiosk := Some k, app_key_handlers := app_key_handlers app + 1\<rparr>
                in if app_attaches app then
                     (case attach env device_exists libcec_importable k of
                        (Some e, k) \<Rightarrow> (Some e, app\<lparr>app_kiosk := Some k\<rparr>)
                      | (None, k) \<Rightarrow> (None, app\<lparr>app_kiosk := Some k, app_presented := True\<rparr>))
                   else (None, app\<lparr>app_presented := True\<rparr>))))"

lemma kiosk_window_made:
  assumes "kiosk_window fails env c dirs fs = Inr w"
  shows "make_window c dirs = Inr w"
  using assms
  by (cases "build_network_session fails env fs"; cases "fst (build_network_session fails env fs)")
    (auto simp: kiosk_window_def bind_result_Inr_iff)

section \<open>The pages of a usable address\<close>

text \<open>The addresses a page of which can always be added to the allowlist: none at all, or a
  normalised one that the standard library can parse.\<close>

definition address_ok :: "string \<Rightarrow> bool" where
  "address_ok u \<longleftrightarrow> u = [] \<or> (server_url_ok u \<and> \<not> isl (urlparse u))"

lemma page_ok_parses:
  "page_ok d \<longleftrightarrow> py_strip (d_url d) = WILDCARD \<or>
     \<not> isl (urlparse (if py_contains ''//'' (d_url d) then d_url d else ''//'' @ d_url d))"
  by (auto simp: page_ok_def allow_def bind_result_def Let_def split: sum.split)

lemma page_of_server_url:
  assumes "server_url_ok u" and "\<not> isl (urlparse u)" and "d_url d = view_url u i"
  shows "page_ok d"
proof -
  obtain scheme auth tail where p: "u = scheme @ ''://'' @ auth @ tail" "last u \<noteq> CHR ''/''"
    using assms(1) by (rule server_url_parts)
  have "view_url u i = (scheme @ '':'') @ ''//'' @ (auth @ tail @ ''/view/'' @ i)"
    using p by (simp add: view_url_def rstrip_by_id)
  then have "sublist ''//'' (view_url u i)" unfolding sublist_def by blast
  then show ?thesis
    using assms(2,3) urlparse_view_url(1) [OF assms(1)] by (simp add: page_ok_parses py_contains_iff)
qed

lemma page_without_address:
  assumes "d_url d = view_url [] i"
  shows "page_ok d"
proof -
  have cp: "cp (CHR ''/'') = 47" "cp (CHR ''v'') = 118" "cp (CHR ''i'') = 105" "cp (CHR ''e'') = 101"
    "cp (CHR ''w'') = 119"
    by code_simp+
  have "clean_url (''/view/'' @ i) = ''/view/'' @ filter (\<lambda>c. cp c \<noteq> 9 \<and> cp c \<noteq> 10 \<and> cp c \<noteq> 13) i"
    and "clean_url (''///view/'' @ i) = ''///view/'' @ filter (\<lambda>c. cp c \<noteq> 9 \<and> cp c \<noteq> 10 \<and> cp c \<noteq> 13) i"
    by (simp_all add: clean_url_def lstrip_by_def cp)
  then have "urlparse (''/view/'' @ i) = Inr ([], [])" "urlparse (''///view/'' @ i) = Inr ([], [])"
    by (simp_all add: urlparse_def split_scheme_def Let_def is_upper_ascii_def is_lower_ascii_def cp
        netloc_of_def starts_with_def check_netloc_def)
  then show ?thesis using assms by (simp add: page_ok_parses view_url_def rstrip_by_def)
qed

lemma page_of_address:
  assumes "address_ok u" and "\<And>d. d \<in> set ds \<Longrightarrow> d_url d = view_url u (d_id d)"
  shows "list_all page_ok ds"
  using assms page_of_server_url [of u] page_without_address
  by (auto simp: address_ok_def list_all_iff)

lemma example_address: "address_ok ''http://vt''"
proof -
  have "server_url_ok ''http://vt''"
    unfolding server_url_ok_def by (intro bexI [of _ "''http''"] exI [of _ "''vt''"]) code_simp+
  moreover have "\<not> isl (urlparse ''http://vt'')" by code_simp
  ultimately show ?thesis by (simp add: address_ok_def)
qed

text \<open>Hence the guard that the steps of the controller put on the server's answers holds for every
  client with such an address, and so does the one on the cache.\<close>

lemma pages_of_answer:
  assumes "address_ok (base_url client)"
  shows "pages_parse client urlopen"
  using page_of_address [OF assms] fetch_parse [of client urlopen] parse_client_config_urls
  by (fastforce simp: pages_parse_def split: sum.split)

lemma pages_of_cache:
  assumes "address_ok base" and "cache_load dir fs base = Inr cc"
  shows "list_all page_ok (dashboards cc)"
proof (rule page_of_address [OF assms(1)])
  show "d_url d = view_url base (d_id d)" if "d \<in> set (dashboards cc)" for d
    using assms(2) that
    by (auto simp: cache_load_def empty_client_config_def bind_result_Inr_iff bind_result_def
        dest!: parse_client_config_urls split: if_splits sum.splits py_error.splits value_error.splits)
qed

section \<open>Properties\<close>

lemma attach_config:
  assumes "attach env device_exists libcec_importable k = (None, k')"
  shows "k_config k' = k_config k"
proof -
  obtain cc k1 where k1: "apply_config cc True (connect_setup k) = (None, k1)"
    and k': "k' = apply_rotation (schedule_refresh FIRST_REFRESH_DELAY
      (start_registration (start_cec device_exists libcec_importable k1)))"
    by (rule attach_cases [OF assms])
  have "behind k1 = behind k" using apply_config_behind [of cc True "connect_setup k"] k1 by simp
  moreover have "k_config k' = k_config k1"
    using apply_rotation_fields(1) [THEN arg_cong, of fst]
    by (simp add: k' behind_def schedule_refresh_def start_refresh_timer_def start_registration_def
        start_registration_timer_def start_cec_def idle_def Let_def)
  ultimately show ?thesis by (simp add: behind_def)
qed

text \<open>C9. From the command line to the screen. A process that enters the main loop with an address
  the client can use, and whose activation does not raise, shows a kiosk in a state that the
  controller's theorems speak about: the state is reachable, the controller runs on the
  configuration that was loaded, every interval, mode and name of which is in range and whose
  device id is a usable one, the keyboard's handler is installed once, and activating again
  changes nothing.\<close>

theorem started_kiosk_is_reachable:
  assumes "start_main fails env meminfo host uuid dirs clock exists_at args fs = (Run c, fs\<^sub>1)"
    and "address_ok (base_url c)"
    and "do_activate fails' (enforce_wayland env) device_exists libcec_importable dirs fs\<^sub>1
      (set_controller (make_application c)) = (None, app)"
  shows "\<exists>k. app_kiosk app = Some k \<and> reachable (enforce_wayland env) c k \<and>
    k_config k = c \<and> strong_device_id (device_id c) \<and>
    (refresh_interval c = 0 \<or> 10 \<le> refresh_interval c) \<and>
    (rotate_interval c = 0 \<or> 5 \<le> rotate_interval c) \<and> 1 \<le> max_live_views c \<and>
    cec_backend c \<in> {''auto'', ''kernel'', ''libcec'', ''none''} \<and>
    hardware_acceleration c \<in> {''auto'', ''always'', ''never''} \<and> utf8_length (osd_name c) \<le> 14 \<and>
    app_key_handlers app = 1 \<and> app_presented app \<and>
    do_activate fails'' env' device_exists' libcec_importable' dirs' fs' app = (None, app)"
proof -
  obtain w k where made: "kiosk_window fails' (enforce_wayland env) c dirs fs\<^sub>1 = Inr w"
    and k: "attach (enforce_wayland env) device_exists libcec_importable (make_controller c w fs\<^sub>1) = (None, k)"
    and app: "app = (set_controller (make_application c))\<lparr>app_kiosk := Some k, app_key_handlers := 1,
      app_presented := True\<rparr>"
    using assms(3)
    by (auto simp: do_activate_def set_controller_def make_application_def Let_def
        split: sum.splits prod.splits option.splits)
  have "reachable (enforce_wayland env) c k"
    by (rule reachable.attached [OF kiosk_window_made [OF made] k]) (rule pages_of_cache [OF assms(2)])
  moreover have "k_config k = c" using attach_config [OF k] by (simp add: make_controller_def)
  ultimately show ?thesis
    using started_config [OF assms(1)] by (simp add: app do_activate_def config_ok_def)
qed

lemma attach_without_cache:
  assumes "k_fs k (cache_path (cache_dir env)) = Absent"
  shows "fst (attach env device_exists libcec_importable k) = None"
  using assms
  by (simp add: attach_def cache_load_def is_file_def apply_config_def empty_client_config_def then_do_def)

lemma started_kiosk_is_reachable_witness:
  "\<exists>app k. do_activate (\<lambda>_. False) (enforce_wayland [(''XDG_RUNTIME_DIR'', ''/run''), (''VISIONTAK_SERVER_URL'', ''http://vt'')])
      True False [] (\<lambda>_. Absent) (set_controller (make_application
        (default_config\<lparr>server_url := ''http://vt'', device_id := ''unit-0f3a-77''\<rparr>))) = (None, app) \<and>
    app_kiosk app = Some k \<and>
    reachable (enforce_wayland [(''XDG_RUNTIME_DIR'', ''/run''), (''VISIONTAK_SERVER_URL'', ''http://vt'')])
      (default_config\<lparr>server_url := ''http://vt'', device_id := ''unit-0f3a-77''\<rparr>) k"
proof -
  let ?env = "[(''XDG_RUNTIME_DIR'', ''/run''), (''VISIONTAK_SERVER_URL'', ''http://vt'')]"
  let ?c = "default_config\<lparr>server_url := ''http://vt'', device_id := ''unit-0f3a-77''\<rparr>"
  let ?r = "start_main (\<lambda>_. False) ?env None ''unit-0f3a-77'' [] [] (\<lambda>_. 0) (\<lambda>_ _. True)
     \<lparr>arg_check_config = False, arg_wait = 60\<rparr> (\<lambda>_. Absent)"
  have l: "load (\<lambda>_. Absent) ?env None None ''unit-0f3a-77'' = Inr ?c" by code_simp
  have i: "strong_device_id ''unit-0f3a-77''" and u: "server_url ?c \<noteq> []" by code_simp+
  have b: "first_boot (\<lambda>_. False) ?env [] [] ?c (\<lambda>_. Absent) = (Inr ?c, \<lambda>_. Absent)"
    using i u by (simp add: first_boot_def ensure_device_id_def)
  have x: "env_or (enforce_wayland ?env) ''XDG_RUNTIME_DIR'' [] \<noteq> []" by code_simp
  have r: "?r = (Run ?c, \<lambda>_. Absent)"
    using b x by (simp add: start_main_def l wait_for_wayland_def wait_loop.simps)
  have "base_url ?c = ''http://vt''" by code_simp
  with example_address have a: "address_ok (base_url ?c)" by simp
  have "\<not> isl (make_window ?c [])" by code_simp
  then obtain w where w: "make_window ?c [] = Inr w" by (cases "make_window ?c []") auto
  let ?k = "make_controller ?c w (\<lambda>_. Absent)"
  have "fst (attach (enforce_wayland ?env) True False ?k) = None"
    by (rule attach_without_cache) (simp add: make_controller_def)
  then obtain k where "attach (enforce_wayland ?env) True False ?k = (None, k)"
    by (cases "attach (enforce_wayland ?env) True False ?k") auto
  then have d: "do_activate (\<lambda>_. False) (enforce_wayland ?env) True False [] (\<lambda>_. Absent)
      (set_controller (make_application ?c)) =
    (None, (set_controller (make_application ?c))\<lparr>app_kiosk := Some k, app_key_handlers := 1,
      app_presented := True\<rparr>)"
    using w by (simp add: do_activate_def set_controller_def make_application_def kiosk_window_def
        build_network_session_def)
  from started_kiosk_is_reachable [OF r a d] d show ?thesis by blast
qed

end
