(* ===== verification/Approval.thy ===== *)
theory Approval
  imports Enrolment App
begin

text \<open>
  From the approval of a device to its dashboards, without anybody at the kiosk: the thread
  that asked, the timer that it starts, the refresh, and the main loop's queue.
\<close>

section \<open>Unattended runs\<close>

text \<open>Steps that nobody at the kiosk, the remote or the page takes part in: the client's timers and
  threads, and the calls they queued for the main loop.\<close>

inductive unattended :: "environ \<Rightarrow> controller \<Rightarrow> controller \<Rightarrow> bool" for env where
  behind_scenes: "background env k k' \<Longrightarrow> unattended env k k'"
| next_call: "k_idle k = c # cs \<Longrightarrow> unattended env k (run_call c (k\<lparr>k_idle := cs\<rparr>))"

lemma unattended_reachable: "(unattended env)\<^sup>*\<^sup>* k k' \<Longrightarrow> reachable env c k \<Longrightarrow> reachable env c k'"
  by (induction rule: rtranclp_induct)
    (auto elim!: unattended.cases intro: reachable.steps ctl_step.intros own_step.in_background)

lemma turns_unattended: "(unattended env)\<^sup>*\<^sup>* k (turns n k)"
proof (induction n arbitrary: k)
  case (Suc n)
  show ?case
  proof (cases "k_idle k")
    case (Cons c cs)
    then show ?thesis
      using Suc next_call [OF Cons] by (auto intro: converse_rtranclp_into_rtranclp)
  qed simp
qed simp

section \<open>The window before the first dashboards\<close>

text \<open>The dashboards of the window and whether it is setting up.\<close>

definition front :: "window \<Rightarrow> dashboard list \<times> bool" where
  "front w = (w_dashboards w, w_needs_setup w)"

lemma front_frames [simp]:
  "front (toast t w) = front w" "front (set_status s w) = front w"
  "front (set_enrolment_status m w) = front w" "front (set_blanked b w) = front w"
  "front (toggle_info w) = front w" "front (setup_status sm e w) = front w"
  "front (w\<lparr>w_menu := m'\<rparr>) = front w" "front (w\<lparr>w_next_source := n\<rparr>) = front w"
  by (simp_all add: front_def toast_def set_status_def update_info_def set_enrolment_status_def
      set_blanked_def toggle_info_def setup_status_def Let_def)

lemma front_action: "w_dashboards w = [] \<Longrightarrow> front (handle_action a w) = front w"
  by (auto simp: handle_action_def jump_to_digit_def step_action_def menu_step_action_def activate_def
      reload_current_def on_menu_activate_def show_index_empty current_dashboard_def Let_def
      split: key_action.split action.split option.split)

lemma rotation_shown [simp]:
  "front (k_window (apply_rotation k)) = front (k_window k)"
  "w_dashboards (k_window (apply_rotation k)) = w_dashboards (k_window k)"
  by (simp_all add: apply_rotation_def cancel_rotation_def add_rotation_def Let_def)

lemma front_call:
  assumes "w_dashboards (k_window k) = []" and "\<And>cc b. c \<noteq> CallApply cc b"
  shows "front (k_window (run_call c k)) = ([], w_needs_setup (k_window k) \<and> c \<noteq> CallLeaveSetup)"
proof (cases c)
  case (CallApply cc b)
  then show ?thesis using assms(2) by blast
next
  case CallLeaveSetup
  then show ?thesis using assms(1) by (simp add: leave_setup_def front_def)
next
  case (CallDispatch a)
  have "front (k_window (run_call c k)) = front (k_window k)"
    using assms(1) CallDispatch
    by (simp add: dispatch_def toggle_rotation_def restart_rotation_clock_def front_action Let_def)
  then show ?thesis using assms(1) CallDispatch by (simp add: front_def)
qed (use assms(1) in \<open>simp_all add: front_frames [unfolded front_def] front_def\<close>)

lemma front_turns:
  assumes "w_dashboards (k_window k) = []" and "\<And>cc b. CallApply cc b \<notin> set (take n (k_idle k))"
  shows "front (k_window (turns n k)) =
    ([], w_needs_setup (k_window k) \<and> CallLeaveSetup \<notin> set (take n (k_idle k)))"
  using assms
proof (induction n arbitrary: k)
  case 0
  then show ?case by (simp add: front_def)
next
  case (Suc n)
  show ?case
  proof (cases "k_idle k")
    case Nil
    then show ?thesis using Suc.prems(1) by (simp add: front_def)
  next
    case (Cons c cs)
    let ?k = "run_call c (k\<lparr>k_idle := cs\<rparr>)"
    have "front (k_window ?k) = ([], w_needs_setup (k_window k) \<and> c \<noteq> CallLeaveSetup)"
      using Suc.prems Cons front_call [of "k\<lparr>k_idle := cs\<rparr>" c] by auto
    then show ?thesis using Suc.IH [of ?k] Suc.prems(2) Cons by (auto simp: front_def)
  qed
qed

section \<open>From the thread that asked to the queue\<close>

text \<open>A thread that is to schedule a refresh leads to the refresh, whatever else is running.\<close>

lemma scheduled_refresh_runs:
  assumes i: "i < length (k_workers k)" "k_workers k ! i = Scheduling d" and may: "may_refresh k"
    and answer: "fetch_client_config (k_client k) urlopen = Inr cc" "list_all page_ok (dashboards cc)"
    and save: "cache_save fails (cache_dir env) cc (k_fs k) = (None, fs)"
  obtains k' where "(unattended env)\<^sup>*\<^sup>* k k'" and "k_window k' = k_window k"
    and "k_idle k' = k_idle k @ [CallApply cc False]"
proof -
  let ?k1 = "worker_step fails env urlopen i k"
  let ?k2 = "worker_step fails env urlopen i ?k1"
  let ?t = "\<lparr>tm_id = k_next_timer k, tm_kind = RefreshTimer, tm_delay = d\<rparr>"
  let ?k3 = "fire_timer ?t ?k2"
  let ?j = "length (k_workers ?k2)"
  let ?k4 = "worker_step fails env urlopen ?j ?k3"
  have k1: "?k1 = k\<lparr>k_workers := (k_workers k)[i := Starting d]\<rparr>"
    using i may by (simp add: worker_step_def)
  have k2: "k_timers ?k2 = k_timers k @ [?t]" "k_client ?k2 = k_client k" "k_fs ?k2 = k_fs k"
    "k_window ?k2 = k_window k" "k_idle ?k2 = k_idle k" "k_config ?k2 = k_config k"
    unfolding k1 using i by (simp_all add: worker_step_def start_refresh_timer_def)
  have k3: "k_workers ?k3 = k_workers ?k2 @ [Fetching (refresh_interval (k_config k)) (k_client k)]"
    "k_fs ?k3 = k_fs k" "k_window ?k3 = k_window k" "k_idle ?k3 = k_idle k"
    by (simp_all add: fire_timer_def k2)
  have "background env k ?k1"
    using i by (intro worker_moves) simp_all
  moreover have "background env ?k1 ?k2"
    by (rule worker_moves) (use i in \<open>simp_all add: k1\<close>)
  moreover have "background env ?k2 ?k3"
    by (rule timer_fires) (simp add: k2)
  moreover have "background env ?k3 ?k4"
    by (rule worker_moves) (use answer in \<open>simp_all add: k3 pages_parse_def\<close>)
  ultimately have "(unattended env)\<^sup>*\<^sup>* k ?k4"
    by (meson behind_scenes converse_rtranclp_into_rtranclp r_into_rtranclp)
  moreover have "k_window ?k4 = k_window k" "k_idle ?k4 = k_idle k @ [CallApply cc False]"
    unfolding worker_step_def [of fails env urlopen ?j ?k3] using answer(1) save
    by (simp_all add: k3 refresh_answer_def idle_def)
  ultimately show thesis using that by blast
qed

text \<open>The move of the thread that is told of the approval.\<close>

lemma approved_move:
  assumes "p = Polling cfg \<or> p = SetupRegistering cfg"
    and "attempt_registration fails env urlopen cfg (k_fs k) = Inr (Some r, c', fs', cmds)"
    and "reg_approved r" and "api_token c' \<noteq> []"
  obtains k' calls where "worker_move fails env urlopen p k = (Some (Scheduling 500), k')"
    and "k_client k' = c'" "k_config k' = c'" "k_fs k' = fs'" "k_window k' = k_window k"
    and "k_stopped k' = k_stopped k" "k_idle k' = k_idle k @ calls"
    and "\<And>cc b. CallApply cc b \<notin> set calls"
    and "p = SetupRegistering cfg \<Longrightarrow> CallLeaveSetup \<in> set calls"
proof (cases "p = Polling cfg")
  case True
  then show thesis
    using that [of _ "[CallEnrolment WaitingForDashboards]"] assms(2-4)
    by (simp add: poll_answer_def idle_def)
next
  case False
  then have "p = SetupRegistering cfg" using assms(1) by blast
  then show thesis
    using that [of _ "[CallSetupStatus ApprovedStartingUp False, CallLeaveSetup]"] assms(2-4)
    by (simp add: setup_answer_def idle_def)
qed

section \<open>Properties\<close>

text \<open>C17. An approval reaches the screen by itself. From every state in which a thread is asking and
  the server approves the device and issues its token, there is a run of the client's own
  timers, threads and queue alone, with nobody at the kiosk, that ends with the dashboards
  which the server then lists on the screen, in their order and starting with the one asked
  for. It exists from the setup screen too, whatever was queued before and whatever else is
  running.\<close>

theorem approval_reaches_screen:
  assumes "reachable env c k" and "\<not> k_stopped k" and "refresh_interval c \<noteq> 0"
    and "p \<in> set (k_workers k)"
    and "p = Polling cfg \<and> \<not> w_needs_setup (k_window k) \<or> p = SetupRegistering cfg"
    and "w_dashboards (k_window k) = []" and "\<forall>cc b. CallApply cc b \<notin> set (k_idle k)"
    and "attempt_registration fails env urlopen cfg (k_fs k) = Inr (Some r, c', fs', cmds)"
    and "reg_approved r" and "api_token c' \<noteq> []"
    and "address_ok (base_url c')" and "fetch_client_config c' urlopen' = Inr cc"
    and "dashboards cc \<noteq> []" and "cache_save fails' (cache_dir env) cc fs' = (None, fs'')"
    and "wanted = (if start_dashboard c \<noteq> [] then Some (start_dashboard c) else default_dashboard_id cc)"
  shows "\<exists>k' d. (unattended env)\<^sup>*\<^sup>* k k' \<and> w_dashboards (k_window k') = dashboards cc \<and>
    current_dashboard (k_window k') = Some d \<and> w_visible (k_window k') = ViewChild (d_id d) \<and>
    (if wanted \<in> (Some \<circ> d_id) ` set (dashboards cc) \<and> wanted \<noteq> Some []
     then Some (d_id d) = wanted else d = hd (dashboards cc))"
proof -
  obtain i where i: "i < length (k_workers k)" "k_workers k ! i = p"
    using assms(4) by (auto simp: in_set_conv_nth)
  have p: "p = Polling cfg \<or> p = SetupRegistering cfg" using assms(5) by blast
  obtain m calls where m: "worker_move fails env urlopen p k = (Some (Scheduling 500), m)"
    "k_client m = c'" "k_config m = c'" "k_fs m = fs'" "k_window m = k_window k"
    "k_stopped m = k_stopped k" "k_idle m = k_idle k @ calls" "\<And>cc b. CallApply cc b \<notin> set calls"
    "p = SetupRegistering cfg \<Longrightarrow> CallLeaveSetup \<in> set calls"
    using approved_move [OF p assms(8-10)] by blast
  let ?k1 = "worker_step fails env urlopen i k"
  have k1: "?k1 = m\<lparr>k_workers := (k_workers k)[i := Scheduling 500]\<rparr>"
    by (simp add: worker_step_def i(2) m(1))
  have step1: "unattended env k ?k1"
    using i p by (intro behind_scenes worker_moves) auto
  have r1: "reachable env c ?k1"
    using unattended_reachable [of env k ?k1 c] step1 assms(1) by (simp add: r_into_rtranclp)
  then have "refresh_interval (k_config ?k1) = refresh_interval c"
    using reachable_inv by (auto simp: ctl_inv_def threads_inv_def same_settingsD)
  then have may: "may_refresh ?k1" using assms(2,3) m(6) by (simp add: may_refresh_def k1)
  have pages: "list_all page_ok (dashboards cc)"
    using pages_of_answer [OF assms(11), of urlopen'] assms(12) by (simp add: pages_parse_def)
  obtain k2 where k2: "(unattended env)\<^sup>*\<^sup>* ?k1 k2" "k_window k2 = k_window ?k1"
    "k_idle k2 = k_idle ?k1 @ [CallApply cc False]"
    by (rule scheduled_refresh_runs [of i ?k1 500 urlopen' cc fails' env fs''])
      (use i may assms(12,14) pages in \<open>simp_all add: k1 m\<close>)
  let ?n = "length (k_idle ?k1)"
  let ?k3 = "turns ?n k2"
  have "front (k_window ?k3) = ([], w_needs_setup (k_window k) \<and> CallLeaveSetup \<notin> set (k_idle ?k1))"
    using front_turns [of k2 ?n] assms(6,7) m(8) by (simp add: k2 k1 m)
  then have waiting: "w_dashboards (k_window ?k3) = []" "\<not> w_needs_setup (k_window ?k3)"
    using assms(5) m(9) by (auto simp: front_def k1 m)
  have run3: "(unattended env)\<^sup>*\<^sup>* k ?k3"
    using step1 k2(1) turns_unattended [of env k2 ?n] by (meson converse_rtranclp_into_rtranclp rtranclp_trans)
  let ?k4 = "run_call (CallApply cc False) (?k3\<lparr>k_idle := []\<rparr>)"
  have "k_idle ?k3 = [CallApply cc False]" by (simp add: turns_idle k2(3))
  then have run4: "(unattended env)\<^sup>*\<^sup>* k ?k4" using run3 next_call rtranclp.rtrancl_into_rtrancl by metis
  have inv: "ctl_inv c ?k3" "ctl_inv c ?k4"
    using unattended_reachable [OF run3 assms(1)] unattended_reachable [OF run4 assms(1)] reachable_inv by blast+
  have "start_dashboard (k_config ?k3) = start_dashboard c"
    using inv(1) by (simp add: ctl_inv_def threads_inv_def same_settingsD)
  then have first: "w_dashboards (k_window ?k4) = dashboards cc \<and>
    (if wanted \<in> (Some \<circ> d_id) ` set (dashboards cc) \<and> wanted \<noteq> Some []
     then map_option d_id (current_dashboard (k_window ?k4)) = wanted
     else current_dashboard (k_window ?k4) = Some (hd (dashboards cc)))"
    using first_dashboards_shown [of "?k3\<lparr>k_idle := []\<rparr>" cc c wanted False] inv(1) waiting pages
      assms(13,15) by (simp add: ctl_inv_def wanted_dashboard_def)
  have "shown (k_window ?k4)" using inv(2) by (simp add: ctl_inv_def win_inv_def)
  then obtain d where "current_dashboard (k_window ?k4) = Some d" "w_visible (k_window ?k4) = ViewChild (d_id d)"
    using first assms(13) by (auto simp: shown_def current_dashboard_def Let_def)
  then show ?thesis using run4 first by (intro exI [of _ ?k4] exI [of _ d]) (auto split: if_splits)
qed

text \<open>The client of the example while its first poll is under way.\<close>

lemma run_polling_screen:
  "w_dashboards (k_window run_polling) = []" "\<not> w_needs_setup (k_window run_polling)"
  "\<forall>cc b. CallApply cc b \<notin> set (k_idle run_polling)"
proof -
  have "server_url run_config \<noteq> []" by code_simp
  then have "w_dashboards v = []" "\<not> w_needs_setup v" if "make_window run_config [] = Inr v" for v
    using that by (auto simp: make_window_def bind_result_Inr_iff Let_def)
  note w = this [OF run_window_made]
  show "w_dashboards (k_window run_polling) = []" "\<not> w_needs_setup (k_window run_polling)"
    "\<forall>cc b. CallApply cc b \<notin> set (k_idle run_polling)"
    using w unfolding run_polling_def run_start_def run_attach
    by (simp_all add: fire_timer_def apply_rotation_def cancel_rotation_def add_rotation_def
        schedule_refresh_def start_refresh_timer_def start_registration_def
        start_registration_timer_def start_cec_def idle_def make_controller_def Let_def)
qed

lemma approval_reaches_screen_witness:
  "\<exists>k'. (unattended [])\<^sup>*\<^sup>* run_polling k' \<and> map d_id (w_dashboards (k_window k')) = [''b'', ''a''] \<and>
     w_visible (k_window k') = ViewChild ''a''"
proof -
  let ?u = "\<lambda>_. Answer ''application/json'' (JsonText (JDict [(''defaultDashboardId'', JStr ''a''),
     (''allowedDashboards'', JList
      [JDict [(''id'', JStr ''a''), (''order'', JInt 2)], JDict [(''id'', JStr ''b''), (''order'', JInt 1)]])]))"
  let ?a = "\<lparr>d_id = ''a'', d_name = ''a'', d_url = ''http://vt/view/a'', d_order = 2, d_group = []\<rparr>"
  let ?b = "\<lparr>d_id = ''b'', d_name = ''b'', d_url = ''http://vt/view/b'', d_order = 1, d_group = []\<rparr>"
  let ?cc = "\<lparr>dashboards = [?b, ?a], default_dashboard_id = Some ''a''\<rparr>"
  let ?c = "run_config\<lparr>api_token := ''t''\<rparr>"
  obtain fs' cmds where a: "attempt_registration (\<lambda>_. False) [] approving run_config (k_fs run_polling) =
    Inr (Some \<lparr>reg_status = ''approved'', reg_token = ''t''\<rparr>, ?c, fs', cmds)"
    by (rule approved_answer)
  have f: "fetch_client_config ?c ?u = Inr ?cc" by code_simp
  have "base_url ?c = ''http://vt''" by code_simp
  with example_address have ok: "address_ok (base_url ?c)" by simp
  have s: "cache_save (\<lambda>_. False) (cache_dir []) ?cc fs' = (None, snd (cache_save (\<lambda>_. False) (cache_dir []) ?cc fs'))"
    by (rule prod_eqI) (simp_all add: cache_save_def run_ops_never_fails)
  have c: "refresh_interval run_config \<noteq> 0" "start_dashboard run_config = []" by code_simp+
  have p: "Polling run_config \<in> set (k_workers run_polling)" by (simp add: run_polling_facts)
  show ?thesis
    using approval_reaches_screen [OF run_polling_reachable run_polling_facts(2) c(1) p _ run_polling_screen(1,3)
        a _ _ ok f _ s refl] run_polling_screen(2) c(2)
    by (auto simp: reg_approved_def)
qed

end
