(* ===== verification/Refresh_Chain.thy ===== *)
theory Refresh_Chain
  imports Enrolment App
begin

text \<open>
  The client that starts with an address and a token, as most displays do after their first
  day: it never enrols, its settings stay what they were, and its refreshes form one chain.
  So no two of its threads ever save the cache at the same time, and the server sees one
  request per interval.
\<close>

section \<open>The setup screen does not come back\<close>

lemma view_for_setup [simp]: "w_needs_setup (view_for d w) = w_needs_setup w"
  by (simp add: view_for_def touch_def same_but_viewsD(5) [OF evict_surplus_same])

lemma show_index_setup [simp]: "w_needs_setup (show_index i w) = w_needs_setup w"
  by (simp add: show_index_def Let_def)

lemma drop_stale_setup [simp]: "w_needs_setup (drop_stale_views live w) = w_needs_setup w"
proof -
  have "w_needs_setup (fold release_view ks w) = w_needs_setup w" for ks
    by (induction ks arbitrary: w) (simp_all add: same_but_viewsD(5) [OF release_view_same])
  then show ?thesis by (simp add: drop_stale_views_def)
qed

lemma small_step_setup [simp]:
  "w_needs_setup (toggle_info w) = w_needs_setup w" "w_needs_setup (set_blanked b w) = w_needs_setup w"
  "w_needs_setup (set_status s w) = w_needs_setup w"
  "w_needs_setup (set_enrolment_status c w) = w_needs_setup w"
  "w_needs_setup (setup_status m e w) = w_needs_setup w"
  "w_needs_setup (fire_source i w) = w_needs_setup w"
  "w_needs_setup (on_load_changed ev j w) = w_needs_setup w"
  by (simp_all add: toggle_info_def set_blanked_def set_status_def set_enrolment_status_def
      setup_status_def fire_source_def on_load_changed_def Let_def split: load_event.split)

lemma action_setup [simp]: "w_needs_setup (handle_action a w) = w_needs_setup w"
proof (cases a)
  case (DigitAction d)
  then show ?thesis by (simp add: handle_action_def jump_to_digit_def Let_def)
next
  case (Act x)
  then show ?thesis
    by (cases x) (simp_all add: handle_action_def menu_step_action_def activate_def
        on_menu_activate_def step_action_def reload_current_def Let_def split: option.split)
qed

lemma load_failed_setup [simp]: "w_needs_setup (snd (on_load_failed uri w)) = w_needs_setup w"
  by (simp add: on_load_failed_def Let_def split: option.split sum.split)

lemma set_dashboards_setup [simp]: "w_needs_setup (snd (set_dashboards ds b w)) = w_needs_setup w"
  by (simp add: set_dashboards_def Let_def split: prod.split option.split)

lemma apply_rotation_setup [simp]:
  "w_needs_setup (k_window (apply_rotation k)) = w_needs_setup (k_window k)"
  by (simp add: apply_rotation_def cancel_rotation_def add_rotation_def Let_def)

lemma apply_config_setup [simp]:
  "w_needs_setup (k_window (snd (apply_config cc b k))) = w_needs_setup (k_window k)"
proof -
  obtain e w where "set_dashboards (dashboards cc) True (k_window k) = (e, w)" by fastforce
  then show ?thesis
    using set_dashboards_setup [of "dashboards cc" True "k_window k"]
    by (auto simp: apply_config_def select_start_dashboard_def Let_def split: option.split)
qed

lemma run_call_setup: "w_needs_setup (k_window (run_call c k)) \<Longrightarrow> w_needs_setup (k_window k)"
  by (cases c) (simp_all add: leave_setup_def dispatch_def toggle_rotation_def
      restart_rotation_clock_def Let_def split: if_splits)

section \<open>The main loop starts no timer and changes no client\<close>

definition timing :: "controller \<Rightarrow> config \<times> nat option" where
  "timing k = (k_client k, k_refresh_timer k)"

lemma on_window_timing [simp]: "timing (on_window f k) = timing k"
  by (simp add: on_window_def timing_def)

lemma rotation_timing [simp]: "timing (apply_rotation k) = timing k" "timing (dispatch a k) = timing k"
  by (simp_all add: dispatch_def toggle_rotation_def restart_rotation_clock_def Let_def)
    (simp_all add: apply_rotation_def cancel_rotation_def add_rotation_def timing_def Let_def)

lemma apply_config_timing [simp]: "timing (snd (apply_config cc b k)) = timing k"
  by (simp add: apply_config_def select_start_dashboard_def Let_def split: prod.split option.split)
    (simp add: timing_def)

lemma run_call_timing [simp]: "timing (run_call c k) = timing k"
  by (cases c) simp_all

section \<open>What a step keeps\<close>

lemma worker_step_window [simp]: "k_window (worker_step fails env urlopen i k) = k_window k"
proof -
  obtain p' k' where m: "worker_move fails env urlopen (k_workers k ! i) k = (p', k')" by fastforce
  then show ?thesis
    using worker_move_stopped(2) [OF m] by (simp add: worker_step_def m split: option.split)
qed

lemma fire_timer_window [simp]:
  "k_window (fire_timer t k) = k_window k" "k_client (fire_timer t k) = k_client k"
  by (simp_all add: fire_timer_def Let_def split: timer_kind.split)

text \<open>The setup screen, once left or never entered, does not return.\<close>

lemma ctl_step_setup:
  assumes "ctl_step env k k'" and "w_needs_setup (k_window k')"
  shows "w_needs_setup (k_window k)"
  using assms(1)
proof (cases rule: ctl_step.cases)
  case own
  then show ?thesis
  proof (cases rule: own_step.cases)
    case in_background
    then show ?thesis using assms(2) by (cases rule: background.cases) simp_all
  next
    case (key name)
    then show ?thesis using assms(2) by (auto simp: on_key_pressed_def split: option.splits sum.splits if_splits)
  qed (use assms(2) in \<open>simp_all add: rotate_now_def on_menu_activate_def\<close>)
next
  case (call_runs c cs)
  then show ?thesis using assms(2) run_call_setup [of c "k\<lparr>k_idle := cs\<rparr>"] by simp
next
  case (cec e)
  then show ?thesis using assms(2) by (simp add: on_cec_event_def split: option.splits)
next
  case stopping
  then show ?thesis using assms(2) by (simp add: stop_def cancel_rotation_def split: if_splits)
qed

lemma reachable_no_setup:
  assumes "reachable env c k" and "server_url c \<noteq> []"
  shows "\<not> w_needs_setup (k_window k)"
  using assms(1)
proof (induction rule: reachable.induct)
  case (attached dirs w device_exists libcec_importable fs k)
  obtain cc k1 where "apply_config cc True (connect_setup (make_controller c w fs)) = (None, k1)"
    and k: "k = apply_rotation (schedule_refresh FIRST_REFRESH_DELAY
      (start_registration (start_cec device_exists libcec_importable k1)))"
    by (rule attach_cases [OF attached(2)])
  then have "w_needs_setup (k_window k) = w_needs_setup w"
    using apply_config_setup [of cc True "connect_setup (make_controller c w fs)"] by (simp add: make_controller_def)
  moreover have "\<not> w_needs_setup w"
    using attached(1) assms(2) by (auto simp: make_window_def bind_result_Inr_iff Let_def)
  ultimately show ?case by simp
next
  case (steps k k')
  then show ?case using ctl_step_setup by blast
qed

text \<open>A client that was given a token keeps one, unless somebody types another address.\<close>

lemma worker_step_token:
  assumes "api_token (k_client k) \<noteq> []"
  shows "api_token (k_client (worker_step fails env urlopen i k)) \<noteq> []"
proof -
  obtain p' k' where m: "worker_move fails env urlopen (k_workers k ! i) k = (p', k')" by fastforce
  have "k_client k' = k_client k \<or> api_token (k_client k') \<noteq> []"
    using m by (cases "k_workers k ! i")
      (auto simp: refresh_answer_def setup_answer_def poll_answer_def idle_def start_refresh_timer_def
        start_registration_timer_def start_registration_def Let_def
        split: sum.splits prod.splits option.splits py_error.splits if_splits)
  then show ?thesis using assms by (auto simp: worker_step_def m split: option.split)
qed

lemma ctl_step_token:
  assumes "ctl_step env k k'" and "\<not> w_needs_setup (k_window k)" and "api_token (k_client k) \<noteq> []"
  shows "api_token (k_client k') \<noteq> []"
  using assms(1)
proof (cases rule: ctl_step.cases)
  case own
  then show ?thesis
  proof (cases rule: own_step.cases)
    case in_background
    then show ?thesis using assms(3) worker_step_token by (cases rule: background.cases) simp_all
  next
    case (key name)
    then show ?thesis using assms(3) by (simp add: on_key_pressed_def on_window_def split: option.split sum.split)
  next
    case address
    then show ?thesis using assms(2) by simp
  qed (use assms(3) in \<open>simp_all add: rotate_now_def on_window_def\<close>)
next
  case (call_runs c cs)
  have "timing (run_call c (k\<lparr>k_idle := cs\<rparr>)) = timing k" by (simp add: timing_def [of "k\<lparr>k_idle := cs\<rparr>"] timing_def [of k])
  then show ?thesis using call_runs assms(3) by (simp add: timing_def)
next
  case (cec e)
  then show ?thesis using assms(3) by (simp add: on_cec_event_def idle_def split: option.split)
next
  case stopping
  then show ?thesis using assms(3) by (simp add: stop_def cancel_rotation_def)
qed

section \<open>One chain\<close>

text \<open>The threads and timers of a client that started with a token: one refresh at most, with the
  settings it started with.\<close>

definition settled :: "config \<Rightarrow> controller \<Rightarrow> bool" where
  "settled c k \<longleftrightarrow>
     k_config k = c \<and> k_client k = c \<and> \<not> w_needs_setup (k_window k) \<and>
     (\<forall>t \<in> set (k_timers k). tm_kind t = RefreshTimer \<and> k_refresh_timer k = Some (tm_id t)) \<and>
     (\<forall>p \<in> set (k_workers k). refreshing p \<and> (\<forall>d client. p = Fetching d client \<longrightarrow> client = c)) \<and>
     length (k_timers k) + length (k_workers k) \<le> 1"

lemma settled_frame:
  assumes "behind k' = behind k" and "timing k' = timing k"
    and "w_needs_setup (k_window k') \<Longrightarrow> w_needs_setup (k_window k)"
  shows "settled c k \<Longrightarrow> settled c k'"
  using assms by (auto simp: settled_def behind_def timing_def)

lemma settled_idle [simp]:
  "settled c (idle call k) = settled c k" "settled c (k\<lparr>k_idle := cs\<rparr>) = settled c k"
  "settled c (k\<lparr>k_fs := fs\<rparr>) = settled c k"
  by (simp_all add: settled_def idle_def)

lemma settled_one:
  assumes "settled c k"
  obtains "k_timers k = []" and "k_workers k = []"
    | t where "k_timers k = [t]" and "k_workers k = []"
    | p where "k_timers k = []" and "k_workers k = [p]"
  using assms by (cases "k_timers k"; cases "k_workers k") (auto simp: settled_def)

lemma settled_worker_step:
  assumes "settled c k" and i: "i < length (k_workers k)"
  shows "settled c (worker_step fails env urlopen i k)"
proof -
  obtain p where p: "k_workers k = [p]" and one: "i = 0" "k_timers k = []"
    using i by (cases rule: settled_one [OF assms(1)]) auto
  have "refreshing p" using assms(1) p by (simp add: settled_def)
  then show ?thesis
  proof (cases p)
    case (Fetching d client)
    obtain n k' where r: "refresh_answer fails env urlopen d client k = (n, k')" by fastforce
    have "settled c k'"
      using r assms(1) by (auto simp: refresh_answer_def split: sum.splits py_error.splits prod.splits option.splits)
    moreover have "k_timers k' = []" using refresh_answer_form(3) [OF r] one(2) by simp
    ultimately show ?thesis
      using p one r Fetching by (simp add: worker_step_def settled_def)
  qed (use assms(1) p one in \<open>auto simp: worker_step_def settled_def start_refresh_timer_def\<close>)
qed

lemma settled_own_step:
  assumes "own_step env k k'" and "settled c k"
  shows "settled c k'"
  using assms(1)
proof (cases rule: own_step.cases)
  case in_background
  then show ?thesis
  proof (cases rule: background.cases)
    case (timer_fires t)
    have t: "k_timers k = [t]" "k_workers k = []" "tm_kind t = RefreshTimer"
      using timer_fires(2) assms(2) by (cases rule: settled_one [OF assms(2)]; simp add: settled_def)+
    then show ?thesis using timer_fires(1) assms(2) by (auto simp: fire_timer_def settled_def)
  next
    case (worker_moves i urlopen fails)
    then show ?thesis using settled_worker_step [OF assms(2)] by simp
  qed
next
  case (address fails input)
  then show ?thesis using assms(2) by (simp add: settled_def)
next
  case (key name)
  have "settled c (snd (on_key_pressed name k))"
    by (rule settled_frame [OF _ _ _ assms(2)])
      (auto simp: on_key_pressed_def split: option.splits sum.splits if_splits)
  then show ?thesis using key by simp
qed (auto simp: rotate_now_def on_menu_activate_def intro!: settled_frame [OF _ _ _ assms(2)])

lemma settled_step:
  assumes "ctl_step env k k'" and "settled c k"
  shows "settled c k'"
  using assms(1)
proof (cases rule: ctl_step.cases)
  case own
  then show ?thesis using settled_own_step assms(2) by blast
next
  case (call_runs call cs)
  have "settled c (run_call call (k\<lparr>k_idle := cs\<rparr>))"
    by (rule settled_frame [OF run_call_behind run_call_timing run_call_setup]) (simp_all add: assms(2))
  then show ?thesis using call_runs by simp
next
  case (cec e)
  then show ?thesis using assms(2) by (simp add: on_cec_event_def split: option.split)
next
  case stopping
  have "length (filter (\<lambda>t. \<not> cancels k t) (k_timers k)) \<le> length (k_timers k)" by simp
  then have "length (filter (\<lambda>t. \<not> cancels k t) (k_timers k)) + length (k_workers k) \<le> 1"
    using assms(2) unfolding settled_def by linarith
  then show ?thesis
    using stopping assms(2) by (auto simp: settled_def stop_def cancel_rotation_def)
qed

lemma attach_settled:
  assumes "make_window c dirs = Inr w"
    and "attach env device_exists libcec_importable (make_controller c w fs) = (None, k)"
    and "server_url c \<noteq> []" and "api_token c \<noteq> []"
  shows "settled c k"
proof -
  let ?k0 = "connect_setup (make_controller c w fs)"
  obtain cc k1 where k1: "apply_config cc True ?k0 = (None, k1)"
    and k: "k = apply_rotation (schedule_refresh FIRST_REFRESH_DELAY
      (start_registration (start_cec device_exists libcec_importable k1)))"
    by (rule attach_cases [OF assms(2)])
  have "\<not> w_needs_setup w"
    using assms(1,3) by (auto simp: make_window_def bind_result_Inr_iff Let_def)
  then have "settled c ?k0" by (simp add: settled_def make_controller_def)
  moreover have "k_timers ?k0 = []" "k_workers ?k0 = []" by (simp_all add: make_controller_def)
  moreover have "behind k1 = behind ?k0" "timing k1 = timing ?k0"
    "w_needs_setup (k_window k1) = w_needs_setup (k_window ?k0)"
    using apply_config_behind [of cc True ?k0] apply_config_timing [of cc True ?k0]
      apply_config_setup [of cc True ?k0] k1 by simp_all
  ultimately have "settled c k1 \<and> k_timers k1 = [] \<and> k_workers k1 = []"
    using settled_frame [of k1 ?k0] behindD [of k1 ?k0] by simp
  then have "settled c (schedule_refresh FIRST_REFRESH_DELAY
      (start_registration (start_cec device_exists libcec_importable k1)))"
    using assms(4)
    by (auto simp: settled_def schedule_refresh_def start_refresh_timer_def start_registration_def
        start_cec_def idle_def Let_def)
  then show ?thesis
    unfolding k by (intro settled_frame [OF apply_rotation_fields(1)]) simp_all
qed

lemma reachable_settled:
  "reachable env c k \<Longrightarrow> server_url c \<noteq> [] \<Longrightarrow> api_token c \<noteq> [] \<Longrightarrow> settled c k"
  by (induction rule: reachable.induct) (auto intro: attach_settled settled_step)

section \<open>An example\<close>

definition holder_config :: config where
  "holder_config = run_config\<lparr>api_token := ''t''\<rparr>"

definition holder_start :: controller where
  "holder_start =
     snd (attach [] True False
       (make_controller holder_config (projr (make_window holder_config [])) (\<lambda>_. Absent)))"

lemma holder_window: "make_window holder_config [] = Inr (projr (make_window holder_config []))"
proof -
  have "\<not> isl (make_window holder_config [])" by code_simp
  then show ?thesis by (cases "make_window holder_config []") simp_all
qed

lemma holder_attach:
  "attach [] True False (make_controller holder_config (projr (make_window holder_config [])) (\<lambda>_. Absent)) =
     (None, holder_start)"
  using attach_without_cache [of "make_controller holder_config (projr (make_window holder_config [])) (\<lambda>_. Absent)"
      "[]" True False]
  by (simp add: holder_start_def make_controller_def prod_eq_iff)

lemma holder_reachable: "reachable [] holder_config holder_start"
proof -
  have "cache_load (cache_dir []) (\<lambda>_. Absent) (base_url holder_config) = Inr empty_client_config"
    by (simp add: cache_load_def is_file_def)
  then show ?thesis
    by (intro reachable.attached [OF holder_window holder_attach]) (simp add: empty_client_config_def)
qed

lemma holder_facts:
  "server_url holder_config \<noteq> []" "api_token holder_config \<noteq> []" "refresh_interval holder_config \<noteq> 0"
  "k_timers holder_start = [\<lparr>tm_id = 0, tm_kind = RefreshTimer, tm_delay = 1000\<rparr>]"
  "k_workers holder_start = []" "\<not> k_stopped holder_start"
proof -
  show c: "server_url holder_config \<noteq> []" "api_token holder_config \<noteq> []" "refresh_interval holder_config \<noteq> 0"
    by code_simp+
  show "k_timers holder_start = [\<lparr>tm_id = 0, tm_kind = RefreshTimer, tm_delay = 1000\<rparr>]"
    "k_workers holder_start = []" "\<not> k_stopped holder_start"
    using c(2,3) unfolding holder_start_def
    by (simp_all add: attach_def make_controller_def cache_load_def is_file_def apply_config_def
        empty_client_config_def then_do_def apply_rotation_def cancel_rotation_def add_rotation_def
        schedule_refresh_def start_refresh_timer_def may_refresh_def start_registration_def
        start_cec_def idle_def Let_def FIRST_REFRESH_DELAY_def)
qed

section \<open>Properties\<close>

text \<open>C4. A display that holds a token has one chain of refreshes. In every state that a client which
  started with an address and a token can reach, whatever the servers answered and people did,
  its settings are those it started with, the setup screen is gone, nothing enrols, and
  exactly one refresh timer is pending or one thread is refreshing, with the client it started
  with (none or one when refreshing is switched off or the client was stopped). So no two
  threads save the cache at once, and stopping leaves no timer pending.\<close>

theorem token_holder_has_one_chain:
  assumes "reachable env c k" and "server_url c \<noteq> []" and "api_token c \<noteq> []"
  shows "k_config k = c \<and> \<not> w_needs_setup (k_window k) \<and>
    k_timers (stop k) = [] \<and>
    (k_timers k = [] \<and> k_workers k = [] \<and> (k_stopped k \<or> refresh_interval c = 0) \<or>
     (\<exists>t. k_timers k = [t] \<and> tm_kind t = RefreshTimer \<and> k_workers k = []) \<or>
     (\<exists>p. k_timers k = [] \<and> k_workers k = [p] \<and>
        (case p of Fetching _ client \<Rightarrow> client = c | Scheduling _ \<Rightarrow> True | Starting _ \<Rightarrow> True | _ \<Rightarrow> False)))"
proof -
  have s: "settled c k" by (rule reachable_settled [OF assms])
  have alive: "chain_alive k" if "\<not> k_stopped k" "refresh_interval c \<noteq> 0"
    using reachable_inv [OF assms(1)] that by (simp add: ctl_inv_def threads_inv_def)
  have p: "case p of Fetching _ client \<Rightarrow> client = c | Scheduling _ \<Rightarrow> True | Starting _ \<Rightarrow> True | _ \<Rightarrow> False"
    if "p \<in> set (k_workers k)" for p
    using s that by (cases p) (auto simp: settled_def)
  have "k_timers (stop k) = []"
    using s by (simp add: stop_def cancel_rotation_def settled_def cancels_def filter_empty_conv)
  then show ?thesis
    by (cases rule: settled_one [OF s]) (use s alive p in \<open>auto simp: settled_def chain_alive_def\<close>)
qed

lemma token_holder_has_one_chain_witness:
  "reachable [] holder_config (fire_timer \<lparr>tm_id = 0, tm_kind = RefreshTimer, tm_delay = 1000\<rparr> holder_start) \<and>
   k_workers (fire_timer \<lparr>tm_id = 0, tm_kind = RefreshTimer, tm_delay = 1000\<rparr> holder_start) =
     [Fetching 300 holder_config]"
proof -
  let ?t = "\<lparr>tm_id = 0, tm_kind = RefreshTimer, tm_delay = 1000\<rparr>"
  have "?t \<in> set (k_timers holder_start)" by (simp add: holder_facts)
  from own [OF in_background [OF timer_fires [OF this]]]
  have r: "reachable [] holder_config (fire_timer ?t holder_start)"
    by (rule reachable.steps [OF holder_reachable])
  have i: "refresh_interval holder_config = 300" by code_simp
  have "k_config holder_start = holder_config" "k_client holder_start = holder_config"
    using reachable_settled [OF holder_reachable holder_facts(1,2)] by (simp_all add: settled_def)
  then show ?thesis
    using token_holder_has_one_chain [OF r holder_facts(1,2)] r by (simp add: fire_timer_def holder_facts i)
qed

end
