(* ===== verification/Fair_Runs.thy ===== *)
theory Fair_Runs
  imports Refresh_Chain
begin

text \<open>
  Runs that never end, as the client is meant to run: infinite sequences of states in which
  nobody stops the client and no timer, thread or queued call is passed over for ever. That is
  all that is assumed of the scheduler. The locale holds the one rule that follows from it;
  it is interpreted on the timers, the worker threads and the queue of the main loop. Such runs
  exist: \<open>schedule\<close> takes turns and is one of them.
\<close>

section \<open>Weak fairness\<close>

text \<open>What is present from some point on is taken at some later point.\<close>

definition weakly_fair :: "('a \<Rightarrow> 's \<Rightarrow> bool) \<Rightarrow> ('a \<Rightarrow> 's \<Rightarrow> 's \<Rightarrow> bool) \<Rightarrow> (nat \<Rightarrow> 's) \<Rightarrow> bool" where
  "weakly_fair present taken run \<longleftrightarrow>
     (\<forall>x n. (\<forall>m\<ge>n. present x (run m)) \<longrightarrow> (\<exists>m\<ge>n. taken x (run m) (run (Suc m))))"

locale leaves_when_taken =
  fixes step :: "'s \<Rightarrow> 's \<Rightarrow> bool"
    and present :: "'a \<Rightarrow> 's \<Rightarrow> bool"
    and taken :: "'a \<Rightarrow> 's \<Rightarrow> 's \<Rightarrow> bool"
  assumes stays: "step s s' \<Longrightarrow> present x s \<Longrightarrow> present x s' \<or> taken x s s'"
begin

lemma taken_at_last:
  assumes run: "\<And>n. step (run n) (run (Suc n))" and fair: "weakly_fair present taken run"
    and here: "present x (run n)"
  shows "\<exists>m\<ge>n. taken x (run m) (run (Suc m))"
proof (rule ccontr)
  assume never: "\<not> ?thesis"
  have "present x (run (n + i))" for i
  proof (induction i)
    case (Suc i)
    then show ?case using stays [OF run] never by force
  qed (simp add: here)
  then have "\<forall>m\<ge>n. present x (run m)" using le_Suc_ex by blast
  then show False using fair never unfolding weakly_fair_def by blast
qed

end

section \<open>Timers, threads, calls\<close>

text \<open>A step of a client that is not stopped.\<close>

definition live_step :: "environ \<Rightarrow> controller \<Rightarrow> controller \<Rightarrow> bool" where
  "live_step env k k' \<longleftrightarrow> ctl_step env k k' \<and> \<not> k_stopped k'"

definition fires :: "timer \<Rightarrow> controller \<Rightarrow> controller \<Rightarrow> bool" where
  "fires t k k' \<longleftrightarrow> t \<in> set (k_timers k) \<and> k' = fire_timer t k"

definition moves :: "environ \<Rightarrow> worker \<Rightarrow> controller \<Rightarrow> controller \<Rightarrow> bool" where
  "moves env p k k' \<longleftrightarrow>
     (\<exists>i urlopen fails. i < length (k_workers k) \<and> k_workers k ! i = p \<and> worker_ok urlopen p \<and>
        k' = worker_step fails env urlopen i k)"

definition runs_next :: "controller \<Rightarrow> controller \<Rightarrow> bool" where
  "runs_next k k' \<longleftrightarrow> (\<exists>c cs. k_idle k = c # cs \<and> k' = run_call c (k\<lparr>k_idle := cs\<rparr>))"

text \<open>A step of the client that is neither of a timer nor of a thread leaves both alone.\<close>

lemma submit_keeps:
  "k_timers (submit_address fails env text k) = k_timers k"
  "set (k_workers k) \<subseteq> set (k_workers (submit_address fails env text k))"
  "\<exists>cs. k_idle (submit_address fails env text k) = k_idle k @ cs"
  by (auto simp: submit_address_def configure_from_setup_def on_window_def Let_def
      split: prod.split option.split)

lemma key_behind: "behind (snd (on_key_pressed name k)) = behind k"
  by (simp add: on_key_pressed_def split: option.split sum.split)

lemma worker_step_keeps:
  assumes "i < length (k_workers k)"
  shows "set (k_timers k) \<subseteq> set (k_timers (worker_step fails env urlopen i k))"
    and "p \<in> set (k_workers k) \<Longrightarrow> p \<noteq> k_workers k ! i \<Longrightarrow>
      p \<in> set (k_workers (worker_step fails env urlopen i k))"
proof -
  obtain p' k' where m: "worker_move fails env urlopen (k_workers k ! i) k = (p', k')" by fastforce
  show "set (k_timers k) \<subseteq> set (k_timers (worker_step fails env urlopen i k))"
    using worker_move_timers [OF m] by (simp add: worker_step_def m split: option.split)
  have s: "k_workers k = take i (k_workers k) @ k_workers k ! i # drop (Suc i) (k_workers k)"
    by (rule id_take_nth_drop [OF assms])
  assume "p \<in> set (k_workers k)" and "p \<noteq> k_workers k ! i"
  then have "p \<in> set (take i (k_workers k)) \<union> set (drop (Suc i) (k_workers k))"
    by (subst (asm) s) simp
  then show "p \<in> set (k_workers (worker_step fails env urlopen i k))"
    using assms by (auto simp: worker_step_def m upd_conv_take_nth_drop split: option.split)
qed

lemma worker_move_idle:
  "\<exists>cs. k_idle (snd (worker_move fails env urlopen p k)) = k_idle k @ cs"
proof (cases p)
  case (Fetching d client)
  obtain n k' where r: "refresh_answer fails env urlopen d client k = (n, k')" by fastforce
  then show ?thesis using refresh_answer_form(2) [OF r] Fetching by simp
next
  case (Polling config)
  then show ?thesis
    by (auto simp: poll_answer_def Let_def start_registration_timer_def split: sum.split prod.split option.split)
next
  case (SetupRegistering config)
  then show ?thesis
    by (auto simp: setup_answer_def Let_def start_registration_def start_registration_timer_def
        split: sum.split prod.split option.split)
qed (simp_all add: start_refresh_timer_def)

text \<open>The steps of the main loop's own sources, of WebKit and of the keyboard.\<close>

lemma own_step_keeps:
  assumes "own_step env k k'"
  obtains (thread) "background env k k'"
    | (behind) "behind k' = behind k"
    | (address) fails input where "k' = submit_address fails env input k"
  using assms
proof (cases rule: own_step.cases)
  case (key name)
  then show thesis using key_behind behind by simp
qed (use thread behind address in \<open>simp_all add: rotate_now_def\<close>)

lemma timer_stays:
  assumes "ctl_step env k k'" and "\<not> k_stopped k'" and "t \<in> set (k_timers k)"
  shows "t \<in> set (k_timers k') \<or> fires t k k'"
  using assms(1)
proof (cases rule: ctl_step.cases)
  case own
  then show ?thesis
  proof (cases rule: own_step_keeps)
    case thread
    then show ?thesis
    proof (cases rule: background.cases)
      case (timer_fires t')
      show ?thesis
      proof (cases "t = t'")
        case True
        then show ?thesis using timer_fires by (simp add: fires_def)
      next
        case False
        then have "t \<in> set (remove1 t' (k_timers k))" using assms(3) by simp
        then show ?thesis
          unfolding timer_fires(1) fire_timer_def Let_def by (simp split: timer_kind.split)
      qed
    next
      case (worker_moves i urlopen fails)
      then show ?thesis using worker_step_keeps(1) assms(3) by blast
    qed
  next
    case behind
    then show ?thesis using behindD(3) [OF behind] assms(3) by simp
  next
    case address
    then show ?thesis using submit_keeps(1) assms(3) by simp
  qed
next
  case (call_runs c cs)
  then show ?thesis using behindD(3) [OF run_call_behind] assms(3) by simp
next
  case (cec e)
  then show ?thesis using assms(3) by (simp add: on_cec_event_def split: option.split)
next
  case stopping
  then show ?thesis using assms(2) by (simp add: stop_def cancel_rotation_def split: if_splits)
qed

lemma worker_stays:
  assumes "ctl_step env k k'" and "p \<in> set (k_workers k)"
  shows "p \<in> set (k_workers k') \<or> moves env p k k'"
  using assms(1)
proof (cases rule: ctl_step.cases)
  case own
  then show ?thesis
  proof (cases rule: own_step_keeps)
    case thread
    then show ?thesis
    proof (cases rule: background.cases)
      case (timer_fires t)
      then show ?thesis using assms(2) by (auto simp: fire_timer_def Let_def split: timer_kind.split)
    next
      case (worker_moves i urlopen fails)
      then show ?thesis using worker_step_keeps(2) [of i k p] assms(2) unfolding moves_def by blast
    qed
  next
    case behind
    then show ?thesis using behindD(2) [OF behind] assms(2) by simp
  next
    case address
    then show ?thesis using submit_keeps(2) assms(2) by blast
  qed
next
  case (call_runs c cs)
  then show ?thesis using behindD(2) [OF run_call_behind] assms(2) by simp
next
  case (cec e)
  then show ?thesis using assms(2) by (simp add: on_cec_event_def split: option.split)
next
  case stopping
  then show ?thesis using assms(2) by (simp add: stop_def cancel_rotation_def)
qed

lemma queue_stays:
  assumes "ctl_step env k k'"
  shows "(\<exists>cs. k_idle k' = k_idle k @ cs) \<or> runs_next k k'"
  using assms
proof (cases rule: ctl_step.cases)
  case own
  then show ?thesis
  proof (cases rule: own_step_keeps)
    case thread
    then show ?thesis
    proof (cases rule: background.cases)
      case (timer_fires t)
      then show ?thesis by (auto simp: fire_timer_def Let_def split: timer_kind.split)
    next
      case (worker_moves i urlopen fails)
      then show ?thesis
        using worker_move_idle [of fails env urlopen "k_workers k ! i" k]
        by (auto simp: worker_step_def split: prod.splits option.split)
    qed
  next
    case behind
    then show ?thesis using behindD(5) [OF behind] by simp
  next
    case address
    then show ?thesis using submit_keeps(3) by blast
  qed
next
  case (call_runs c cs)
  then show ?thesis unfolding runs_next_def by blast
next
  case (cec e)
  then show ?thesis by (simp add: on_cec_event_def split: option.split)
next
  case stopping
  then show ?thesis by (simp add: stop_def cancel_rotation_def)
qed

interpretation timers: leaves_when_taken "live_step env" "\<lambda>t k. t \<in> set (k_timers k)" fires for env
  by unfold_locales (use timer_stays in \<open>auto simp: live_step_def\<close>)

interpretation threads: leaves_when_taken "live_step env" "\<lambda>p k. p \<in> set (k_workers k)" "moves env" for env
  by unfold_locales (use worker_stays in \<open>auto simp: live_step_def\<close>)

interpretation queue: leaves_when_taken "live_step env" "\<lambda>(_ :: unit) k. k_idle k \<noteq> []" "\<lambda>_. runs_next" for env
  by unfold_locales (use queue_stays in \<open>fastforce simp: live_step_def\<close>)

section \<open>Runs that pass nothing over\<close>

definition fair_run :: "environ \<Rightarrow> (nat \<Rightarrow> controller) \<Rightarrow> bool" where
  "fair_run env run \<longleftrightarrow>
     (\<forall>n. live_step env (run n) (run (Suc n))) \<and>
     weakly_fair (\<lambda>t k. t \<in> set (k_timers k)) fires run \<and>
     weakly_fair (\<lambda>p k. p \<in> set (k_workers k)) (moves env) run \<and>
     weakly_fair (\<lambda>(_ :: unit) k. k_idle k \<noteq> []) (\<lambda>_. runs_next) run"

lemma fair_run_reachable:
  assumes "fair_run env run" and "reachable env c (run 0)"
  shows "reachable env c (run n)"
proof (induction n)
  case (Suc n)
  have "ctl_step env (run n) (run (Suc n))" using assms(1) by (simp add: fair_run_def live_step_def)
  with Suc show ?case by (rule reachable.steps)
qed (rule assms(2))

lemma timer_fires_at_last:
  assumes "fair_run env run" and "t \<in> set (k_timers (run n))"
  shows "\<exists>m\<ge>n. run (Suc m) = fire_timer t (run m)"
  using timers.taken_at_last [of env run t n] assms by (auto simp: fair_run_def fires_def)

lemma worker_moves_at_last:
  assumes "fair_run env run" and "p \<in> set (k_workers (run n))"
  obtains m i urlopen fails where "n \<le> m" and "i < length (k_workers (run m))"
    and "k_workers (run m) ! i = p" and "run (Suc m) = worker_step fails env urlopen i (run m)"
  using threads.taken_at_last [of env run p n] assms by (auto simp: fair_run_def moves_def)

text \<open>Until the next call runs the queue only grows at its end.\<close>

lemma queue_waits:
  assumes "fair_run env run" and "\<And>m. n \<le> m \<Longrightarrow> m < n + i \<Longrightarrow> \<not> runs_next (run m) (run (Suc m))"
  shows "\<exists>cs. k_idle (run (n + i)) = k_idle (run n) @ cs"
  using assms(2)
proof (induction i)
  case (Suc i)
  then obtain cs where cs: "k_idle (run (n + i)) = k_idle (run n) @ cs" by force
  have "ctl_step env (run (n + i)) (run (Suc (n + i)))"
    using assms(1) by (simp add: fair_run_def live_step_def)
  moreover have "\<not> runs_next (run (n + i)) (run (Suc (n + i)))" using Suc.prems [of "n + i"] by simp
  ultimately show ?case using queue_stays cs by fastforce
qed simp

lemma next_call_runs:
  assumes fair: "fair_run env run" and here: "k_idle (run n) = c # ys"
  obtains m cs where "n \<le> m" and "k_idle (run m) = c # ys @ cs"
    and "run (Suc m) = run_call c ((run m)\<lparr>k_idle := ys @ cs\<rparr>)"
proof -
  let ?next = "\<lambda>m. n \<le> m \<and> runs_next (run m) (run (Suc m))"
  let ?m = "LEAST m. ?next m"
  have "\<exists>m. ?next m"
    using queue.taken_at_last [of env run n] fair here by (auto simp: fair_run_def)
  then have m: "?next ?m" by (rule LeastI_ex)
  then obtain i where i: "?m = n + i" using le_Suc_ex by blast
  have "\<not> runs_next (run m') (run (Suc m'))" if "n \<le> m'" "m' < n + i" for m'
    using not_less_Least [of m' ?next] that i by simp
  then obtain cs where cs: "k_idle (run ?m) = c # ys @ cs"
    using queue_waits [OF fair, of n i] here unfolding i [symmetric] by auto
  then have "run (Suc ?m) = run_call c ((run ?m)\<lparr>k_idle := ys @ cs\<rparr>)"
    using m by (auto simp: runs_next_def)
  then show thesis using that m cs by blast
qed

text \<open>A call comes to the front of the queue and runs.\<close>

lemma call_runs_at_last:
  assumes fair: "fair_run env run" and "k_idle (run n) = xs @ c # ys"
  shows "\<exists>m\<ge>n. \<exists>cs. k_idle (run m) = c # cs \<and> run (Suc m) = run_call c ((run m)\<lparr>k_idle := cs\<rparr>)"
  using assms(2)
proof (induction xs arbitrary: n ys)
  case Nil
  show ?case using next_call_runs [OF fair Nil [simplified]] by blast
next
  case (Cons x xs)
  have here: "k_idle (run n) = x # xs @ c # ys" using Cons.prems by simp
  obtain m cs where m: "n \<le> m" "run (Suc m) = run_call x ((run m)\<lparr>k_idle := (xs @ c # ys) @ cs\<rparr>)"
    by (rule next_call_runs [OF fair here])
  then have "k_idle (run (Suc m)) = xs @ c # (ys @ cs)" by simp
  from Cons.IH [OF this] m(1) show ?case by (meson Suc_leD order_trans)
qed

section \<open>Refreshing\<close>

lemma fair_run_may_refresh:
  assumes "fair_run env run" and "reachable env c (run 0)" and "refresh_interval c \<noteq> 0"
  shows "may_refresh (run (Suc n))" and "chain_alive (run (Suc n))"
proof -
  have "\<not> k_stopped (run (Suc n))" using assms(1) by (simp add: fair_run_def live_step_def)
  then show "may_refresh (run (Suc n))" "chain_alive (run (Suc n))"
    using reachable_inv [OF fair_run_reachable [OF assms(1,2), of "Suc n"]] assms(3)
    by (simp_all add: ctl_inv_def threads_inv_def may_refresh_iff [of c])
qed

text \<open>A timer that fires, and before it a thread that is to start one, come to a thread that asks the
  server with the client of that moment.\<close>

definition asks_at :: "(nat \<Rightarrow> controller) \<Rightarrow> nat \<Rightarrow> bool" where
  "asks_at run m \<longleftrightarrow> (\<exists>d. Fetching d (k_client (run m)) \<in> set (k_workers (run (Suc m))))"

lemma timer_asks:
  assumes "fair_run env run" and "t \<in> set (k_timers (run n))" and "tm_kind t = RefreshTimer"
  shows "\<exists>m\<ge>n. asks_at run m"
proof -
  obtain m where "n \<le> m" "run (Suc m) = fire_timer t (run m)"
    using timer_fires_at_last [OF assms(1,2)] by blast
  moreover from this(2) have "asks_at run m" using assms(3) by (auto simp: asks_at_def fire_timer_def)
  ultimately show ?thesis by blast
qed

lemma worker_step_result:
  assumes "i < length (k_workers k)" and "worker_move fails env urlopen (k_workers k ! i) k = (p', k')"
  shows "p' = Some q \<Longrightarrow> q \<in> set (k_workers (worker_step fails env urlopen i k))"
    and "k_timers (worker_step fails env urlopen i k) = k_timers k'"
    and "k_client (worker_step fails env urlopen i k) = k_client k'"
  using assms by (auto simp: worker_step_def set_update_memI split: option.split)

lemma starting_asks:
  assumes fair: "fair_run env run" and "Starting d \<in> set (k_workers (run n))"
  shows "\<exists>m\<ge>n. asks_at run m"
proof -
  obtain m i urlopen fails where m: "n \<le> m" "i < length (k_workers (run m))"
    "k_workers (run m) ! i = Starting d" "run (Suc m) = worker_step fails env urlopen i (run m)"
    by (rule worker_moves_at_last [OF assms])
  have "\<exists>t \<in> set (k_timers (run (Suc m))). tm_kind t = RefreshTimer"
    using worker_step_result(2) [OF m(2), of fails env urlopen] m(3,4) by simp
  then obtain m' where "Suc m \<le> m'" "asks_at run m'" using timer_asks [OF fair] by blast
  then show ?thesis using m(1) by (intro exI [of _ m']) simp
qed

lemma scheduling_asks:
  assumes fair: "fair_run env run" and reach: "reachable env c (run 0)" and ne: "refresh_interval c \<noteq> 0"
    and "Scheduling d \<in> set (k_workers (run (Suc n)))"
  shows "\<exists>m\<ge>Suc n. asks_at run m"
proof -
  obtain m i urlopen fails where m: "Suc n \<le> m" "i < length (k_workers (run m))"
    "k_workers (run m) ! i = Scheduling d" "run (Suc m) = worker_step fails env urlopen i (run m)"
    by (rule worker_moves_at_last [OF fair assms(4)])
  obtain l where "m = Suc l" using m(1) by (cases m) auto
  then have "may_refresh (run m)" using fair_run_may_refresh(1) [OF fair reach ne] by simp
  then have "Starting d \<in> set (k_workers (run (Suc m)))"
    using worker_step_result(1) [OF m(2), of fails env urlopen "Some (Starting d)"] m(3,4) by simp
  then obtain m' where "Suc m \<le> m'" "asks_at run m'" using starting_asks [OF fair] by blast
  then show ?thesis using m(1) by (intro exI [of _ m']) simp
qed

text \<open>Wherever the chain of refreshes is, it comes to such a thread.\<close>

lemma asks_at_last:
  assumes fair: "fair_run env run" and reach: "reachable env c (run 0)" and ne: "refresh_interval c \<noteq> 0"
  shows "\<exists>m\<ge>Suc n. \<exists>d client. Fetching d client \<in> set (k_workers (run m))"
proof -
  have later: "\<exists>m\<ge>Suc n. \<exists>d client. Fetching d client \<in> set (k_workers (run m))"
    if "\<exists>m\<ge>Suc n. asks_at run m"
    using that unfolding asks_at_def by (meson le_SucI)
  consider t where "t \<in> set (k_timers (run (Suc n)))" "tm_kind t = RefreshTimer"
    | p where "p \<in> set (k_workers (run (Suc n)))" "refreshing p"
    using fair_run_may_refresh(2) [OF fair reach ne, of n] by (auto simp: chain_alive_def)
  then show ?thesis
  proof cases
    case 1
    then show ?thesis using later timer_asks [OF fair] by blast
  next
    case (2 p)
    show ?thesis
    proof (cases p)
      case (Fetching d client)
      then show ?thesis using 2 by blast
    next
      case (Scheduling d)
      then show ?thesis using 2 later scheduling_asks [OF fair reach ne] by blast
    next
      case (Starting d)
      then show ?thesis using 2 later starting_asks [OF fair] by blast
    qed (use 2 in simp_all)
  qed
qed

section \<open>From the answer to the screen\<close>

lemma apply_config_shows:
  assumes "win_inv (k_window k)" and "\<not> w_needs_setup (k_window k)" and "list_all page_ok (dashboards cc)"
  shows "w_dashboards (k_window (snd (apply_config cc False k))) = dashboards cc"
proof -
  obtain al where f: "set_dashboards (dashboards cc) True (k_window k) =
    (None,
     if dashboards cc = [] then toast ToastNoDashboards
       ((swapped (dashboards cc) al (k_window k))\<lparr>w_visible := Placeholder, w_current := -1\<rparr>)
     else show_index
       (case Option.bind (current_dashboard (k_window k)) (\<lambda>p. index_of_id (d_id p) (dashboards cc) 0) of
          Some i \<Rightarrow> i | None \<Rightarrow> 0)
       (swapped (dashboards cc) al (k_window k)))"
    using set_dashboards_form [OF assms(2,3), of True] unfolding if_True by blast
  note s = swapped_facts [OF assms(1), of "dashboards cc" al]
  show ?thesis
  proof (cases "dashboards cc = []")
    case True
    then show ?thesis
      using s(2) f by (auto simp: apply_config_def select_start_dashboard_def toast_def Let_def split: option.split)
  next
    case False
    let ?w = "snd (set_dashboards (dashboards cc) True (k_window k))"
    have w: "base_inv ?w" "w_dashboards ?w = dashboards cc" "\<not> w_needs_setup ?w"
      using show_index_facts [OF s(1)] s(2,3) False assms(2) by (auto simp: f win_inv_def)
    then have "w_dashboards (show_index i ?w) = dashboards cc" for i
      using show_index_facts(2) [of ?w i] False by simp
    with w(2) show ?thesis
      using f by (auto simp: apply_config_def select_start_dashboard_def Let_def split: option.split)
  qed
qed

text \<open>A thread that asks gets its answer, and what the answer lists is applied.\<close>

definition answered :: "environ \<Rightarrow> (nat \<Rightarrow> controller) \<Rightarrow> config \<Rightarrow> nat \<Rightarrow> bool" where
  "answered env run client m \<longleftrightarrow> (\<exists>i delay fails urlopen.
     i < length (k_workers (run m)) \<and> k_workers (run m) ! i = Fetching delay client \<and>
     run (Suc m) = worker_step fails env urlopen i (run m) \<and>
     (\<forall>cc. fetch_client_config client urlopen = Inr cc \<longrightarrow>
       fst (cache_save fails (cache_dir env) cc (k_fs (run m))) = None \<longrightarrow>
       (\<exists>m'>m. \<exists>cs. k_idle (run m') = CallApply cc False # cs \<and>
         run (Suc m') = run_call (CallApply cc False) ((run m')\<lparr>k_idle := cs\<rparr>) \<and>
         (\<not> w_needs_setup (k_window (run m')) \<longrightarrow> w_dashboards (k_window (run (Suc m'))) = dashboards cc))))"

lemma answer_arrives:
  assumes fair: "fair_run env run" and reach: "reachable env c (run 0)"
    and asking: "Fetching d client \<in> set (k_workers (run n))"
  shows "\<exists>m\<ge>n. answered env run client m"
proof -
  obtain m i urlopen fails where m: "n \<le> m" "i < length (k_workers (run m))"
    "k_workers (run m) ! i = Fetching d client" "run (Suc m) = worker_step fails env urlopen i (run m)"
    by (rule worker_moves_at_last [OF fair asking])
  have "\<exists>m'>m. \<exists>cs. k_idle (run m') = CallApply cc False # cs \<and>
      run (Suc m') = run_call (CallApply cc False) ((run m')\<lparr>k_idle := cs\<rparr>) \<and>
      (\<not> w_needs_setup (k_window (run m')) \<longrightarrow> w_dashboards (k_window (run (Suc m'))) = dashboards cc)"
    if cc: "fetch_client_config client urlopen = Inr cc"
      and saved: "fst (cache_save fails (cache_dir env) cc (k_fs (run m))) = None" for cc
  proof -
    obtain k' where "refresh_answer fails env urlopen d client (run m) = (d, k')"
      and "k_idle k' = k_idle (run m) @ [CallApply cc False]"
      using cc saved by (cases "cache_save fails (cache_dir env) cc (k_fs (run m))")
        (auto simp: refresh_answer_def)
    then have "k_idle (run (Suc m)) = k_idle (run m) @ CallApply cc False # []"
      using m(3,4) by (simp add: worker_step_def)
    from call_runs_at_last [OF fair this] obtain m' cs where m': "Suc m \<le> m'"
      "k_idle (run m') = CallApply cc False # cs"
      "run (Suc m') = run_call (CallApply cc False) ((run m')\<lparr>k_idle := cs\<rparr>)" by blast
    have inv: "ctl_inv c (run m')" by (rule reachable_inv [OF fair_run_reachable [OF fair reach]])
    then have "win_inv (k_window (run m'))" "list_all page_ok (dashboards cc)"
      using m'(2) by (auto simp: ctl_inv_def threads_inv_def)
    then show ?thesis
      using m' apply_config_shows [of "(run m')\<lparr>k_idle := cs\<rparr>" cc] by (intro exI [of _ m']) auto
  qed
  then have "answered env run client m" using m(2-4) unfolding answered_def by blast
  with m(1) show ?thesis by blast
qed

section \<open>A fair schedule\<close>

text \<open>Such runs exist: the main loop runs first, then the threads one after the
  other, then the timer that was started first. The server's answers are given by \<open>u\<close> and no
  write to the disk fails.\<close>

definition take_turn :: "environ \<Rightarrow> (http_request \<Rightarrow> http_outcome) \<Rightarrow> controller \<Rightarrow> controller" where
  "take_turn env u k =
     (case k_idle k of
        c # cs \<Rightarrow> run_call c (k\<lparr>k_idle := cs\<rparr>)
      | [] \<Rightarrow>
          (case k_workers k of
             p # ps \<Rightarrow> worker_step (\<lambda>_. False) env u 0 k
           | [] \<Rightarrow> (case k_timers k of t # ts \<Rightarrow> fire_timer t k | [] \<Rightarrow> k)))"

fun schedule :: "environ \<Rightarrow> (http_request \<Rightarrow> http_outcome) \<Rightarrow> controller \<Rightarrow> nat \<Rightarrow> controller" where
  "schedule env u k 0 = k"
| "schedule env u k (Suc n) = take_turn env u (schedule env u k n)"

lemma take_turn_queue:
  assumes "k_idle k = c # cs"
  shows "runs_next k (take_turn env u k)" and "behind (take_turn env u k) = behind (k\<lparr>k_idle := cs\<rparr>)"
  using assms by (simp_all add: runs_next_def take_turn_def run_call_behind)

lemma take_turn_thread:
  "k_idle k = [] \<Longrightarrow> k_workers k = p # ps \<Longrightarrow> take_turn env u k = worker_step (\<lambda>_. False) env u 0 k"
  by (simp add: take_turn_def)

lemma take_turn_timer:
  "k_idle k = [] \<Longrightarrow> k_workers k = [] \<Longrightarrow> k_timers k = t # ts \<Longrightarrow> take_turn env u k = fire_timer t k"
  by (simp add: take_turn_def)

lemma fire_timer_stopped [simp]: "k_stopped (fire_timer t k) = k_stopped k"
  by (simp add: fire_timer_def Let_def split: timer_kind.split)

lemma worker_step_stopped [simp]: "k_stopped (worker_step fails env urlopen i k) = k_stopped k"
proof -
  obtain p' k' where m: "worker_move fails env urlopen (k_workers k ! i) k = (p', k')" by fastforce
  then show ?thesis
    using worker_move_stopped(1) [OF m] by (simp add: worker_step_def m split: option.split)
qed

lemma take_turn_live:
  assumes "\<And>client. pages_parse client u" and "chain_alive k" and "\<not> k_stopped k"
  shows "live_step env k (take_turn env u k)"
proof (cases "k_idle k")
  case (Cons c cs)
  have "ctl_step env k (take_turn env u k)"
    using ctl_step.call_runs [OF Cons] by (simp add: take_turn_def Cons)
  then show ?thesis
    using behindD(4) [OF take_turn_queue(2) [OF Cons, of env u]] assms(3) by (simp add: live_step_def)
next
  case idle: Nil
  have ok: "worker_ok u p" for p using assms(1) by (cases p) simp_all
  have "background env k (take_turn env u k) \<and> \<not> k_stopped (take_turn env u k)"
  proof (cases "k_workers k")
    case Nil
    obtain t ts where "k_timers k = t # ts"
      using assms(2) Nil by (cases "k_timers k") (auto simp: chain_alive_def)
    then show ?thesis
      using background.timer_fires [of t k env] assms(3) by (simp add: take_turn_timer [OF idle Nil])
  next
    case (Cons p ps)
    then show ?thesis
      using background.worker_moves [of 0 k u env] ok assms(3) by (simp add: take_turn_thread [OF idle Cons])
  qed
  then show ?thesis using in_background own unfolding live_step_def by blast
qed

text \<open>How many turns a thread takes at most, and that it starts timers behind those that are there.\<close>

fun worker_turns :: "worker \<Rightarrow> nat" where
  "worker_turns (Fetching d client) = 3"
| "worker_turns (Scheduling d) = 2"
| "worker_turns (Starting d) = 1"
| "worker_turns (Polling config) = 3"
| "worker_turns (SetupRegistering config) = 3"
| "worker_turns SetupStarting = 4"

lemma worker_move_turns:
  assumes "worker_move fails env urlopen p k = (p', k')"
  shows "(case p' of Some q \<Rightarrow> worker_turns q | None \<Rightarrow> 0) < worker_turns p"
    and "\<exists>ts. k_timers k' = k_timers k @ ts"
proof -
  show "(case p' of Some q \<Rightarrow> worker_turns q | None \<Rightarrow> 0) < worker_turns p"
    using assms by (cases p) (auto simp: setup_answer_def poll_answer_def Let_def
        split: sum.splits prod.splits option.splits if_splits)
  show "\<exists>ts. k_timers k' = k_timers k @ ts"
  proof (cases p)
    case (Fetching d client)
    then show ?thesis using assms refresh_answer_form(3) by (auto split: prod.splits)
  qed (use assms in \<open>auto simp: setup_answer_def poll_answer_def start_registration_def Let_def
        split: sum.splits prod.splits option.splits if_splits\<close>)
qed

lemma worker_step_turns:
  assumes "i < length (k_workers k)"
  shows "sum_list (map worker_turns (k_workers (worker_step fails env urlopen i k))) <
      sum_list (map worker_turns (k_workers k))"
    and "\<exists>ts. k_timers (worker_step fails env urlopen i k) = k_timers k @ ts"
proof -
  obtain p' k' where m: "worker_move fails env urlopen (k_workers k ! i) k = (p', k')" by fastforce
  show "sum_list (map worker_turns (k_workers (worker_step fails env urlopen i k))) <
      sum_list (map worker_turns (k_workers k))"
    using worker_move_turns(1) [OF m] sum_list_update_or_drop [OF assms, of worker_turns p']
    by (simp add: worker_step_def m split: option.splits)
  show "\<exists>ts. k_timers (worker_step fails env urlopen i k) = k_timers k @ ts"
    using worker_move_turns(2) [OF m] by (simp add: worker_step_def m split: option.split)
qed

text \<open>Again and again the queue is empty and no thread is left, and the timers of before are first.\<close>

lemma schedule_drains:
  "\<exists>m\<ge>n. k_idle (schedule env u k m) = [] \<and>
     k_workers (schedule env u k m) = k_workers (schedule env u k n) \<and>
     k_timers (schedule env u k m) = k_timers (schedule env u k n)"
proof (induction "length (k_idle (schedule env u k n))" arbitrary: n)
  case 0
  then show ?case by (intro exI [of _ n]) simp
next
  case (Suc l)
  then obtain c cs where i: "k_idle (schedule env u k n) = c # cs" by (cases "k_idle (schedule env u k n)") auto
  note b = take_turn_queue(2) [OF i, of env u]
  have n: "k_idle (schedule env u k (Suc n)) = cs"
    "k_workers (schedule env u k (Suc n)) = k_workers (schedule env u k n)"
    "k_timers (schedule env u k (Suc n)) = k_timers (schedule env u k n)"
    using b by (simp_all add: behind_def)
  with Suc(1) [of "Suc n"] Suc(2) i show ?case by (metis Suc_inject Suc_leD length_Cons)
qed

lemma schedule_quiet:
  "\<exists>m\<ge>n. k_idle (schedule env u k m) = [] \<and> k_workers (schedule env u k m) = [] \<and>
     (\<exists>ts. k_timers (schedule env u k m) = k_timers (schedule env u k n) @ ts)"
proof (induction "sum_list (map worker_turns (k_workers (schedule env u k n)))" arbitrary: n rule: less_induct)
  case less
  obtain m where m: "n \<le> m" "k_idle (schedule env u k m) = []"
    "k_workers (schedule env u k m) = k_workers (schedule env u k n)"
    "k_timers (schedule env u k m) = k_timers (schedule env u k n)"
    using schedule_drains by blast
  show ?case
  proof (cases "k_workers (schedule env u k m)")
    case Nil
    then show ?thesis using m by (intro exI [of _ m]) simp
  next
    case (Cons p ps)
    then have i: "0 < length (k_workers (schedule env u k m))" by simp
    have step: "schedule env u k (Suc m) = worker_step (\<lambda>_. False) env u 0 (schedule env u k m)"
      using take_turn_thread [OF m(2) Cons] by simp
    obtain m' ts where "Suc m \<le> m'" "k_idle (schedule env u k m') = []" "k_workers (schedule env u k m') = []"
      "k_timers (schedule env u k m') = k_timers (schedule env u k (Suc m)) @ ts"
      using less [of "Suc m"] worker_step_turns(1) [OF i] unfolding step m(3) by blast
    moreover obtain us where "k_timers (schedule env u k (Suc m)) = k_timers (schedule env u k n) @ us"
      using worker_step_turns(2) [OF i] unfolding step m(4) by blast
    ultimately show ?thesis using m(1) by (intro exI [of _ m'] exI [of _ "us @ ts"] conjI) simp_all
  qed
qed

text \<open>A timer comes to the front.\<close>

lemma schedule_fires:
  assumes "k_timers (schedule env u k n) = ts @ t # ts'"
  shows "\<exists>m\<ge>n. fires t (schedule env u k m) (schedule env u k (Suc m))"
  using assms
proof (induction ts arbitrary: n ts')
  case Nil
  obtain m us where m: "n \<le> m" "k_idle (schedule env u k m) = []" "k_workers (schedule env u k m) = []"
    "k_timers (schedule env u k m) = t # ts' @ us"
    using schedule_quiet [of n env u k] Nil by auto
  then show ?case by (intro exI [of _ m]) (simp add: fires_def take_turn_timer [OF m(2-4)])
next
  case (Cons x ts)
  obtain m us where m: "n \<le> m" "k_idle (schedule env u k m) = []" "k_workers (schedule env u k m) = []"
    "k_timers (schedule env u k m) = x # (ts @ t # ts' @ us)"
    using schedule_quiet [of n env u k] Cons.prems by auto
  have "schedule env u k (Suc m) = fire_timer x (schedule env u k m)"
    using take_turn_timer [OF m(2-4)] by simp
  then have "k_timers (schedule env u k (Suc m)) = ts @ t # (ts' @ us)"
    using m(4) by (simp add: fire_timer_def Let_def split: timer_kind.split)
  from Cons.IH [OF this] m(1) show ?case by (meson Suc_leD order_trans)
qed

lemma schedule_fair:
  assumes "reachable env c k" and "\<not> k_stopped k" and "refresh_interval c \<noteq> 0"
    and "\<And>client. pages_parse client u"
  shows "fair_run env (schedule env u k)"
proof -
  have live: "live_step env k' (take_turn env u k')" if "reachable env c k'" "\<not> k_stopped k'" for k'
    using reachable_inv [OF that(1)] that(2) assms(3,4)
    by (intro take_turn_live) (simp_all add: ctl_inv_def threads_inv_def)
  have run: "reachable env c (schedule env u k n) \<and> \<not> k_stopped (schedule env u k n)" for n
  proof (induction n)
    case (Suc n)
    then show ?case using live reachable.steps unfolding live_step_def by fastforce
  qed (simp add: assms(1,2))
  have "\<exists>m\<ge>n. fires t (schedule env u k m) (schedule env u k (Suc m))"
    if "\<forall>m\<ge>n. t \<in> set (k_timers (schedule env u k m))" for t n
    using that schedule_fires [of env u k n] split_list [of t "k_timers (schedule env u k n)"] by blast
  moreover have "\<not> (\<forall>m\<ge>n. p \<in> set (k_workers (schedule env u k m)))" for p n
    using schedule_quiet [of n env u k] by fastforce
  moreover have "\<exists>m\<ge>n. runs_next (schedule env u k m) (schedule env u k (Suc m))"
    if "\<forall>m\<ge>n. k_idle (schedule env u k m) \<noteq> []" for n
    using that schedule_drains by blast
  moreover have "live_step env (schedule env u k n) (schedule env u k (Suc n))" for n
    using live run by simp
  ultimately show ?thesis unfolding fair_run_def weakly_fair_def by blast
qed

text \<open>A server that approves every device and lists no dashboards.\<close>

lemma approving_pages: "pages_parse client approving"
proof -
  have "py_contains ''json'' (py_lower ''application/json'')" by code_simp
  moreover have "parse_client_config (JDict [(''status'', JStr ''approved''), (''token'', JStr ''t'')]) url =
      Inl (ApiError NoCollection)" for url
    by (simp add: parse_client_config_def unwrap_collection_def COLLECTION_KEYS_def)
  ultimately show ?thesis
    by (simp add: pages_parse_def fetch_client_config_def api_request_def approving_def)
qed

section \<open>Properties\<close>

text \<open>C3. The display keeps itself up to date for ever, unless \<open>refresh-interval\<close> is 0, which switches
  refreshing off. In every run of a started client that nobody stops and that passes over no
  timer, thread or queued call for ever, the server is asked again and again, whatever it
  answered before, whatever the disk refused and people did: after every moment there is a later one at which a refresh is answered. And every answer arrives:
  when it lists dashboards and the cache could be written, they are applied at some later
  moment, and unless the client is being set up they are then what the screen offers.\<close>

theorem refreshes_for_ever:
  assumes "fair_run env run" and "reachable env c (run 0)" and "refresh_interval c \<noteq> 0"
  shows "\<exists>m\<ge>n. \<exists>i delay client fails urlopen.
    i < length (k_workers (run m)) \<and> k_workers (run m) ! i = Fetching delay client \<and>
    run (Suc m) = worker_step fails env urlopen i (run m) \<and>
    (\<forall>cc. fetch_client_config client urlopen = Inr cc \<longrightarrow>
      fst (cache_save fails (cache_dir env) cc (k_fs (run m))) = None \<longrightarrow>
      (\<exists>m'>m. \<exists>cs. k_idle (run m') = CallApply cc False # cs \<and>
        run (Suc m') = run_call (CallApply cc False) ((run m')\<lparr>k_idle := cs\<rparr>) \<and>
        (\<not> w_needs_setup (k_window (run m')) \<longrightarrow> w_dashboards (k_window (run (Suc m'))) = dashboards cc)))"
proof -
  obtain m0 d client where "Suc n \<le> m0" "Fetching d client \<in> set (k_workers (run m0))"
    using asks_at_last [OF assms, of n] by blast
  then obtain m where "n \<le> m" "answered env run client m"
    using answer_arrives [OF assms(1,2)] by (meson Suc_leD order_trans)
  then show ?thesis unfolding answered_def by blast
qed

lemma refreshes_for_ever_witness:
  "\<exists>run. fair_run [] run \<and> reachable [] holder_config (run 0) \<and>
     (\<exists>m\<ge>1000. \<exists>i d client. i < length (k_workers (run m)) \<and> k_workers (run m) ! i = Fetching d client)"
proof -
  have fair: "fair_run [] (schedule [] approving holder_start)"
    by (rule schedule_fair [OF holder_reachable holder_facts(6,3) approving_pages])
  have reach: "reachable [] holder_config (schedule [] approving holder_start 0)" by (simp add: holder_reachable)
  from refreshes_for_ever [OF fair reach holder_facts(3), of 1000] fair reach show ?thesis by blast
qed

lemma token_for_ever:
  assumes fair: "fair_run env run" and reach: "reachable env c (run 0)" and "server_url c \<noteq> []"
    and "api_token (k_client (run n)) \<noteq> []"
  shows "api_token (k_client (run (n + i))) \<noteq> []"
proof (induction i)
  case (Suc i)
  have "ctl_step env (run (n + i)) (run (Suc (n + i)))" using fair by (simp add: fair_run_def live_step_def)
  moreover have "\<not> w_needs_setup (k_window (run (n + i)))"
    by (rule reachable_no_setup [OF fair_run_reachable [OF fair reach] assms(3)])
  ultimately show ?case using ctl_step_token Suc by simp
qed (simp add: assms(4))

text \<open>C5. An approved device comes up by itself, and certainly. In every fair run of a client that
  started with an address and a \<open>refresh-interval\<close> other than 0: once a registration is answered with an approval and a token, the
  server is asked for dashboards with a client that holds a token, and what this answer lists
  is applied, when it could be cached, and is then what the screen offers; no other thread, no
  press of a key and no failure of the disk can prevent the question, and nobody has to be
  there.\<close>

theorem approved_device_comes_up:
  assumes "fair_run env run" and "reachable env c (run 0)" and "refresh_interval c \<noteq> 0" and "server_url c \<noteq> []"
    and "i < length (k_workers (run n))" and "k_workers (run n) ! i = Polling config"
    and "run (Suc n) = worker_step fails env urlopen i (run n)"
    and "attempt_registration fails env urlopen config (k_fs (run n)) = Inr (Some r, c', fs', cmds)"
    and "reg_approved r" and "api_token c' \<noteq> []"
  shows "\<exists>m>n. \<exists>j delay client fails urlopen.
    j < length (k_workers (run m)) \<and> k_workers (run m) ! j = Fetching delay client \<and> api_token client \<noteq> [] \<and>
    run (Suc m) = worker_step fails env urlopen j (run m) \<and>
    (\<forall>cc. fetch_client_config client urlopen = Inr cc \<longrightarrow>
      fst (cache_save fails (cache_dir env) cc (k_fs (run m))) = None \<longrightarrow>
      (\<exists>m'>m. w_dashboards (k_window (run m')) = dashboards cc))"
proof -
  obtain k' where mv: "worker_move fails env urlopen (k_workers (run n) ! i) (run n) = (Some (Scheduling 500), k')"
    and client: "k_client k' = c'"
    using assms(6,8-10) by (simp add: poll_answer_def idle_def)
  have "Scheduling 500 \<in> set (k_workers (run (Suc n)))"
    and token: "api_token (k_client (run (Suc n))) \<noteq> []"
    using worker_step_result(1,3) [OF assms(5) mv] client assms(7,10) by simp_all
  then obtain m0 where m0: "Suc n \<le> m0" "asks_at run m0"
    using scheduling_asks [OF assms(1-3)] by blast
  then obtain d where "Fetching d (k_client (run m0)) \<in> set (k_workers (run (Suc m0)))"
    by (auto simp: asks_at_def)
  from answer_arrives [OF assms(1,2) this] obtain m where m: "Suc m0 \<le> m"
    "answered env run (k_client (run m0)) m" by blast
  have "api_token (k_client (run m0)) \<noteq> []"
    using token_for_ever [OF assms(1,2,4) token, of "m0 - Suc n"] m0(1) by simp
  moreover have "\<not> w_needs_setup (k_window (run m'))" for m'
    by (rule reachable_no_setup [OF fair_run_reachable [OF assms(1,2)] assms(4)])
  moreover have "n < m" using m0(1) m(1) by simp
  ultimately show ?thesis
    using m(2) unfolding answered_def by (meson less_SucI)
qed

lemma approved_device_comes_up_witness:
  "\<exists>run m j d client. fair_run [] run \<and> k_workers (run 0) = [Polling run_config] \<and>
     j < length (k_workers (run m)) \<and> k_workers (run m) ! j = Fetching d client \<and> api_token client \<noteq> []"
proof -
  let ?run = "schedule [] approving run_polling"
  have c: "refresh_interval run_config \<noteq> 0" "server_url run_config \<noteq> []" by code_simp+
  have fair: "fair_run [] ?run"
    by (rule schedule_fair [OF run_polling_reachable run_polling_facts(2) c(1) approving_pages])
  have reach: "reachable [] run_config (?run 0)" by (simp add: run_polling_reachable)
  obtain n where n: "k_idle (?run n) = []" "k_workers (?run n) = [Polling run_config]"
    using schedule_drains [of 0 "[]" approving run_polling] run_polling_facts(1) by auto
  have step: "?run (Suc n) = worker_step (\<lambda>_. False) [] approving 0 (?run n)"
    using take_turn_thread [OF n] by simp
  obtain fs' cmds where a: "attempt_registration (\<lambda>_. False) [] approving run_config (k_fs (?run n)) =
    Inr (Some \<lparr>reg_status = ''approved'', reg_token = ''t''\<rparr>, run_config\<lparr>api_token := ''t''\<rparr>, fs', cmds)"
    by (rule approved_answer)
  have i: "0 < length (k_workers (?run n))" "k_workers (?run n) ! 0 = Polling run_config"
    using n(2) by simp_all
  have token: "reg_approved \<lparr>reg_status = ''approved'', reg_token = ''t''\<rparr>"
    "api_token (run_config\<lparr>api_token := ''t''\<rparr>) \<noteq> []"
    by (simp_all add: reg_approved_def)
  from approved_device_comes_up [OF fair reach c i step a token] obtain m j d client where
    "j < length (k_workers (?run m))" "k_workers (?run m) ! j = Fetching d client" "api_token client \<noteq> []"
    by blast
  then show ?thesis
    using fair run_polling_facts(1) by (intro exI [of _ ?run] exI [of _ m] exI [of _ j]) auto
qed

end
