(* ===== verification/Faults.thy ===== *)
theory Faults
  imports Fair_Runs Approval
begin

text \<open>
  Two faults of the client, each stated for every way to run into it: the approval of a device
  leaves two chains of refreshes behind, of which \<open>stop\<close> reaches one, and a cache that cannot be
  loaded leaves a client that moves no more. A \<open>chain\<close> is a pending refresh timer or a thread
  that is refreshing; the lemmas show that no step of a live client ends one.
\<close>

section \<open>Counting the chains of refreshes\<close>

definition refresh_timers :: "controller \<Rightarrow> timer list" where
  "refresh_timers k = filter (\<lambda>t. tm_kind t = RefreshTimer) (k_timers k)"

definition chains :: "controller \<Rightarrow> nat" where
  "chains k = length (refresh_timers k) + length (filter refreshing (k_workers k))"

lemma chains_behind: "behind k' = behind k \<Longrightarrow> chains k' = chains k"
  using behindD [of k' k] by (simp add: chains_def refresh_timers_def)

lemma chains_idle [simp]: "chains (idle c k) = chains k"
  by (simp add: chains_def refresh_timers_def idle_def)

lemma chain_counts: "chain_alive k \<Longrightarrow> 1 \<le> chains k"
  by (auto simp: chain_alive_def chains_def refresh_timers_def Suc_le_eq length_greater_0_conv
      filter_empty_conv simp del: length_greater_0_conv)

lemma fire_timer_chains:
  assumes "t \<in> set (k_timers k)"
  shows "chains k \<le> chains (fire_timer t k)"
proof (cases "tm_kind t")
  case RefreshTimer
  then have "t \<in> set (refresh_timers k)" using assms by (simp add: refresh_timers_def)
  then have "Suc (length (remove1 t (refresh_timers k))) = length (refresh_timers k)"
    using length_pos_if_in_set [of t "refresh_timers k"] by (simp add: length_remove1)
  then show ?thesis
    using RefreshTimer by (simp add: chains_def refresh_timers_def fire_timer_def filter_remove1)
next
  case RegistrationTimer
  then have "t \<notin> set (refresh_timers k)" by (simp add: refresh_timers_def)
  then show ?thesis
    using RegistrationTimer
    by (simp add: chains_def refresh_timers_def fire_timer_def filter_remove1 remove1_idem Let_def)
qed

text \<open>What a thread carries on: itself, or the timers that it started.\<close>

fun carried :: "worker option \<Rightarrow> nat" where
  "carried None = 0"
| "carried (Some p) = of_bool (refreshing p)"

lemma answer_timers:
  "refresh_answer fails env urlopen d client k = (n, k') \<Longrightarrow> k_timers k' = k_timers k"
  by (auto simp: refresh_answer_def split: sum.splits py_error.splits prod.splits option.splits)

lemma worker_move_carries:
  assumes "may_refresh k" and "worker_move fails env urlopen p k = (p', k')"
  shows "of_bool (refreshing p) + length (refresh_timers k) \<le> carried p' + length (refresh_timers k')"
proof (cases p)
  case (Fetching d client)
  obtain n k1 where r: "refresh_answer fails env urlopen d client k = (n, k1)" by fastforce
  then show ?thesis using answer_timers [OF r] assms(2) Fetching by (auto simp: refresh_timers_def)
next
  case (Polling config)
  then show ?thesis
    using assms(2)
    by (auto simp: poll_answer_def start_registration_timer_def refresh_timers_def Let_def
        split: sum.splits prod.splits option.splits if_splits)
next
  case (SetupRegistering config)
  then show ?thesis
    using assms(2)
    by (auto simp: setup_answer_def start_registration_def start_registration_timer_def
        refresh_timers_def Let_def split: sum.splits prod.splits option.splits if_splits)
qed (use assms in \<open>auto simp: start_refresh_timer_def refresh_timers_def\<close>)

lemma worker_step_chains:
  assumes i: "i < length (k_workers k)"
    and m: "worker_move fails env urlopen (k_workers k ! i) k = (p', k')"
  shows "chains (worker_step fails env urlopen i k) + of_bool (refreshing (k_workers k ! i)) +
      length (refresh_timers k) = chains k + carried p' + length (refresh_timers k')"
proof -
  let ?xs = "take i (k_workers k)" and ?ys = "drop (Suc i) (k_workers k)"
  have "filter refreshing (k_workers k) = filter refreshing (?xs @ k_workers k ! i # ?ys)"
    using id_take_nth_drop [OF i] by simp
  moreover have "(k_workers k)[i := q] = ?xs @ q # ?ys" for q
    by (rule upd_conv_take_nth_drop [OF i])
  moreover have "k_workers (worker_step fails env urlopen i k) =
      (case p' of Some q \<Rightarrow> (k_workers k)[i := q] | None \<Rightarrow> ?xs @ ?ys)"
    and "refresh_timers (worker_step fails env urlopen i k) = refresh_timers k'"
    by (simp_all add: worker_step_def m refresh_timers_def split: option.split)
  ultimately show ?thesis by (cases p') (simp_all add: chains_def)
qed

lemma chains_frames [simp]:
  "chains (k\<lparr>k_fs := fs\<rparr>) = chains k" "chains (k\<lparr>k_idle := cs\<rparr>) = chains k"
  "chains (on_window f k) = chains k" "chains (configure_from_setup url k) = chains k"
  by (simp_all add: chains_def refresh_timers_def on_window_def configure_from_setup_def idle_def Let_def)

lemma submit_chains: "chains (submit_address fails env text k) = chains k"
  by (simp add: submit_address_def Let_def split: prod.split option.split)

lemma live_step_chains:
  assumes "live_step env k k'" and "may_refresh k"
  shows "chains k \<le> chains k'"
  using assms(1) unfolding live_step_def
proof (elim conjE)
  assume "ctl_step env k k'" and live: "\<not> k_stopped k'"
  then show ?thesis
  proof (cases rule: ctl_step.cases)
    case own
    then show ?thesis
    proof (cases rule: own_step_keeps)
      case thread
      then show ?thesis
      proof (cases rule: background.cases)
        case (timer_fires t)
        then show ?thesis using fire_timer_chains by simp
      next
        case (worker_moves i urlopen fails)
        obtain p' k1 where m: "worker_move fails env urlopen (k_workers k ! i) k = (p', k1)" by fastforce
        show ?thesis
          using worker_move_carries [OF assms(2) m] worker_step_chains [OF worker_moves(2) m] worker_moves(1)
          by simp
      qed
    next
      case behind
      then show ?thesis using chains_behind [of k' k] by simp
    next
      case (address fails input)
      then show ?thesis by (simp add: submit_chains)
    qed
  next
    case (call_runs c cs)
    then show ?thesis
      using chains_behind [OF run_call_behind, of c "k\<lparr>k_idle := cs\<rparr>"] by simp
  next
    case (cec e)
    then show ?thesis by (simp add: on_cec_event_def split: option.split)
  next
    case stopping
    then show ?thesis using live by (simp add: stop_def cancel_rotation_def split: if_splits)
  qed
qed

section \<open>The ids of the timers\<close>

text \<open>Ids are not used twice, and the registration timer that the controller remembers is no
  refresh timer. So \<open>stop\<close> cancels one refresh timer at most.\<close>

definition clocks :: "controller \<Rightarrow> timer list \<times> nat \<times> nat option" where
  "clocks k = (k_timers k, k_next_timer k, k_registration_timer k)"

definition clocks_inv :: "controller \<Rightarrow> bool" where
  "clocks_inv k \<longleftrightarrow>
     distinct (map tm_id (k_timers k)) \<and> (\<forall>t \<in> set (k_timers k). tm_id t < k_next_timer k) \<and>
     (\<forall>i. k_registration_timer k = Some i \<longrightarrow> i < k_next_timer k \<and>
        (\<forall>t \<in> set (k_timers k). tm_id t = i \<longrightarrow> tm_kind t = RegistrationTimer))"

lemma clocks_inv_frame: "clocks k' = clocks k \<Longrightarrow> clocks_inv k' = clocks_inv k"
  by (simp add: clocks_def clocks_inv_def)

lemma clocks_frames [simp]:
  "clocks (on_window f k) = clocks k" "clocks (idle c k) = clocks k"
  "clocks (k\<lparr>k_idle := cs\<rparr>) = clocks k" "clocks (k\<lparr>k_fs := fs\<rparr>) = clocks k"
  "clocks (k\<lparr>k_config := cfg\<rparr>) = clocks k" "clocks (k\<lparr>k_client := cfg\<rparr>) = clocks k"
  "clocks (k\<lparr>k_workers := ps\<rparr>) = clocks k" "clocks (k\<lparr>k_rotating := b\<rparr>) = clocks k"
  "clocks (k\<lparr>k_window := w\<rparr>) = clocks k" "clocks (k\<lparr>k_server_default := d\<rparr>) = clocks k"
  "clocks (cancel_rotation k) = clocks k" "clocks (add_rotation k) = clocks k"
  "clocks (connect_setup k) = clocks k" "clocks (start_cec x y k) = clocks k"
  by (simp_all add: clocks_def on_window_def idle_def cancel_rotation_def add_rotation_def start_cec_def Let_def)

lemmas clocks_inv_frames [simp] = clocks_frames [THEN clocks_inv_frame]

lemma clocks_main_loop [simp]:
  "clocks (apply_rotation k) = clocks k" "clocks (dispatch a k) = clocks k"
  "clocks (snd (apply_config cc b k)) = clocks k" "clocks (run_call c k) = clocks k"
proof -
  show r: "clocks (apply_rotation k) = clocks k" for k by (simp add: apply_rotation_def Let_def)
  show d: "clocks (dispatch a k) = clocks k"
    by (simp add: dispatch_def toggle_rotation_def restart_rotation_clock_def r Let_def)
  show a: "clocks (snd (apply_config cc b k)) = clocks k" for cc b
    by (simp add: apply_config_def select_start_dashboard_def Let_def split: prod.split option.split)
  show "clocks (run_call c k) = clocks k"
    by (cases c) (simp_all add: a dispatch_def toggle_rotation_def restart_rotation_clock_def r Let_def)
qed

lemma clocks_inv_start:
  assumes "clocks_inv k"
  shows "clocks_inv (start_refresh_timer d k)" "clocks_inv (start_registration_timer d k)"
    "clocks_inv (schedule_refresh d k)" "clocks_inv (start_registration k)"
  using assms
  by (auto simp: clocks_inv_def start_refresh_timer_def start_registration_timer_def
      schedule_refresh_def start_registration_def less_Suc_eq)

lemma clocks_inv_fewer:
  assumes "clocks_inv k"
  shows "clocks_inv (k\<lparr>k_timers := remove1 t (k_timers k)\<rparr>)"
    and "clocks_inv (k\<lparr>k_stopped := b, k_timers := filter P (k_timers k)\<rparr>)"
proof -
  have "distinct (map tm_id (remove1 t (k_timers k)))"
    using assms by (simp add: clocks_inv_def distinct_map distinct_remove1 set_remove1_subset inj_on_def)
  then show "clocks_inv (k\<lparr>k_timers := remove1 t (k_timers k)\<rparr>)"
    using assms by (auto simp: clocks_inv_def dest: notin_set_remove1)
  show "clocks_inv (k\<lparr>k_stopped := b, k_timers := filter P (k_timers k)\<rparr>)"
    using assms by (auto simp: clocks_inv_def distinct_map_filter)
qed

lemma clocks_inv_worker_step:
  assumes "clocks_inv k"
  shows "clocks_inv (worker_step fails env urlopen i k)"
proof -
  obtain p' k' where m: "worker_move fails env urlopen (k_workers k ! i) k = (p', k')" by fastforce
  have "clocks_inv k'"
    using m assms by (cases "k_workers k ! i")
      (auto simp: refresh_answer_def setup_answer_def poll_answer_def Let_def intro!: clocks_inv_start
        split: sum.splits prod.splits option.splits py_error.splits if_splits)
  moreover have "clocks (worker_step fails env urlopen i k) = clocks k'"
    by (simp add: worker_step_def m split: option.split)
  ultimately show ?thesis using clocks_inv_frame by blast
qed

lemma clocks_inv_own_step:
  assumes "own_step env k k'" and "clocks_inv k"
  shows "clocks_inv k'"
  using assms(1)
proof (cases rule: own_step.cases)
  case in_background
  then show ?thesis
  proof (cases rule: background.cases)
    case (timer_fires t)
    have "clocks (fire_timer t k) = clocks (k\<lparr>k_timers := remove1 t (k_timers k)\<rparr>)"
      by (simp add: fire_timer_def Let_def split: timer_kind.split)
    then show ?thesis using timer_fires clocks_inv_frame clocks_inv_fewer(1) [OF assms(2)] by metis
  next
    case worker_moves
    then show ?thesis using clocks_inv_worker_step [OF assms(2)] by simp
  qed
next
  case (key name)
  have "clocks (snd (on_key_pressed name k)) = clocks k"
    by (simp add: on_key_pressed_def split: option.split sum.split)
  then show ?thesis using key assms(2) clocks_inv_frame by blast
next
  case (address fails input)
  have "clocks k' = clocks k"
    by (simp add: address submit_address_def configure_from_setup_def Let_def split: prod.split option.split)
  then show ?thesis using assms(2) clocks_inv_frame by blast
qed (use assms(2) in \<open>simp_all add: rotate_now_def\<close>)

lemma clocks_inv_step:
  assumes "ctl_step env k k'" and "clocks_inv k"
  shows "clocks_inv k'"
  using assms(1)
proof (cases rule: ctl_step.cases)
  case own
  then show ?thesis using clocks_inv_own_step assms(2) by blast
next
  case (call_runs c cs)
  have "clocks k' = clocks k" by (simp add: call_runs)
  then show ?thesis using assms(2) clocks_inv_frame by blast
next
  case (cec e)
  have "clocks k' = clocks k" by (simp add: cec on_cec_event_def split: option.split)
  then show ?thesis using assms(2) clocks_inv_frame by blast
next
  case stopping
  have "clocks k' = clocks (k\<lparr>k_stopped := True, k_timers := filter (\<lambda>t. \<not> cancels k t) (k_timers k)\<rparr>)"
    by (simp add: stopping stop_def)
  then show ?thesis using clocks_inv_frame clocks_inv_fewer(2) [OF assms(2)] by blast
qed

lemma reachable_clocks: "reachable env c k \<Longrightarrow> clocks_inv k"
proof (induction rule: reachable.induct)
  case (attached dirs w device_exists libcec_importable fs k)
  obtain cc k1 where k1: "apply_config cc True (connect_setup (make_controller c w fs)) = (None, k1)"
    and k: "k = apply_rotation (schedule_refresh FIRST_REFRESH_DELAY
      (start_registration (start_cec device_exists libcec_importable k1)))"
    by (rule attach_cases [OF attached(2)])
  have "clocks (start_cec device_exists libcec_importable k1) = clocks (make_controller c w fs)"
    using clocks_main_loop(3) [of cc True "connect_setup (make_controller c w fs)"] k1 by simp
  moreover have "clocks_inv (make_controller c w fs)" by (simp add: clocks_inv_def make_controller_def)
  ultimately have "clocks_inv (start_cec device_exists libcec_importable k1)" using clocks_inv_frame by blast
  from clocks_inv_start(3) [OF clocks_inv_start(4) [OF this]] show ?case
    using clocks_inv_frame [OF clocks_main_loop(1)] unfolding k by blast
next
  case (steps k k')
  then show ?case using clocks_inv_step by blast
qed

lemma stop_cancels_one:
  assumes "clocks_inv k"
  shows "length (refresh_timers k) \<le> Suc (length (refresh_timers (stop k)))"
proof -
  let ?ts = "refresh_timers k"
  have c: "cancels k t \<longleftrightarrow> k_refresh_timer k = Some (tm_id t)" if "t \<in> set ?ts" for t
    using that assms by (auto simp: cancels_def clocks_inv_def refresh_timers_def)
  have "length (filter (cancels k) ?ts) \<le> 1"
  proof -
    have d: "distinct (map tm_id (filter (cancels k) ?ts))"
      using assms by (simp add: clocks_inv_def refresh_timers_def distinct_map_filter)
    have "tm_id t \<in> set_option (k_refresh_timer k)" if "t \<in> set (filter (cancels k) ?ts)" for t
      using that c by auto
    then have "set (map tm_id (filter (cancels k) ?ts)) \<subseteq> set_option (k_refresh_timer k)" by auto
    then have "card (set (map tm_id (filter (cancels k) ?ts))) \<le> card (set_option (k_refresh_timer k))"
      by (rule card_mono [rotated]) simp
    also have "\<dots> \<le> 1" by (cases "k_refresh_timer k") simp_all
    finally show ?thesis using distinct_card [OF d] by simp
  qed
  moreover have "refresh_timers (stop k) = filter (\<lambda>t. \<not> cancels k t) ?ts"
    by (simp add: refresh_timers_def stop_def cancel_rotation_def conj_commute)
  moreover have "length (filter (cancels k) ?ts) + length (filter (\<lambda>t. \<not> cancels k t) ?ts) = length ?ts"
    by (rule sum_length_filter_compl)
  ultimately show ?thesis by simp
qed

section \<open>A client that moves no more\<close>

text \<open>Nothing pending, nothing running, nothing to show, and nobody to type an address.\<close>

definition stranded :: "controller \<Rightarrow> bool" where
  "stranded k \<longleftrightarrow>
     k_timers k = [] \<and> k_workers k = [] \<and> front (k_window k) = ([], False) \<and>
     (\<forall>cc b. CallApply cc b \<notin> set (k_idle k))"

lemma front_reports [simp]:
  "front (fire_source n w) = front w" "front (on_load_changed e i w) = front w"
  "front (snd (on_load_failed uri w)) = front w"
  "front (w\<lparr>w_local_ip := ip, w_cec_present := b\<rparr>) = front w"
  by (simp_all add: front_def fire_source_def on_load_changed_def sync_loading_def on_load_failed_def
      toast_def Let_def split: load_event.split option.split sum.split)

lemma front_row: "fst (front w) = [] \<Longrightarrow> front (on_menu_activate i w) = front w"
  by (simp add: front_def on_menu_activate_def show_index_empty)

lemma stranded_on_window:
  "stranded k \<Longrightarrow> front (f (k_window k)) = front (k_window k) \<Longrightarrow> stranded (on_window f k)"
  by (simp add: stranded_def on_window_def)

lemma stranded_own_step:
  assumes "own_step env k k'" and "stranded k"
  shows "stranded k'"
proof -
  have "w_dashboards (k_window k) = []" using assms(2) by (simp add: stranded_def front_def)
  then have act: "stranded (on_window (handle_action a) k)" for a
    by (intro stranded_on_window [OF assms(2)] front_action)
  show ?thesis
    using assms(1)
  proof (cases rule: own_step.cases)
    case in_background
    then show ?thesis using assms(2) by (auto simp: stranded_def elim: background_cases)
  next
    case carousel
    then show ?thesis using act by (simp add: rotate_now_def)
  next
    case (key name)
    then show ?thesis using act assms(2) by (simp add: on_key_pressed_def split: option.split sum.split)
  next
    case (row_clicked i)
    have "fst (front (k_window k)) = []" using assms(2) by (simp add: stranded_def)
    then show ?thesis unfolding row_clicked by (intro stranded_on_window [OF assms(2)] front_row)
  next
    case address
    then show ?thesis using assms(2) by (simp add: stranded_def front_def)
  qed (use stranded_on_window [OF assms(2)] in simp_all)
qed

lemma stranded_step:
  assumes "ctl_step env k k'" and "stranded k"
  shows "stranded k'"
  using assms(1)
proof (cases rule: ctl_step.cases)
  case own
  then show ?thesis using stranded_own_step assms(2) by blast
next
  case (call_runs c cs)
  have "front (k_window k') = ([], False)"
    using front_call [of "k\<lparr>k_idle := cs\<rparr>" c] assms(2) call_runs
    by (fastforce simp: stranded_def front_def)
  then show ?thesis
    using assms(2) call_runs behindD [OF run_call_behind, of c "k\<lparr>k_idle := cs\<rparr>"]
    by (auto simp: stranded_def)
next
  case (cec e)
  then show ?thesis
    using assms(2)
    by (auto simp: stranded_def on_cec_event_def idle_def event_call_def
        split: option.splits cec_event_kind.splits sum.splits)
next
  case stopping
  then show ?thesis using assms(2) by (simp add: stranded_def stop_def cancel_rotation_def)
qed

section \<open>Properties\<close>

text \<open>C38. The approval of a device doubles its refreshes for good. When the server approves a client
  that has no token, asked by the registration timer or from the setup screen, a second chain
  of refreshes starts beside the one that attaching started: in every later state of the live
  client, whatever happens, two chains are alive, each a pending timer or a thread under way.
  \<open>stop\<close> cancels at most one of the pending refreshes, so unless a thread is at it, one is left
  to contact the server after the end.\<close>

theorem approval_doubles_refreshes:
  assumes "reachable env c k" and "\<not> k_stopped k" and "refresh_interval c \<noteq> 0"
    and "i < length (k_workers k)" and "k_workers k ! i \<in> {Polling config, SetupRegistering config}"
    and "attempt_registration fails env urlopen config (k_fs k) = Inr (Some r, config', fs', cmds)"
    and "reg_approved r" and "api_token config' \<noteq> []"
    and "(live_step env)\<^sup>*\<^sup>* (worker_step fails env urlopen i k) k'"
  shows "api_token config = [] \<and>
    2 \<le> length (filter (\<lambda>t. tm_kind t = RefreshTimer) (k_timers k')) +
      length (filter refreshing (k_workers k')) \<and>
    ((\<forall>p \<in> set (k_workers k'). \<not> refreshing p) \<longrightarrow>
      (\<exists>t \<in> set (k_timers (stop k')). tm_kind t = RefreshTimer))"
proof -
  let ?k = "worker_step fails env urlopen i k"
  obtain k1 where m: "worker_move fails env urlopen (k_workers k ! i) k = (Some (Scheduling 500), k1)"
    and t: "k_timers k1 = k_timers k"
    using assms(5-8) by (auto simp: poll_answer_def setup_answer_def Let_def)
  have "\<not> refreshing (k_workers k ! i)" using assms(5) by auto
  then have "chains ?k = Suc (chains k)"
    using worker_step_chains [OF assms(4) m] t by (simp add: refresh_timers_def)
  moreover have "1 \<le> chains k"
    using chain_counts reachable_inv [OF assms(1)] assms(2,3) by (simp add: ctl_inv_def threads_inv_def)
  moreover have "reachable env c ?k"
    by (rule worker_reachable [OF assms(1,4)]) (use assms(5) in auto)
  ultimately have start: "reachable env c ?k \<and> \<not> k_stopped ?k \<and> 2 \<le> chains ?k" using assms(2) by simp
  from assms(9) start have later: "reachable env c k' \<and> \<not> k_stopped k' \<and> 2 \<le> chains k'"
  proof (induction rule: rtranclp_induct)
    case (step a b)
    then have "same_settings c (k_config a)"
      using reachable_inv by (auto simp: ctl_inv_def threads_inv_def)
    then have "may_refresh a" using may_refresh_iff step assms(3) by blast
    then show ?case
      using step live_step_chains [of env a b] reachable.steps [of env c a b]
      by (auto simp: live_step_def)
  qed simp
  have "refresh_timers (stop k') \<noteq> []" if "\<forall>p \<in> set (k_workers k'). \<not> refreshing p"
    using that later stop_cancels_one [OF reachable_clocks, of env c k']
    by (auto simp: chains_def filter_empty_conv [THEN iffD2])
  then show ?thesis
    using later assms(6) by (auto simp: chains_def refresh_timers_def attempt_registration_def
        filter_empty_conv split: if_splits)
qed

lemma approval_doubles_refreshes_witness:
  "(live_step [])\<^sup>*\<^sup>* run_approved run_chained \<and>
   (\<exists>t \<in> set (k_timers (stop run_chained)). tm_kind t = RefreshTimer)"
proof -
  let ?w = "worker_step (\<lambda>_. False) [] approving 0"
  obtain fs' cmds where a: "attempt_registration (\<lambda>_. False) [] approving run_config (k_fs run_polling) =
    Inr (Some \<lparr>reg_status = ''approved'', reg_token = ''t''\<rparr>, run_config\<lparr>api_token := ''t''\<rparr>, fs', cmds)"
    by (rule approved_answer)
  have k: "k_workers (?w run_approved) = [Starting 500]" "\<not> k_stopped (?w run_approved)"
    using run_approved_facts(1,2,5) by (simp_all add: worker_step_def may_refresh_def)
  have "live_step [] run_approved (?w run_approved)" "live_step [] (?w run_approved) run_chained"
    unfolding live_step_def run_chained_def using k run_approved_facts(1,2)
    by (auto intro!: ctl_step.own own_step.in_background background.worker_moves)
  then have l: "(live_step [])\<^sup>*\<^sup>* (?w run_polling) run_chained"
    unfolding run_approved_def by simp
  have c: "refresh_interval run_config \<noteq> 0" by code_simp
  show ?thesis
    using approval_doubles_refreshes [OF run_polling_reachable run_polling_facts(2) c _ _ a _ _ l]
      run_polling_facts(1) run_chained_facts(2) l
    by (simp add: reg_approved_def run_approved_def)
qed

text \<open>C39. A damaged cache strands the display. When the file of the cache cannot be loaded (it is not
  UTF-8, it holds an integer too long to convert, it nests too deep, or its directory may not
  be searched), activation raises with the window made but never presented, and the controller
  is left without a timer, a thread, a queued call or a CEC backend, so that nothing moves by
  itself; activating again only presents the window. With an address configured this is the
  end: whatever happens from then on, the client starts no thread and no timer, so it asks the
  server for nothing, and it shows no dashboard. Without one the setup screen is connected
  already, and only an address typed there can still start anything.\<close>

theorem bad_cache_strands_kiosk:
  assumes "kiosk_window fails env c dirs fs = Inr w" and "cache_load (cache_dir env) fs (base_url c) = Inl e"
  shows "\<exists>app k. do_activate fails env device_exists libcec_importable dirs fs
      (set_controller (make_application c)) = (Some e, app) \<and>
    app_kiosk app = Some k \<and> \<not> app_presented app \<and> k_idle k = [] \<and> k_backend k = None \<and>
    w_on_configured (k_window k) \<and> w_needs_setup (k_window k) = (server_url c = []) \<and>
    do_activate fails'' env' device_exists' libcec_importable' dirs' fs' app =
      (None, app\<lparr>app_presented := True\<rparr>) \<and>
    (\<forall>k'. \<not> background env k k') \<and>
    (server_url c \<noteq> [] \<longrightarrow>
      (\<forall>k'. (ctl_step env)\<^sup>*\<^sup>* k k' \<longrightarrow>
        k_timers k' = [] \<and> k_workers k' = [] \<and> w_dashboards (k_window k') = []))"
proof -
  have w: "w_dashboards w = []" "w_needs_setup w = (server_url c = [])"
    using kiosk_window_made [OF assms(1)] by (auto simp: make_window_def bind_result_Inr_iff Let_def)
  let ?k = "connect_setup (make_controller c w fs)"
  have k: "k_timers ?k = []" "k_workers ?k = []" "k_idle ?k = []" "k_backend ?k = None"
    "k_window ?k = w\<lparr>w_on_configured := True\<rparr>"
    by (simp_all add: make_controller_def)
  have "k_timers k' = [] \<and> k_workers k' = [] \<and> w_dashboards (k_window k') = []"
    if "server_url c \<noteq> []" and "(ctl_step env)\<^sup>*\<^sup>* ?k k'" for k'
  proof -
    have "stranded ?k" using w k that(1) by (simp add: stranded_def front_def)
    with that(2) have "stranded k'" by (induction rule: rtranclp_induct) (auto intro: stranded_step)
    then show ?thesis by (simp add: stranded_def front_def)
  qed
  moreover have "\<not> background env ?k k'" for k' using k(1,2) by (auto elim: background_cases)
  ultimately show ?thesis
    using assms w k by (simp add: do_activate_def set_controller_def make_application_def attach_def
        make_controller_def)
qed

lemma bad_cache_strands_kiosk_witness:
  "\<exists>app. do_activate (\<lambda>_. False) [] True False [] ((\<lambda>_. Absent)(cache_path (cache_dir []) := NotText))
      (set_controller (make_application run_config)) = (Some (ValueError UnicodeDecodeError), app) \<and>
    \<not> app_presented app"
proof -
  have "cache_load (cache_dir []) ((\<lambda>_. Absent)(cache_path (cache_dir []) := NotText)) (base_url run_config) =
      Inl (ValueError UnicodeDecodeError)"
    by (simp add: cache_load_def is_file_def read_json_def bind_result_def)
  moreover have "kiosk_window (\<lambda>_. False) [] run_config [] fs = Inr run_window" for fs
    by (simp add: kiosk_window_def build_network_session_def run_window_made)
  ultimately show ?thesis using bad_cache_strands_kiosk by fast
qed

end
