(* ===== verification/Probe.thy ===== *)
theory Probe
  imports Api
begin

text \<open>
  \<open>probe.py\<close>: the command line that checks a server from a device's point of view. What
  \<open>urlopen\<close> answers to the n-th use of the REST client, and to the request of a page, are
  parameters; the text of a page is what is left of it after the code's lenient decoding. A
  line of output is a constructor with what it prints. The lemmas say what the exit code
  means, that the probe only ever sends GET requests, and what \<open>--insecure\<close> does not reach.
\<close>

datatype probe_line =
    Probing string
  | ConfigHeading
  | PagesHeading
  | AdminHeading
  | Failed py_error
  | TokenUnusable
  | DashboardsAllowed nat
  | DefaultDashboard "string option"
  | Listed int string string
  | NothingToShow
  | PageFailed string string
  | PageAsksSignIn string
  | PageShown string string
  | AdminNeedsToken string
  | AdminFails string py_error
  | AdminOpen string
  | ProbeOk
  | ProbeProblems int

section \<open>The configuration of the kiosk\<close>

fun list_dashboards :: "int \<Rightarrow> dashboard list \<Rightarrow> probe_line list" where
  "list_dashboards index [] = []"
| "list_dashboards index (d # ds) = Listed index (d_name d) (d_url d) # list_dashboards (index + 1) ds"

definition check_client_config ::
  "config \<Rightarrow> (http_request \<Rightarrow> http_outcome) \<Rightarrow> int result \<times> probe_line list" where
  "check_client_config client urlopen =
     (case fetch_client_config client urlopen of
        Inl (AuthError code) \<Rightarrow> (Inr 1, [ConfigHeading, Failed (AuthError code), TokenUnusable])
      | Inl (ApiError reason) \<Rightarrow> (Inr 1, [ConfigHeading, Failed (ApiError reason)])
      | Inl e \<Rightarrow> (Inl e, [ConfigHeading])
      | Inr cc \<Rightarrow>
          (Inr (if dashboards cc = [] then 1 else 0),
           [ConfigHeading, DashboardsAllowed (length (dashboards cc)),
            DefaultDashboard (if default_dashboard_id cc = Some [] then None else default_dashboard_id cc)] @
           list_dashboards 1 (dashboards cc) @
           (if dashboards cc = [] then [NothingToShow] else [])))"

section \<open>The pages\<close>

text \<open>The regular expression \<open><title[^>]*>(.*?)</title>\<close> at one place of the text, without regard to
  case: the tag ends at the first \<open>>\<close>, and the title at the first closing tag after it.\<close>

definition match_title :: "string \<Rightarrow> string option" where
  "match_title s =
     (if starts_with ''<title'' (py_lower s) then
        (case dropWhile (\<lambda>c. c \<noteq> CHR ''>'') (drop 6 s) of
           [] \<Rightarrow> None
         | _ # text \<Rightarrow> map_option (\<lambda>(a, _). take (length a) text) (break_at ''</title>'' (py_lower text)))
      else None)"

fun find_title :: "string \<Rightarrow> string option" where
  "find_title [] = None"
| "find_title (c # s) = (case match_title (c # s) of Some t \<Rightarrow> Some t | None \<Rightarrow> find_title s)"

datatype page_outcome =
    PageText string
  | PageUnreachable string
  | PageRaises py_error

text \<open>The request of a page: without a context for TLS, so the library verifies certificates.\<close>

definition page_request :: "string \<Rightarrow> http_request" where
  "page_request url =
     \<lparr>rq_method = ''GET'', rq_url = url, rq_body = None,
      rq_headers = [(''User-Agent'', ''VisionTAK-Kiosk (probe)'')], rq_timeout = 15, rq_verify = True\<rparr>"

text \<open>The title of a page and the text of the error, one of them empty.\<close>

definition fetch_title :: "(http_request \<Rightarrow> page_outcome) \<Rightarrow> string \<Rightarrow> (string \<times> string) result" where
  "fetch_title fetch_page url =
     (if \<not> has_url_type url then Inl (ValueError InvalidUrl)
      else
        (case fetch_page (page_request url) of
           PageUnreachable text \<Rightarrow> Inr ([], text)
         | PageRaises e \<Rightarrow> Inl e
         | PageText body \<Rightarrow>
             Inr (case find_title body of Some t \<Rightarrow> py_strip t | None \<Rightarrow> ''(no title)'', [])))"

fun check_pages ::
  "config \<Rightarrow> (http_request \<Rightarrow> page_outcome) \<Rightarrow> string list \<Rightarrow> int \<Rightarrow> int result \<times> probe_line list" where
  "check_pages client fetch_page [] failures = (Inr failures, [])"
| "check_pages client fetch_page (i # is) failures =
     (let url = view_url (base_url client) i in
      case fetch_title fetch_page url of
        Inl e \<Rightarrow> (Inl e, [])
      | Inr (title, error) \<Rightarrow>
          (let (bad, line) =
             (if error \<noteq> [] then (1, PageFailed url error)
              else if py_contains ''sign in'' (py_lower title) then (1, PageAsksSignIn url)
              else (0, PageShown url title));
               (r, lines) = check_pages client fetch_page is (failures + bad)
           in (r, line # lines)))"

definition check_render_pages ::
  "config \<Rightarrow> (http_request \<Rightarrow> page_outcome) \<Rightarrow> string list \<Rightarrow> int result \<times> probe_line list" where
  "check_render_pages client fetch_page ids =
     (case check_pages client fetch_page ids 0 of (r, lines) \<Rightarrow> (r, PagesHeading # lines))"

section \<open>The admin endpoints\<close>

definition ADMIN_PATHS :: "string list" where
  "ADMIN_PATHS = [''/api/v1/dashboards'', ''/api/v1/layouts'']"

definition unauthenticated :: "config \<Rightarrow> config" where
  "unauthenticated client =
     default_config\<lparr>server_url := base_url client, api_token := [], device_id := ''probe''\<rparr>"

text \<open>The lines, with the exception that ends them, if one does; the n-th path is asked with the
  n-th answer.\<close>

fun admin_exposure ::
  "config \<Rightarrow> (nat \<Rightarrow> http_request \<Rightarrow> http_outcome) \<Rightarrow> nat \<Rightarrow> string list \<Rightarrow>
   probe_line list outcome" where
  "admin_exposure client urlopens n [] = (None, [])"
| "admin_exposure client urlopens n (path # paths) =
     (let more = (\<lambda>line. case admin_exposure client urlopens (n + 1) paths of
                           (e, lines) \<Rightarrow> (e, line # lines)) in
      case api_request (unauthenticated client) (urlopens n) ''GET'' path None of
        Inl (AuthError _) \<Rightarrow> more (AdminNeedsToken path)
      | Inl (ApiError reason) \<Rightarrow> more (AdminFails path (ApiError reason))
      | Inl e \<Rightarrow> (Some e, [])
      | Inr _ \<Rightarrow> more (AdminOpen path))"

definition report_admin_exposure ::
  "config \<Rightarrow> (nat \<Rightarrow> http_request \<Rightarrow> http_outcome) \<Rightarrow> probe_line list outcome" where
  "report_admin_exposure client urlopens =
     (case admin_exposure client urlopens 0 ADMIN_PATHS of (e, lines) \<Rightarrow> (e, AdminHeading # lines))"

section \<open>main\<close>

record probe_arguments =
  pa_base_url :: string
  pa_token :: string
  pa_insecure :: bool
  pa_skip_pages :: bool

definition probe_client :: "probe_arguments \<Rightarrow> config" where
  "probe_client args =
     default_config\<lparr>server_url := pa_base_url args, api_token := pa_token args,
       device_id := ''probe'', verify_tls := \<not> pa_insecure args\<rparr>"

text \<open>The exit code, or the exception that escapes, and what was printed by then. The client is used
  once for the check and once more for the ids; the admin endpoints come after that.\<close>

definition probe_main ::
  "(nat \<Rightarrow> http_request \<Rightarrow> http_outcome) \<Rightarrow> (http_request \<Rightarrow> page_outcome) \<Rightarrow> probe_arguments \<Rightarrow>
   int result \<times> probe_line list" where
  "probe_main urlopens fetch_page args =
     (let client = probe_client args;
          (r, out1) = check_client_config client (urlopens 0);
          out1 = Probing (base_url client) # out1 in
      case r of
        Inl e \<Rightarrow> (Inl e, out1)
      | Inr failures \<Rightarrow>
          (let (r, out2) =
             (if failures = 0 \<and> \<not> pa_skip_pages args then
                (case fetch_client_config client (urlopens 1) of
                   Inl e \<Rightarrow> (Inl e, [])
                 | Inr cc \<Rightarrow> check_render_pages client fetch_page (map d_id (dashboards cc)))
              else (Inr 0, [])) in
           case r of
             Inl e \<Rightarrow> (Inl e, out1 @ out2)
           | Inr bad_pages \<Rightarrow>
               (case report_admin_exposure client (\<lambda>n. urlopens (n + 2)) of
                  (Some e, out3) \<Rightarrow> (Inl e, out1 @ out2 @ out3)
                | (None, out3) \<Rightarrow>
                    (let failures = failures + bad_pages in
                     (Inr (if failures \<noteq> 0 then 1 else 0),
                      out1 @ out2 @ out3 @
                        [if failures = 0 then ProbeOk else ProbeProblems failures])))))"

section \<open>What the exit code means\<close>

text \<open>When a page is not counted as a problem: its text was fetched and its title does not ask to
  sign in. The code tells a failure by the text of the exception, so a page that could not be
  fetched passes too when that text is empty.\<close>

definition page_title :: "string \<Rightarrow> string" where
  "page_title body = (case find_title body of Some t \<Rightarrow> py_strip t | None \<Rightarrow> ''(no title)'')"

definition page_passes :: "config \<Rightarrow> (http_request \<Rightarrow> page_outcome) \<Rightarrow> string \<Rightarrow> bool" where
  "page_passes client fetch_page i \<longleftrightarrow>
     (case fetch_page (page_request (view_url (base_url client) i)) of
        PageText body \<Rightarrow> \<not> py_contains ''sign in'' (py_lower (page_title body))
      | PageUnreachable text \<Rightarrow> text = []
      | PageRaises e \<Rightarrow> False)"

lemma fetch_title_passes:
  assumes "fetch_title fetch_page (view_url (base_url client) i) = Inr (title, error)"
  shows "page_passes client fetch_page i \<longleftrightarrow> error = [] \<and> \<not> py_contains ''sign in'' (py_lower title)"
proof -
  have "\<not> py_contains ''sign in'' (py_lower [])" by code_simp
  then show ?thesis
    using assms by (auto simp: fetch_title_def page_passes_def page_title_def split: if_splits page_outcome.splits)
qed

lemma check_pages_count:
  "check_pages client fetch_page is failures = (Inr n, out) \<Longrightarrow>
     failures \<le> n \<and> (n = failures \<longleftrightarrow> (\<forall>i \<in> set is. page_passes client fetch_page i))"
proof (induction "is" arbitrary: failures out)
  case Nil
  then show ?case by simp
next
  case (Cons i "is")
  let ?url = "view_url (base_url client) i"
  obtain title error where t: "fetch_title fetch_page ?url = Inr (title, error)"
    using Cons.prems by (cases "fetch_title fetch_page ?url") auto
  let ?bad = "if error \<noteq> [] \<or> py_contains ''sign in'' (py_lower title) then 1 else 0 :: int"
  have p: "page_passes client fetch_page i \<longleftrightarrow> ?bad = 0"
    using fetch_title_passes [OF t] by auto
  obtain out' where "check_pages client fetch_page is (failures + ?bad) = (Inr n, out')"
    using Cons.prems t by (auto simp: Let_def split: prod.splits if_splits)
  from Cons.IH [OF this] p show ?case by (auto split: if_splits)
qed

lemma check_config_verdict:
  "check_client_config client urlopen = (Inr n, out) \<Longrightarrow>
     n \<in> {0, 1} \<and> (n = 0 \<longleftrightarrow> (\<exists>cc. fetch_client_config client urlopen = Inr cc \<and> dashboards cc \<noteq> []))"
  by (auto simp: check_client_config_def split: sum.splits py_error.splits)

lemma api_request_get_only:
  assumes "\<And>r. rq_method r = ''GET'' \<Longrightarrow> f r = g r"
  shows "api_request client f ''GET'' path body = api_request client g ''GET'' path body"
  using assms [of "make_request client ''GET'' path body"]
  by (simp add: api_request_def make_request_def)

lemma fetch_get_only:
  "(\<And>r. rq_method r = ''GET'' \<Longrightarrow> f r = g r) \<Longrightarrow> fetch_client_config client f = fetch_client_config client g"
  by (simp add: fetch_client_config_def api_request_get_only [of f g])

lemma admin_get_only:
  "(\<And>n r. rq_method r = ''GET'' \<Longrightarrow> f n r = g n r) \<Longrightarrow>
     admin_exposure client f n paths = admin_exposure client g n paths"
  by (induction paths arbitrary: n) (simp_all add: api_request_get_only [of "f _" "g _"])

text \<open>The probe is read-only: whatever a server would do with other requests, only its answers to GET
  requests matter.\<close>

theorem probe_read_only:
  assumes "\<And>n r. rq_method r = ''GET'' \<Longrightarrow> f n r = g n r"
  shows "probe_main f fetch_page args = probe_main g fetch_page args"
proof -
  have "fetch_client_config c (f n) = fetch_client_config c (g n)" for c n
    using assms by (rule fetch_get_only)
  moreover have "report_admin_exposure c (\<lambda>n. f (n + 2)) = report_admin_exposure c (\<lambda>n. g (n + 2))" for c
    using admin_get_only [of "\<lambda>n. f (n + 2)" "\<lambda>n. g (n + 2)"] assms
    by (simp add: report_admin_exposure_def)
  ultimately show ?thesis by (simp only: probe_main_def check_client_config_def)
qed

text \<open>\<open>--insecure\<close> does not reach the pages: the request of a page asks the library to verify
  certificates all the same, so a server whose certificate is refused fails the probe although
  the kiosk, with \<open>verify-tls=false\<close>, would show its dashboards.\<close>

lemma insecure_pages_verified:
  assumes "\<And>r. rq_verify r \<Longrightarrow> fetch_page r = PageUnreachable refused" and "refused \<noteq> []"
  shows "\<not> page_passes client fetch_page i"
  using assms by (simp add: page_passes_def page_request_def)

section \<open>Properties\<close>

text \<open>C40. What the exit code of the probe means. Against a server that answers the same request the
  same way, a probe that ends without a traceback exits with 0 exactly when the server allows
  this client some dashboards and, unless pages are skipped, for each of them the page's text
  could be fetched and its title does not ask to sign in, or it could not be fetched for an
  error without a text; otherwise it exits with 1. The exposure of the admin endpoints never
  counts.\<close>

theorem probe_verdict:
  assumes "probe_main (\<lambda>_. urlopen) fetch_page args = (Inr code, out)"
  shows "code \<in> {0, 1} \<and>
    (code = 0 \<longleftrightarrow> (\<exists>cc. fetch_client_config (probe_client args) urlopen = Inr cc \<and> dashboards cc \<noteq> [] \<and>
       (pa_skip_pages args \<or>
        (\<forall>d \<in> set (dashboards cc).
          case fetch_page (page_request (view_url (base_url (probe_client args)) (d_id d))) of
            PageText body \<Rightarrow> \<not> py_contains ''sign in''
              (py_lower (case find_title body of Some t \<Rightarrow> py_strip t | None \<Rightarrow> ''(no title)''))
          | PageUnreachable error \<Rightarrow> error = []
          | PageRaises e \<Rightarrow> False))))"
proof -
  let ?c = "probe_client args"
  obtain n out1 where 1: "check_client_config ?c urlopen = (Inr n, out1)"
    using assms by (auto simp: probe_main_def Let_def split: prod.splits sum.splits)
  note v = check_config_verdict [OF 1]
  show ?thesis
  proof (cases "n = 0 \<and> \<not> pa_skip_pages args")
    case False
    then show ?thesis
      using assms 1 v by (auto simp: probe_main_def Let_def split: prod.splits sum.splits option.splits if_splits)
  next
    case True
    then obtain cc where cc: "fetch_client_config ?c urlopen = Inr cc" "dashboards cc \<noteq> []"
      using v by blast
    obtain m out2 where 2: "check_pages ?c fetch_page (map d_id (dashboards cc)) 0 = (Inr m, out2)"
      using assms 1 True cc
      by (auto simp: probe_main_def check_render_pages_def Let_def split: prod.splits sum.splits)
    have "code = (if m \<noteq> 0 then 1 else 0)"
      using assms 1 2 True cc
      by (auto simp: probe_main_def check_render_pages_def Let_def split: prod.splits option.splits)
    then show ?thesis
      using check_pages_count [OF 2, unfolded page_passes_def page_title_def] cc True by auto
  qed
qed

lemma probe_verdict_witness:
  "\<exists>out1 out2. probe_main
      (\<lambda>_ _. Answer ''application/json'' (JsonText (JDict [(''allowedDashboards'', JList [JDict [(''id'', JStr ''a'')]])])))
      (\<lambda>_. PageText ''<html><TITLE lang=en> Sign In </title>'')
      \<lparr>pa_base_url = ''http://vt'', pa_token = ''t'', pa_insecure = False, pa_skip_pages = False\<rparr> = (Inr 1, out1) \<and>
    probe_main
      (\<lambda>_ _. Answer ''application/json'' (JsonText (JDict [(''allowedDashboards'', JList [JDict [(''id'', JStr ''a'')]])])))
      (\<lambda>_. PageUnreachable ''timed out'')
      \<lparr>pa_base_url = ''http://vt'', pa_token = ''t'', pa_insecure = False, pa_skip_pages = False\<rparr> = (Inr 1, out2)"
proof -
  let ?u = "\<lambda>_. Answer ''application/json'' (JsonText (JDict [(''allowedDashboards'', JList [JDict [(''id'', JStr ''a'')]])]))"
  let ?p = "\<lambda>_. PageText ''<html><TITLE lang=en> Sign In </title>''"
  let ?q = "\<lambda>_. PageUnreachable ''timed out''"
  let ?a = "\<lparr>pa_base_url = ''http://vt'', pa_token = ''t'', pa_insecure = False, pa_skip_pages = False\<rparr>"
  let ?d = "\<lparr>d_id = ''a'', d_name = ''a'', d_url = ''http://vt/view/a'', d_order = 0, d_group = []\<rparr>"
  have f: "fetch_client_config (probe_client ?a) ?u = Inr \<lparr>dashboards = [?d], default_dashboard_id = None\<rparr>"
    by code_simp
  have t: "py_contains ''sign in''
      (py_lower (case find_title ''<html><TITLE lang=en> Sign In </title>'' of Some t \<Rightarrow> py_strip t | None \<Rightarrow> ''(no title)''))"
    by code_simp
  have "\<not> isl (fst (probe_main (\<lambda>_. ?u) ?p ?a))" and "\<not> isl (fst (probe_main (\<lambda>_. ?u) ?q ?a))" by code_simp+
  then obtain n out1 m out2 where 1: "probe_main (\<lambda>_. ?u) ?p ?a = (Inr n, out1)"
    and 2: "probe_main (\<lambda>_. ?u) ?q ?a = (Inr m, out2)"
    by (metis prod.collapse sum.collapse(2))
  have "n = 1" using probe_verdict [OF 1] t by (auto simp: f)
  moreover have "m = 1" using probe_verdict [OF 2] by (auto simp: f)
  ultimately show ?thesis using 1 2 by blast
qed

end
