(* ===== verification/Web_Settings.thy ===== *)
theory Web_Settings
  imports Config
begin

text \<open>
  \<open>_accel_policy\<close> and \<open>_build_web_settings\<close> of \<open>ui/kiosk_window.py\<close>: the settings that every
  webview gets. Which settings a build of WebKit has, and whether its acceleration policy has
  \<open>ON_DEMAND\<close>, are parameters. The lemma says that a build that lacks settings gets the rest,
  unchanged, and is never handed one it does not know.
\<close>

datatype accel = AccelAlways | AccelNever | AccelOnDemand

datatype setting_value = Flag bool | Accel accel

definition accel_policy :: "bool \<Rightarrow> string \<Rightarrow> accel" where
  "accel_policy has_on_demand m =
     (if m = ''always'' then AccelAlways
      else if m = ''never'' then AccelNever
      else if has_on_demand then AccelOnDemand else AccelAlways)"

definition wanted_settings :: "bool \<Rightarrow> config \<Rightarrow> (string \<times> setting_value) list" where
  "wanted_settings has_on_demand c =
     [(''enable_developer_extras'', Flag False),
      (''enable_write_console_messages_to_stdout'', Flag False),
      (''javascript_can_open_windows_automatically'', Flag False),
      (''enable_back_forward_navigation_gestures'', Flag False),
      (''enable_html5_database'', Flag True),
      (''enable_html5_local_storage'', Flag True),
      (''hardware_acceleration_policy'', Accel (accel_policy has_on_demand (hardware_acceleration c))),
      (''enable_page_cache'', Flag False),
      (''enable_media_stream'', Flag False),
      (''enable_smooth_scrolling'', Flag False),
      (''media_playback_requires_user_gesture'', Flag False),
      (''enable_webgl'', Flag (hardware_acceleration c \<noteq> ''never''))]"

text \<open>The properties of the build have dashes in their names.\<close>

definition build_web_settings ::
  "string list \<Rightarrow> bool \<Rightarrow> config \<Rightarrow> (string \<times> setting_value) list" where
  "build_web_settings properties has_on_demand c =
     (let available = set (map (map (\<lambda>x. if x = CHR ''-'' then CHR ''_'' else x)) properties)
      in filter (\<lambda>(k, _). k \<in> available) (wanted_settings has_on_demand c))"

lemma wanted_settings_distinct: "distinct (map fst (wanted_settings b c))"
  by (simp add: wanted_settings_def)

lemma web_settings_known:
  "map_of (build_web_settings properties b c) k =
     (if k \<in> set (map (map (\<lambda>x. if x = CHR ''-'' then CHR ''_'' else x)) properties)
      then map_of (wanted_settings b c) k else None)"
proof -
  have "map_of (filter (\<lambda>(k, _). k \<in> A) al) k = (if k \<in> A then map_of al k else None)"
    for A and al :: "(string \<times> setting_value) list"
    by (induction al) auto
  then show ?thesis by (simp add: build_web_settings_def Let_def)
qed

text \<open>Without acceleration there is no WebGL either, and no build of WebKit lets a page's script open
  windows.\<close>

lemma web_settings_safe:
  "map_of (build_web_settings properties b c) ''javascript_can_open_windows_automatically'' \<in>
     {None, Some (Flag False)}"
  "hardware_acceleration c = ''never'' \<Longrightarrow>
     map_of (build_web_settings properties b c) ''enable_webgl'' \<in> {None, Some (Flag False)} \<and>
     map_of (build_web_settings properties b c) ''hardware_acceleration_policy'' \<in>
       {None, Some (Accel AccelNever)}"
  unfolding web_settings_known by (simp_all add: wanted_settings_def accel_policy_def)

end
