(* ===== verification/Kiosk_System.thy ===== *)
theory Kiosk_System
  imports Enrolment Cec_Reader
begin

text \<open>
  The running client as a whole: the controller with its timers, its worker threads and the
  main loop, beside the CEC reader thread over any backend. The reader's callback is
  \<open>_on_cec_event\<close>, which only queues calls for the main loop. The lemmas say that whatever was
  shown of the controller alone holds for it in this company, and that what is pressed on the
  remote is executed once and in order across the two threads and the queue between them.
\<close>

section \<open>The two sides\<close>

text \<open>\<open>sys_executed\<close> records the actions that the main loop has dispatched for the remote: an action
  is added in the step that takes its call from the queue and runs it.\<close>

record 'b kiosk_system =
  sys_ctl :: controller
  sys_reader :: "'b reader"
  sys_executed :: "key_action list"

definition dispatched :: "call \<Rightarrow> key_action list" where
  "dispatched c = (case c of CallDispatch a \<Rightarrow> [a] | _ \<Rightarrow> [])"

text \<open>A step of the reader thread; what it hands to the callback is queued at once.\<close>

definition reader_turn ::
  "('i, 'b) cec_backend \<Rightarrow> 'i \<Rightarrow> 'b kiosk_system \<Rightarrow> 'b kiosk_system" where
  "reader_turn be i s =
     (let r = reader_step be (sys_reader s) i;
          handed = drop (length (rd_delivered (sys_reader s))) (rd_delivered r)
      in s\<lparr>sys_reader := r, sys_ctl := fold on_cec_event handed (sys_ctl s)\<rparr>)"

text \<open>\<open>stop\<close> first stops the controller's timers, then the reader, which takes two statements.\<close>

inductive sys_step ::
  "environ \<Rightarrow> ('i, 'b) cec_backend \<Rightarrow> 'b kiosk_system \<Rightarrow> 'b kiosk_system \<Rightarrow> bool" for env be where
  sys_own: "own_step env (sys_ctl s) k \<Longrightarrow> sys_step env be s (s\<lparr>sys_ctl := k\<rparr>)"
| sys_call: "k_idle (sys_ctl s) = c # cs \<Longrightarrow>
    sys_step env be s
      (s\<lparr>sys_ctl := run_call c ((sys_ctl s)\<lparr>k_idle := cs\<rparr>), sys_executed := sys_executed s @ dispatched c\<rparr>)"
| sys_reader: "sys_step env be s (reader_turn be i s)"
| sys_stop: "sys_step env be s (s\<lparr>sys_ctl := stop (sys_ctl s)\<rparr>)"
| sys_stop_sets: "k_stopped (sys_ctl s) \<Longrightarrow>
    sys_step env be s (s\<lparr>sys_reader := reader_stop_set (sys_reader s)\<rparr>)"
| sys_stop_closes: "rd_stop (sys_reader s) \<Longrightarrow>
    sys_step env be s (s\<lparr>sys_reader := reader_stop_close be (sys_reader s)\<rparr>)"

inductive sys_reachable ::
  "environ \<Rightarrow> config \<Rightarrow> ('i, 'b) cec_backend \<Rightarrow> 'b \<Rightarrow> 'b kiosk_system \<Rightarrow> bool" for env c be b where
  sys_started: "make_window c dirs = Inr w \<Longrightarrow>
    attach env device_exists libcec_importable (make_controller c w fs) = (None, k) \<Longrightarrow>
    (\<And>cc. cache_load (cache_dir env) fs (base_url c) = Inr cc \<Longrightarrow> list_all page_ok (dashboards cc)) \<Longrightarrow>
    sys_reachable env c be b \<lparr>sys_ctl = k, sys_reader = start_reader b, sys_executed = []\<rparr>"
| sys_steps: "sys_reachable env c be b s \<Longrightarrow> sys_step env be s s' \<Longrightarrow> sys_reachable env c be b s'"

section \<open>The controller in this company\<close>

lemma fold_events_steps: "(ctl_step env)\<^sup>*\<^sup>* k (fold on_cec_event evs k)"
proof (induction evs arbitrary: k)
  case (Cons e evs)
  have "ctl_step env k (on_cec_event e k)" by (rule ctl_step.cec)
  then show ?case using Cons [of "on_cec_event e k"] by simp
qed simp

lemma reader_turn_ctl: "(ctl_step env)\<^sup>*\<^sup>* (sys_ctl s) (sys_ctl (reader_turn be i s))"
  using fold_events_steps by (simp add: reader_turn_def Let_def)

lemma sys_step_ctl:
  assumes "sys_step env be s s'"
  shows "(ctl_step env)\<^sup>*\<^sup>* (sys_ctl s) (sys_ctl s')"
  using assms by (cases rule: sys_step.cases) (auto intro: ctl_step.intros reader_turn_ctl)

lemma reachable_steps: "(ctl_step env)\<^sup>*\<^sup>* k k' \<Longrightarrow> reachable env c k \<Longrightarrow> reachable env c k'"
  by (induction rule: rtranclp_induct) (auto intro: reachable.steps)

text \<open>So every theorem about the reachable states of the controller holds here.\<close>

lemma sys_reachable_ctl: "sys_reachable env c be b s \<Longrightarrow> reachable env c (sys_ctl s)"
proof (induction rule: sys_reachable.induct)
  case (sys_started dirs w device_exists libcec_importable fs k)
  then show ?case using reachable.attached by fastforce
next
  case (sys_steps s s')
  then show ?case using sys_step_ctl reachable_steps by blast
qed

section \<open>The reader in this company\<close>

text \<open>What every event of the reader keeps holds in every state of the client.\<close>

lemma sys_reachable_reader:
  assumes "sys_reachable env c be b s" and "P (start_reader b)"
    and "\<And>r e. P r \<Longrightarrow> P (reader_event be r e)"
  shows "P (sys_reader s)"
  using assms(1)
proof (induction rule: sys_reachable.induct)
  case (sys_started dirs w device_exists libcec_importable fs k)
  then show ?case using assms(2) by simp
next
  case (sys_steps s s')
  have "P (reader_step be r i)" "P (reader_stop_set r)" "rd_stop r \<Longrightarrow> P (reader_stop_close be r)"
    if "P r" for r i
    using that assms(3) [of r "ThreadStep i"] assms(3) [of r StopSets] assms(3) [of r StopCloses] by simp_all
  then show ?case
    using sys_steps by (auto elim!: sys_step.cases simp: reader_turn_def Let_def)
qed

lemma sys_reachable_order: "sys_reachable env c be b s \<Longrightarrow> reader_order (sys_reader s)"
  by (erule sys_reachable_reader) (auto intro: start_reader_order reader_order_step)

lemma reader_step_delivered:
  "rd_delivered (reader_step be r i) =
     rd_delivered r @ (case rd_phase r of Delivering (e # _) \<Rightarrow> [e] | _ \<Rightarrow> [])"
  by (cases "rd_phase r")
    (auto simp: reader_step_def split: list.split prod.split option.split sum.split)

section \<open>From the remote to the screen\<close>

text \<open>The action of an event: that of the code of a pressed key.\<close>

definition press_action :: "cec_event \<Rightarrow> key_action option" where
  "press_action e =
     (if ev_kind e = KEY_PRESS then
        Option.bind (key_code e) (\<lambda>code. case action_for code of Inr a \<Rightarrow> a | Inl _ \<Rightarrow> None)
      else None)"

definition queued :: "controller \<Rightarrow> key_action list" where
  "queued k = concat (map dispatched (k_idle k))"

lemma map_filter_append [simp]:
  "List.map_filter f (xs @ ys) = List.map_filter f xs @ List.map_filter f ys"
  by (simp add: List.map_filter_def)

lemma queued_idle [simp]:
  "queued (idle c k) = queued k @ dispatched c"
  "queued (k\<lparr>k_workers := ws\<rparr>) = queued k" "queued (k\<lparr>k_config := cfg\<rparr>) = queued k"
  "queued (k\<lparr>k_client := cfg\<rparr>) = queued k" "queued (k\<lparr>k_fs := fs\<rparr>) = queued k"
  "queued (k\<lparr>k_timers := ts\<rparr>) = queued k"
  "queued (start_refresh_timer d k) = queued k" "queued (start_registration_timer d k) = queued k"
  "queued (start_registration k) = queued k"
  by (simp_all add: queued_def start_refresh_timer_def start_registration_timer_def
      start_registration_def)

lemma dispatched_simps [simp]:
  "dispatched (CallToast t) = []" "dispatched (CallApply cc b) = []" "dispatched CallLeaveSetup = []"
  "dispatched (CallSetupStatus m e) = []" "dispatched (CallEnrolment cap) = []"
  "dispatched (CallStatus st) = []" "dispatched (CallBlank b) = []" "dispatched (CallDispatch a) = [a]"
  by (simp_all add: dispatched_def)

lemma queued_behind: "behind k = behind k' \<Longrightarrow> queued k = queued k'"
  by (simp add: queued_def behind_def)

lemma queued_on_window [simp]: "queued (on_window f k) = queued k"
  by (rule queued_behind) simp

text \<open>Nothing but the reader's callback queues an action.\<close>

lemma worker_move_queued: "queued (snd (worker_move fails env urlopen p k)) = queued k"
proof (cases p)
  case (Fetching d client)
  then show ?thesis
    by (auto simp: refresh_answer_def split: sum.split py_error.split prod.split option.split)
next
  case (Polling config)
  then show ?thesis
    by (auto simp: poll_answer_def Let_def split: sum.split prod.split option.split)
next
  case (SetupRegistering config)
  then show ?thesis
    by (auto simp: setup_answer_def Let_def split: sum.split prod.split option.split)
qed simp_all

lemma own_step_queued:
  assumes "own_step env k k'"
  shows "queued k' = queued k"
  using assms
proof (cases rule: own_step.cases)
  case in_background
  then show ?thesis
  proof (cases rule: background.cases)
    case (timer_fires t)
    then show ?thesis by (simp add: fire_timer_def Let_def split: timer_kind.split)
  next
    case (worker_moves i urlopen fails)
    then show ?thesis
      using worker_move_queued [of fails env urlopen "k_workers k ! i" k]
      by (auto simp: worker_step_def split: prod.splits option.split)
  qed
next
  case (key name)
  then show ?thesis by (auto simp: on_key_pressed_def split: option.split sum.split)
next
  case (address fails input)
  then show ?thesis
    by (auto simp: submit_address_def configure_from_setup_def Let_def split: prod.split option.split)
qed (simp_all add: rotate_now_def)

lemma event_queued: "queued (on_cec_event e k) = queued k @ List.map_filter press_action [e]"
  by (auto simp: on_cec_event_def event_call_def press_action_def List.map_filter_def
      split: cec_event_kind.split option.split sum.split)

lemma events_queued: "queued (fold on_cec_event evs k) = queued k @ List.map_filter press_action evs"
  by (induction evs arbitrary: k)
    (simp_all add: event_queued List.map_filter_def)

definition in_flight :: "'b kiosk_system \<Rightarrow> bool" where
  "in_flight s \<longleftrightarrow>
     sys_executed s @ queued (sys_ctl s) = List.map_filter press_action (rd_delivered (sys_reader s))"

lemma in_flight_turn: "in_flight s \<Longrightarrow> in_flight (reader_turn be i s)"
  by (simp add: in_flight_def reader_turn_def Let_def reader_step_delivered events_queued)

lemma in_flight_step:
  assumes "sys_step env be s s'" and "in_flight s"
  shows "in_flight s'"
  using assms
proof (cases rule: sys_step.cases)
  case (sys_own k)
  then show ?thesis using assms(2) own_step_queued by (simp add: in_flight_def)
next
  case (sys_call c cs)
  have "queued (run_call c ((sys_ctl s)\<lparr>k_idle := cs\<rparr>)) = concat (map dispatched cs)"
    using queued_behind [OF run_call_behind] by (simp add: queued_def)
  then show ?thesis using sys_call assms(2) by (simp add: in_flight_def queued_def)
next
  case sys_stop
  have "queued (stop k) = queued k" for k
    by (simp add: queued_def stop_def cancel_rotation_def)
  then show ?thesis using sys_stop assms(2) by (simp add: in_flight_def)
next
  case sys_stop_sets
  then show ?thesis using assms(2) by (simp add: in_flight_def reader_stop_set_def)
next
  case sys_stop_closes
  then show ?thesis using assms(2) by (simp add: in_flight_def reader_stop_close_def)
qed (auto intro: in_flight_turn assms(2))

lemma attach_queued:
  assumes "attach env device_exists libcec_importable k = (None, k')" and "queued k = []"
  shows "queued k' = []"
proof -
  obtain cc k1 where k1: "apply_config cc True (connect_setup k) = (None, k1)"
    and k': "k' = apply_rotation (schedule_refresh FIRST_REFRESH_DELAY
      (start_registration (start_cec device_exists libcec_importable k1)))"
    by (rule attach_cases [OF assms(1)])
  have "behind k1 = behind k" using apply_config_behind [of cc True "connect_setup k"] k1 by simp
  then have "queued k1 = []" using queued_behind assms(2) by metis
  then have "queued (start_cec device_exists libcec_importable k1) = []"
    by (simp add: start_cec_def Let_def queued_def idle_def)
  then have "queued (schedule_refresh FIRST_REFRESH_DELAY
      (start_registration (start_cec device_exists libcec_importable k1))) = []"
    by (simp add: schedule_refresh_def)
  then show ?thesis unfolding k' using queued_behind [OF apply_rotation_fields(1)] by simp
qed

lemma sys_reachable_in_flight: "sys_reachable env c be b s \<Longrightarrow> in_flight s"
proof (induction rule: sys_reachable.induct)
  case (sys_started dirs w device_exists libcec_importable fs k)
  have "queued (make_controller c w fs) = []" by (simp add: queued_def make_controller_def)
  then show ?case
    using attach_queued [OF sys_started(2)]
    by (simp add: in_flight_def start_reader_def List.map_filter_def)
next
  case (sys_steps s s')
  then show ?case using in_flight_step by blast
qed

section \<open>The end of the client\<close>

text \<open>\<open>KioskController.stop\<close> with the reader it stops, as the signal handler calls it and \<open>main\<close> once
  more on its way out.\<close>

definition stop_client :: "('i, 'b) cec_backend \<Rightarrow> 'b kiosk_system \<Rightarrow> 'b kiosk_system" where
  "stop_client be s = s\<lparr>sys_ctl := stop (sys_ctl s), sys_reader := reader_stop be (sys_reader s)\<rparr>"

lemma stop_client_reachable:
  assumes "sys_reachable env c be b s"
  shows "sys_reachable env c be b (stop_client be s)"
proof -
  let ?s = "s\<lparr>sys_ctl := stop (sys_ctl s)\<rparr>"
  have stopped: "k_stopped (sys_ctl ?s)" by (simp add: stop_def cancel_rotation_def)
  have "sys_reachable env c be b ?s" using assms sys_step.sys_stop by (rule sys_steps)
  then have "sys_reachable env c be b (?s\<lparr>sys_reader := reader_stop_set (sys_reader ?s)\<rparr>)"
    using sys_step.sys_stop_sets [OF stopped] by (rule sys_steps)
  from sys_steps [OF this sys_step.sys_stop_closes] show ?thesis
    by (simp add: stop_client_def reader_stop_def reader_stop_set_def)
qed

text \<open>The threads that \<open>stop\<close> does not wait for, without the main loop, which has ended: the timers,
  the workers, and the reader unless it has returned.\<close>

inductive thread_step ::
  "environ \<Rightarrow> ('i, 'b) cec_backend \<Rightarrow> 'b kiosk_system \<Rightarrow> 'b kiosk_system \<Rightarrow> bool" for env be where
  thread_background: "background env (sys_ctl s) k \<Longrightarrow> thread_step env be s (s\<lparr>sys_ctl := k\<rparr>)"
| thread_reader: "reader_work (rd_phase (sys_reader s)) \<noteq> 0 \<Longrightarrow> thread_step env be s (reader_turn be i s)"

definition system_work :: "'b kiosk_system \<Rightarrow> nat" where
  "system_work s = work_left (sys_ctl s) + reader_work (rd_phase (sys_reader s))"

text \<open>What stays true while the threads of a stopped client run out.\<close>

definition ending :: "cec_event list \<Rightarrow> cec_adapter kiosk_system \<Rightarrow> bool" where
  "ending evs s \<longleftrightarrow> k_stopped (sys_ctl s) \<and> rd_stop (sys_reader s) \<and> closed_poll (sys_reader s) \<and>
     reader_order (sys_reader s) \<and> rd_polled (sys_reader s) = evs"

lemma idle_work [simp]: "work_left (idle c k) = work_left k" "k_stopped (idle c k) = k_stopped k"
  by (simp_all add: work_left_def idle_def)

lemma event_work [simp]:
  "work_left (on_cec_event e k) = work_left k" "k_stopped (on_cec_event e k) = k_stopped k"
  by (simp_all add: on_cec_event_def split: option.split)

lemma events_work [simp]:
  "work_left (fold on_cec_event evs k) = work_left k"
  "k_stopped (fold on_cec_event evs k) = k_stopped k"
  by (induction evs arbitrary: k) simp_all

lemma thread_step_ends:
  assumes "thread_step env (kernel_backend claim) s s'" and "ending evs s"
  shows "ending evs s' \<and> system_work s' < system_work s"
  using assms(1)
proof (cases rule: thread_step.cases)
  case (thread_background k)
  then show ?thesis
    using assms(2) background_work [OF thread_background(2)] by (simp add: ending_def system_work_def)
next
  case (thread_reader i)
  have "sys_reader s' = reader_step (kernel_backend claim) (sys_reader s) i"
    and "k_stopped (sys_ctl s') = k_stopped (sys_ctl s)" and "work_left (sys_ctl s') = work_left (sys_ctl s)"
    by (simp_all add: thread_reader(1) reader_turn_def Let_def)
  moreover have "x < y" if "x \<le> y - 1" "y \<noteq> 0" for x y :: nat using that by linarith
  ultimately show ?thesis
    using assms(2) thread_reader(2) stopped_step [of "sys_reader s" claim i]
    by (auto simp: ending_def system_work_def)
qed

section \<open>Properties\<close>

text \<open>C7. What is pressed on the remote is done once and in order. In every state of the running
  client, with any backend and any interleaving of the reader thread, the worker threads, the
  timers and the main loop, the actions executed so far (whose queued call has been run), then
  those waiting in the main loop's queue, then those of the events the reader is still handing over, are exactly the actions of
  the key presses it polled, in that order: none is lost, doubled or overtaken, also while the
  client is being stopped.\<close>

theorem presses_done_once_in_order:
  assumes "sys_reachable env c be b s"
  shows "sys_executed s @ concat (map dispatched (k_idle (sys_ctl s))) @
      List.map_filter press_action (case rd_phase (sys_reader s) of Delivering evs \<Rightarrow> evs | _ \<Rightarrow> []) =
    List.map_filter press_action (rd_polled (sys_reader s))"
  using sys_reachable_in_flight [OF assms] sys_reachable_order [OF assms]
  by (simp add: in_flight_def queued_def reader_order_def pending_def)

text \<open>The client of the example with a kernel adapter whose first poll finds two presses.\<close>

definition two_presses :: kernel_input where
  "two_presses =
     \<lparr>in_open = \<lparr>reply_open = True, reply_caps = Some 4, reply_mode = True, reply_phys = Some 0x1000\<rparr>,
      in_poll = \<lparr>poll_error = None, poll_ready = [ReadyDevice False True], event_queue = [],
        event_end = EAGAIN, message_queue = [build_msg [0x04, 0x44, 0x01], build_msg [0x04, 0x44, 0x23]],
        message_end = ETIMEDOUT\<rparr>\<rparr>"

definition run_system :: "nat \<Rightarrow> cec_adapter kiosk_system" where
  "run_system n =
     foldl (\<lambda>s i. reader_turn (kernel_backend (\<lambda>_. Some 4)) i s)
       \<lparr>sys_ctl = run_start, sys_reader = start_reader (make_adapter []), sys_executed = []\<rparr>
       (replicate n two_presses)"

lemma reader_turns:
  "sys_reader (foldl (\<lambda>s i. reader_turn be i s) s is) = foldl (reader_step be) (sys_reader s) is"
  "sys_executed (foldl (\<lambda>s i. reader_turn be i s) s is) = sys_executed s"
  by (induction "is" arbitrary: s) (simp_all add: reader_turn_def Let_def)

lemma run_system_form:
  "sys_reader (run_system n) =
     foldl (reader_step (kernel_backend (\<lambda>_. Some 4))) (start_reader (make_adapter [])) (replicate n two_presses)"
  "sys_executed (run_system n) = []"
  unfolding run_system_def reader_turns by simp_all

lemma run_system_reachable:
  "sys_reachable [] run_config (kernel_backend (\<lambda>_. Some 4)) (make_adapter []) (run_system n)"
proof (induction n)
  case 0
  have "attach [] True False (make_controller run_config run_window (\<lambda>_. Absent)) = (None, run_start)"
    by (simp add: run_start_def run_attach)
  moreover have "cache_load (cache_dir []) (\<lambda>_. Absent) (base_url run_config) = Inr empty_client_config"
    by (simp add: cache_load_def is_file_def)
  ultimately show ?case
    unfolding run_system_def
    by (simp, intro sys_started [OF run_window_made]) (auto simp: empty_client_config_def)
next
  case (Suc n)
  have "run_system (Suc n) = reader_turn (kernel_backend (\<lambda>_. Some 4)) two_presses (run_system n)"
    unfolding run_system_def
    by (simp only: replicate_Suc replicate_append_same [symmetric] foldl_append foldl.simps)
  then show ?case using Suc sys_step.sys_reader sys_steps by metis
qed

lemma presses_done_once_in_order_witness:
  "\<exists>s. sys_reachable [] run_config (kernel_backend (\<lambda>_. Some 4)) (make_adapter []) s \<and>
     concat (map dispatched (k_idle (sys_ctl s))) = [Act MENU_UP] \<and>
     length (rd_polled (sys_reader s)) = (2 :: nat)"
proof -
  let ?r = "foldl (reader_step (kernel_backend (\<lambda>_. Some 4))) (start_reader (make_adapter []))
    (replicate 6 two_presses)"
  let ?e = "\<lparr>ev_kind = KEY_PRESS, key_code = Some 0x23, ev_detail = []\<rparr>"
  have r: "rd_phase ?r = Delivering [?e]" "length (rd_polled ?r) = 2"
    "List.map_filter press_action (rd_polled ?r) = [Act MENU_UP, DigitAction 3]"
    "List.map_filter press_action [?e] = [DigitAction 3]"
    by code_simp+
  have "concat (map dispatched (k_idle (sys_ctl (run_system 6)))) @ [DigitAction 3] = [Act MENU_UP, DigitAction 3]"
    using presses_done_once_in_order [OF run_system_reachable, of 6]
    unfolding run_system_form r(1,3) reader_phase.case r(4) append_Nil .
  then have "concat (map dispatched (k_idle (sys_ctl (run_system 6)))) = [Act MENU_UP]" by simp
  then show ?thesis using run_system_reachable [of 6] r(2) run_system_form(1) [of 6] by auto
qed

text \<open>C11. The client comes to an end. From the moment \<open>stop\<close> has cancelled the timers and closed the
  adapter, wherever the reader, the worker threads and the timers were, every interleaving of what they have left to do is
  finite, and its length is bounded beforehand whatever the servers and the kernel answer, and
  the reader takes nothing new from the bus. When no thread can move any more, every event
  that had been read has been handed over.\<close>

theorem client_shuts_down:
  assumes "sys_reachable env c (kernel_backend claim) a s"
    and "(thread_step env (kernel_backend claim) ^^ n) (stop_client (kernel_backend claim) s) s'"
  shows "n + system_work s' \<le> system_work (stop_client (kernel_backend claim) s) \<and>
    rd_polled (sys_reader s') = rd_polled (sys_reader s) \<and>
    k_stopped (sys_ctl s') \<and> rd_stop (sys_reader s') \<and>
    (system_work s' = 0 \<longrightarrow> rd_delivered (sys_reader s') = rd_polled (sys_reader s))"
proof -
  let ?s = "stop_client (kernel_backend claim) s"
  have r: "sys_reachable env c (kernel_backend claim) a ?s" using assms(1) by (rule stop_client_reachable)
  have start: "ending (rd_polled (sys_reader s)) ?s"
    using sys_reachable_order [OF r]
    by (simp add: ending_def stop_client_def stop_def cancel_rotation_def reader_stop_facts)
  have run: "n + system_work s' \<le> system_work ?s \<and> ending (rd_polled (sys_reader s)) s'"
    using assms(2)
  proof (induction n arbitrary: s')
    case 0
    then show ?case using start by simp
  next
    case (Suc n)
    then obtain s1 where "(thread_step env (kernel_backend claim) ^^ n) ?s s1"
      and "thread_step env (kernel_backend claim) s1 s'" by auto
    then show ?case using Suc.IH thread_step_ends by fastforce
  qed
  moreover have "rd_delivered (sys_reader s') = rd_polled (sys_reader s)" if "system_work s' = 0"
    using that run reader_work_0 [of "rd_phase (sys_reader s')"]
    by (auto simp: ending_def system_work_def reader_order_def pending_def)
  ultimately show ?thesis by (auto simp: ending_def)
qed

text \<open>The client of the example stopped in the middle of handing over: the reader has one event left.\<close>

lemma client_shuts_down_witness:
  "\<exists>s. sys_reachable [] run_config (kernel_backend (\<lambda>_. Some 4)) (make_adapter []) s \<and>
     thread_step [] (kernel_backend (\<lambda>_. Some 4)) (stop_client (kernel_backend (\<lambda>_. Some 4)) s)
       (reader_turn (kernel_backend (\<lambda>_. Some 4)) two_presses (stop_client (kernel_backend (\<lambda>_. Some 4)) s)) \<and>
     length (rd_polled (sys_reader
       (reader_turn (kernel_backend (\<lambda>_. Some 4)) two_presses (stop_client (kernel_backend (\<lambda>_. Some 4)) s)))) =
       (2 :: nat)"
proof -
  let ?be = "kernel_backend (\<lambda>_. Some 4)"
  let ?s = "run_system 6"
  have r: "reader_work (rd_phase (foldl (reader_step ?be) (start_reader (make_adapter [])) (replicate 6 two_presses))) \<noteq> 0"
    "length (rd_polled (foldl (reader_step ?be) (start_reader (make_adapter [])) (replicate 6 two_presses))) = 2"
    by code_simp+
  have "reader_work (rd_phase (sys_reader (stop_client ?be ?s))) \<noteq> 0"
    using r(1) unfolding run_system_form(1) [of 6, symmetric] by (simp add: stop_client_def reader_stop_facts)
  then have t: "thread_step [] ?be (stop_client ?be ?s) (reader_turn ?be two_presses (stop_client ?be ?s))"
    by (rule thread_reader)
  then have "(thread_step [] ?be ^^ 1) (stop_client ?be ?s) (reader_turn ?be two_presses (stop_client ?be ?s))"
    by (simp only: relpowp_1)
  from client_shuts_down [OF run_system_reachable this] show ?thesis
    using run_system_reachable [of 6] t r(2) unfolding run_system_form(1) [of 6, symmetric]
    by (intro exI [of _ ?s]) simp
qed

end
