(* ===== verification/Spec2Isabelle.thy ===== *)
theory Spec2Isabelle
  imports Approval Fair_Runs Faults Probe Web_Settings Kiosk_System
begin

text \<open>
  A verification development of the VisionTAK client (the Python package
  \<open>src/visiontak_client\<close>), a kiosk that shows the dashboards of a VisionTAK server on a TV and
  is operated with the TV's remote control.

  THE PROGRAM. One process (\<open>__main__.py\<close>) loads a layered configuration (\<open>config.py\<close>), finds a
  server address in DHCP leases if none is configured (\<open>discovery.py\<close>, \<open>firstrun.py\<close>), waits for
  the Wayland compositor and enters GTK's main loop (\<open>ui/app.py\<close>). A controller
  (\<open>controller.py\<close>) attaches to the window: it applies the dashboards of the last good answer
  (\<open>api.py\<close>, with the entries of \<open>models.py\<close>), starts the CEC reader thread
  (\<open>cec/__init__.py\<close> over \<open>cec/kernel.py\<close> or \<open>cec/libcec.py\<close>), polls for enrolment, and refreshes
  from the server on timers and worker threads, whose results are marshalled back onto the
  main loop with \<open>idle\<close>. Keys of the remote (\<open>cec/keymap.py\<close>, \<open>actions.py\<close>) become actions of the
  window (\<open>ui/kiosk_window.py\<close>), which owns the webviews, the chooser (\<open>ui/menu.py\<close>), the setup
  screen (\<open>ui/setup.py\<close>) and the navigation allowlist (\<open>ui/policy.py\<close>).

  THE THEORIES, from the bottom up. Names are the source's, with the class's name in front
  where two classes share one, and without a leading underscore.

    \<^item> \<open>Prelude\<close>: exceptions as the datatype \<open>exn\<close>, results \<open>exn + 'a\<close> with \<open>bind_result\<close>,
      dictionaries in insertion order, and the locales \<open>invariant_machine\<close> and
      \<open>bounded_machine\<close>, which adapter, reader, chooser and window interpret.
    \<^item> \<open>Py_Str\<close>, \<open>Py_Value\<close>: the parts of Python's \<open>str\<close>, \<open>int\<close> and JSON values in use; files
      as documents, and files replaced through a temporary one as explicit operations any of
      which may fail (locale \<open>atomic_writer\<close>).
    \<^item> \<open>Server_Url\<close>, \<open>Config\<close>: \<open>config.py\<close>. The record \<open>config\<close> has the fields of the dataclass;
      \<open>load\<close> merges the layers, \<open>post_init\<close> clamps, \<open>persist\<close>, \<open>write_snap_config\<close> and
      \<open>ensure_device_id\<close> write. What happens to the files between two starts is a list of
      events (\<open>file_event\<close>: other settings are saved, saves fail or are cut by power, others
      write other files); locale \<open>settings_store\<close> is what a saved setting keeps through them,
      and \<open>Firstrun\<close> relies on it for the address and the token.
    \<^item> \<open>Discovery\<close>, \<open>Firstrun\<close>: \<open>discovery.py\<close>, \<open>firstrun.py\<close>.
    \<^item> \<open>Models\<close>, \<open>Api\<close>: \<open>models.py\<close>, \<open>api.py\<close>; the request and the outcome of \<open>urlopen\<close>, the parse
      of the collection, the cache file.
    \<^item> \<open>Keymap\<close>: \<open>actions.py\<close>, \<open>cec/keymap.py\<close>, and the keyboard's map (locale \<open>key_source\<close>).
    \<^item> \<open>Cec_Uapi\<close>, \<open>Cec_Kernel\<close>, \<open>Cec_Reader\<close>: \<open>cec/uapi.py\<close> with sizes computed by the C layout
      rules; \<open>cec/kernel.py\<close> as operations on \<open>cec_adapter\<close>; \<open>cec/base.py\<close> as the record
      \<open>cec_backend\<close>, \<open>cec/libcec.py\<close>, and the reader thread as a machine whose steps are its
      statements, the test of the stop event apart from the call that follows it (locale
      \<open>cec_backend_contract\<close>, interpreted on all three backends).
    \<^item> \<open>Policy\<close>, \<open>Menu\<close>, \<open>Window\<close>: the files of \<open>ui/\<close>. The record \<open>window\<close> holds the fields of
      \<open>KioskWindow\<close> and what of GTK they drive; one definition per method.
    \<^item> \<open>Window_Live\<close>: properties of runs of the window, among them the refinement of the live
      views to a least-recently-used cache.
    \<^item> \<open>Controller\<close>: \<open>controller.py\<close> and the signal handler's side of \<open>ui/app.py\<close>. The record
      \<open>controller\<close> holds the pending timers, the worker threads with the place each has
      reached, the queue of the main loop, the window and the files. \<open>background\<close> is the step
      relation of timers and threads, \<open>own_step\<close> adds what GTK, WebKit and the people in front
      of the screen do, \<open>ctl_step\<close> the queue of the main loop, the remote and the shutdown, and
      \<open>reachable\<close> is its closure from an attached client.
    \<^item> \<open>Controller_Live\<close>, \<open>Enrolment\<close>: properties of the reachable states; refreshing goes on,
      and so does asking for a token.
    \<^item> \<open>Refresh_Chain\<close>: the client that holds a token, whose refreshes form a single chain.
    \<^item> \<open>Fair_Runs\<close>: infinite runs that pass over no timer, thread or queued call for ever
      (\<open>fair_run\<close>), with the rule of weak fairness as the locale \<open>leaves_when_taken\<close>; in all
      of them the server is asked again and again and its answers are applied, and an approved
      device certainly comes up. Such a run starts at every reachable state of a client that
      refreshes and is not stopped (\<open>schedule\<close>).
    \<^item> \<open>Faults\<close>: two faults stated for every way to run into them, the second chain of refreshes
      that an approval starts and the cache that cannot be loaded.
    \<^item> \<open>Kiosk_System\<close>: the controller and the reader thread running side by side, joined by
      \<open>_on_cec_event\<close>. Every reachable state of the whole is, for the controller, a reachable
      state of \<open>Controller\<close> (\<open>sys_reachable_ctl\<close>), so its properties carry over;
      \<open>thread_step\<close> is what is left to run once \<open>stop_client\<close> was called.
    \<^item> \<open>Entry\<close>: \<open>__main__.py\<close>, \<open>netinfo.py\<close>, \<open>branding.py\<close>; \<open>App\<close>: startup and activation of
      \<open>KioskApplication\<close>, which joins the start of the process to the reachable states.
    \<^item> \<open>Approval\<close>: from the server's approval to the dashboards on the screen, by steps that
      nobody at the kiosk takes part in (\<open>unattended\<close>).
    \<^item> \<open>Web_Settings\<close>: the settings of a webview; \<open>Probe\<close>: \<open>probe.py\<close>.
    \<^item> this theory: properties that cross the components, from the messages on the CEC bus to
      the main loop's queue, and from a fetched answer through the cache and a restart to the
      screen.

  WHAT THE LEMMAS SHOW. Every record that the code keeps has an invariant (\<open>config_ok\<close>,
  \<open>adapter_inv\<close>, \<open>menu_inv\<close>, \<open>win_inv\<close>, \<open>ctl_inv\<close>) and each operation keeps it. Functions are
  characterised on every branch, errors included: which exceptions can leave them and on
  which inputs. Optimised or incremental code is compared with a reference (the scan of the
  leases, the stable sort, the eviction of webviews). What is written to disk is read back
  (settings, device id, token, cache), with power cuts and failing writes. The threads are
  shown live (refreshing and enrolling go on, in fair runs for ever), no press of a key is lost or overtaken between
  them, and shutdown is shown to end.

  BOUNDS. Texts are lists of code points below 256, the type \<open>char\<close>; a hex payload of DHCP
  that decodes to more gives the explicit answer \<open>OutsideAlphabet\<close>. Python's integers are
  \<open>int\<close>; a JSON float is its text with its truncated value; delays and clocks are whole
  milliseconds. There is no fuel: recursion is structural or has a measure, the wait for
  Wayland is a \<open>partial_function\<close> whose termination is a theorem, and \<open>main_loop\<close> runs the
  calls that are in the queue, one turn for each.

  PARAMETERS. Not code of the repository, hence arguments: what \<open>urlopen\<close> does with a
  request; whether the n-th operation on files fails (\<open>fails\<close>); what the kernel answers to an
  ioctl and which messages and events it has queued; libcec's return values; the clock, the
  compositor's socket, the network interface's address; ids that GLib and \<open>uuid4\<close> give out.

  ASSUMPTIONS. File operations reach the disk in the order of the program (no \<open>fsync\<close> forces
  them to); a file may be unreadable, hidden, not text, or a JSON document that the interpreter
  refuses for the length of an integer or its nesting (\<open>pyfile\<close>), but no other limit of memory
  or of the interpreter is met. A poll of the adapter is one step: a \<open>close\<close> by \<open>stop\<close> falls
  before it, after it, or where it ends a queue (\<open>ClosedMeanwhile\<close>), and not between the ioctls
  of one announcement. \<open>sys_executed\<close> says that the call of an action was run; what the action
  does to the window is \<open>Window\<close>'s.

  NOT MODELLED. The layout of widgets and their style classes, what GTK does at its startup,
  argument parsing and logging have no state that the program reads back. The snap, the image
  and the VM scripts are packaging. Of the reader thread, the waits between two attempts and
  the time that \<open>stop\<close> waits for it are left out: any number of steps of other threads may fall
  between two of its own. What a worker thread does with an answer, the files it writes
  included, is one step: two refreshes that save the cache in the same moment, which after an
  approval can exist, are not interleaved within it but looked at apart, in \<open>Api\<close>. A client
  that started with a token never has two (\<open>Refresh_Chain\<close>).
\<close>

section \<open>From the bus to the screen\<close>

text \<open>The calls in the main loop's queue that dispatch a key.\<close>

definition is_dispatch :: "call \<Rightarrow> bool" where
  "is_dispatch c \<longleftrightarrow> (case c of CallDispatch _ \<Rightarrow> True | _ \<Rightarrow> False)"

definition code_action :: "int \<Rightarrow> key_action option" where
  "code_action code = (case action_for code of Inr a \<Rightarrow> a | Inl _ \<Rightarrow> None)"

lemma on_cec_events_idle:
  "k_idle (fold on_cec_event evs k) = k_idle k @ List.map_filter event_call evs"
  by (induction evs arbitrary: k)
    (auto simp: on_cec_event_def idle_def List.map_filter_def split: option.split)

lemma dispatch_of_event:
  "filter is_dispatch (case event_call e of Some c \<Rightarrow> [c] | None \<Rightarrow> []) =
     (if ev_kind e = KEY_PRESS
      then (case Option.bind (key_code e) code_action of Some a \<Rightarrow> [CallDispatch a] | None \<Rightarrow> []) else [])"
  by (auto simp: event_call_def is_dispatch_def code_action_def
      split: cec_event_kind.split option.split sum.split)

lemma map_filter_Cons: "List.map_filter f (x # xs) = (case f x of Some y \<Rightarrow> [y] | None \<Rightarrow> []) @ List.map_filter f xs"
  by (simp add: List.map_filter_def split: option.split)

lemma dispatches_of_events:
  "filter is_dispatch (List.map_filter event_call evs) =
     map CallDispatch (List.map_filter (\<lambda>k. Option.bind k code_action) (key_presses evs))"
proof (induction evs)
  case Nil
  then show ?case by (simp add: key_presses_def List.map_filter_def)
next
  case (Cons e evs)
  then show ?case
    using dispatch_of_event [of e]
    by (auto simp: map_filter_Cons key_presses_def split: option.splits if_splits)
qed

lemma map_filter_Some: "List.map_filter (\<lambda>k. Option.bind k f) (map Some xs) = List.map_filter f xs"
  by (induction xs) (simp_all add: map_filter_Cons List.map_filter_def)

section \<open>From an outage to the screen\<close>

lemma page_ok_group [simp]: "page_ok (d\<lparr>d_group := g\<rparr>) = page_ok d"
  by (simp add: page_ok_def)

text \<open>Applying dashboards whose addresses parse never raises.\<close>

lemma apply_config_ok:
  assumes "list_all page_ok (dashboards cc)"
  shows "fst (apply_config cc from_cache k) = None"
proof (cases "w_needs_setup (k_window k)")
  case True
  then show ?thesis by (simp add: apply_config_def set_dashboards_def Let_def)
next
  case False
  obtain w where "set_dashboards (dashboards cc) True (k_window k) = (None, w)"
    using set_dashboards_form [OF False assms, of True] by blast
  then show ?thesis by (simp add: apply_config_def Let_def)
qed

lemma apply_rotation_shown [simp]:
  "w_dashboards (k_window (apply_rotation k)) = w_dashboards (k_window k)"
  "w_current (k_window (apply_rotation k)) = w_current (k_window k)"
  by (simp_all add: apply_rotation_def cancel_rotation_def add_rotation_def Let_def)

lemma attach_window:
  assumes "cache_load (cache_dir env) (k_fs k) (base_url (k_client k)) = Inr cc"
    and "list_all page_ok (dashboards cc)"
  obtains k' where "attach env device_exists libcec_importable k = (None, k')"
    and "w_dashboards (k_window k') = w_dashboards (k_window (snd (apply_config cc True (connect_setup k))))"
    and "current_dashboard (k_window k') =
      current_dashboard (k_window (snd (apply_config cc True (connect_setup k))))"
proof -
  obtain k1 where k1: "apply_config cc True (connect_setup k) = (None, k1)"
    using apply_config_ok [OF assms(2), of True "connect_setup k"]
    by (cases "apply_config cc True (connect_setup k)") auto
  then have "attach env device_exists libcec_importable k =
      (None, apply_rotation (schedule_refresh FIRST_REFRESH_DELAY
        (start_registration (start_cec device_exists libcec_importable k1))))"
    using assms(1) by (simp add: attach_def)
  then show thesis using that k1 by (simp add: current_dashboard_def)
qed

text \<open>Choosing a dashboard, by remote, keyboard or carousel, leaves no trace in the files.\<close>

lemma navigation_writes_nothing:
  "k_fs (dispatch a k) = k_fs k" "k_fs (snd (on_key_pressed name k)) = k_fs k"
  "k_fs (on_window (on_menu_activate i) k) = k_fs k" "k_fs (rotate_now k) = k_fs k"
  by (simp_all add: dispatch_def toggle_rotation_def restart_rotation_clock_def apply_rotation_def
      cancel_rotation_def add_rotation_def on_window_def on_key_pressed_def rotate_now_def Let_def
      split: option.split sum.split)

section \<open>Properties\<close>

text \<open>C1. Every press of a key on the TV's remote is dispatched, once and in order. For a poll that
  returns, the main loop's queue gains exactly the actions of the key codes in the kernel's
  messages, in the order of the messages, whatever other messages come between them and
  whatever was queued before; codes without an action are dropped.\<close>

theorem presses_reach_the_kiosk:
  assumes "fd_open a" and "poll_error p = None" and "poll_ready p = [ReadyDevice pri True]"
    and "cec_poll p claim a = (Inr evs, a')"
  shows "filter is_dispatch (k_idle (fold on_cec_event evs k)) =
    filter is_dispatch (k_idle k) @
    map CallDispatch (List.map_filter code_action (List.map_filter pressed_key (message_queue p)))"
proof -
  have "key_presses evs = map Some (List.map_filter pressed_key (message_queue p))"
    unfolding key_presses_def by (rule keys_in_order [OF assms])
  then show ?thesis by (simp add: on_cec_events_idle dispatches_of_events map_filter_Some)
qed

lemma presses_reach_the_kiosk_witness:
  "\<exists>evs a' k. cec_poll
      \<lparr>poll_error = None, poll_ready = [ReadyDevice False True], event_queue = [], event_end = EAGAIN,
       message_queue = [build_msg [0x04, 0x44, 0x01], build_msg [0x04, 0x36], build_msg [0x04, 0x44, 0x23]],
       message_end = ETIMEDOUT\<rparr>
      (\<lambda>_. None) (make_adapter []\<lparr>fd_open := True\<rparr>) = (Inr evs, a') \<and>
    filter is_dispatch (k_idle (fold on_cec_event evs k)) =
      [CallDispatch (Act MENU_UP), CallDispatch (DigitAction 3)]"
proof -
  let ?p = "\<lparr>poll_error = None, poll_ready = [ReadyDevice False True], event_queue = [], event_end = EAGAIN,
       message_queue = [build_msg [0x04, 0x44, 0x01], build_msg [0x04, 0x36], build_msg [0x04, 0x44, 0x23]],
       message_end = ETIMEDOUT\<rparr>"
  let ?a = "make_adapter []\<lparr>fd_open := True\<rparr>"
  let ?evs = "[\<lparr>ev_kind = KEY_PRESS, key_code = Some 1, ev_detail = []\<rparr>, plain_event STANDBY ''tv standby'',
    \<lparr>ev_kind = KEY_PRESS, key_code = Some 0x23, ev_detail = []\<rparr>]"
  have p: "cec_poll ?p (\<lambda>_. None) ?a = (Inr ?evs, ?a)" by code_simp
  have k: "List.map_filter code_action (List.map_filter pressed_key (message_queue ?p)) =
      [Act MENU_UP, DigitAction 3]"
    by code_simp
  let ?k = "run_start\<lparr>k_idle := []\<rparr>"
  have "filter is_dispatch (k_idle (fold on_cec_event ?evs ?k)) =
      [CallDispatch (Act MENU_UP), CallDispatch (DigitAction 3)]"
    using presses_reach_the_kiosk [OF _ _ _ p, of False ?k] unfolding k by simp
  then show ?thesis using p by (intro exI [of _ ?evs] exI [of _ ?a] exI [of _ ?k]) simp
qed

text \<open>C2. A restart during an outage shows the dashboards of the last good answer. After a refresh
  whose dashboards have ids and names and were saved, a client that restarts with the same,
  usable address attaches without contacting any server and shows the same dashboards in the
  same order, each with its id, name, page and place but without its group, which is not
  saved. It starts with the configured dashboard, or without one with the server's default one,
  or with the first one; which dashboard was last on screen is not recorded
  (\<open>navigation_writes_nothing\<close>).\<close>

theorem restart_shows_cached_dashboards:
  assumes "fetch_client_config c urlopen = Inr cc"
    and "\<forall>d \<in> set (dashboards cc). d_id d \<noteq> [] \<and> d_name d \<noteq> []"
    and "address_ok (base_url c)"
    and "dashboards cc \<noteq> []" and "default_dashboard_id cc \<noteq> Some []"
    and "cache_save fails (cache_dir env) cc fs = (None, fs')"
    and "make_window c dirs = Inr w" and "server_url c \<noteq> []"
    and "wanted = (if start_dashboard c \<noteq> [] then Some (start_dashboard c) else default_dashboard_id cc)"
  shows "\<exists>k. attach env device_exists libcec_importable (make_controller c w fs') = (None, k) \<and>
    w_dashboards (k_window k) = map (\<lambda>d. d\<lparr>d_group := []\<rparr>) (dashboards cc) \<and>
    map_option d_id (current_dashboard (k_window k)) =
      (if wanted \<in> (Some \<circ> d_id) ` set (dashboards cc) then wanted else Some (d_id (hd (dashboards cc))))"
proof -
  let ?k = "make_controller c w fs'"
  let ?cc = "cc\<lparr>dashboards := map (\<lambda>d. d\<lparr>d_group := []\<rparr>) (dashboards cc)\<rparr>"
  have load: "cache_load (cache_dir env) (k_fs ?k) (base_url (k_client ?k)) = Inr ?cc"
    using cache_restores [OF assms(1,2,5,6)] by (simp add: make_controller_def)
  have "list_all page_ok (dashboards cc)"
    using pages_of_answer [OF assms(3), of urlopen] assms(1) by (simp add: pages_parse_def)
  then have ok: "list_all page_ok (dashboards ?cc)" by (simp add: list_all_iff)
  obtain k where k: "attach env device_exists libcec_importable ?k = (None, k)"
    and w: "w_dashboards (k_window k) = w_dashboards (k_window (snd (apply_config ?cc True (connect_setup ?k))))"
      "current_dashboard (k_window k) =
        current_dashboard (k_window (snd (apply_config ?cc True (connect_setup ?k))))"
    by (rule attach_window [OF load ok])
  have "w_dashboards v = []" "\<not> w_needs_setup v" if "make_window c dirs = Inr v" for v
    using that assms(8) by (auto simp: make_window_def bind_result_Inr_iff Let_def)
  then have new: "w_dashboards (k_window (connect_setup ?k)) = []"
    "\<not> w_needs_setup (k_window (connect_setup ?k))" "win_inv (k_window (connect_setup ?k))"
    using assms(7) make_window_inv by (auto simp: make_controller_def win_inv_frames)
  have ids: "(Some \<circ> d_id) ` set (dashboards ?cc) = (Some \<circ> d_id) ` set (dashboards cc)"
    by (auto simp: image_comp)
  have nil: "Some [] \<notin> (Some \<circ> d_id) ` set (dashboards cc)" using assms(2) by auto
  have "wanted = wanted_dashboard c ?cc" by (simp add: assms(9) wanted_dashboard_def)
  moreover have "dashboards ?cc \<noteq> []" "start_dashboard (k_config (connect_setup ?k)) = start_dashboard c"
    using assms(4) by (simp_all add: make_controller_def)
  ultimately have r: "w_dashboards (k_window k) = dashboards ?cc \<and>
    (if wanted \<in> (Some \<circ> d_id) ` set (dashboards cc) \<and> wanted \<noteq> Some []
     then map_option d_id (current_dashboard (k_window k)) = wanted
     else current_dashboard (k_window k) = Some (hd (dashboards ?cc)))"
    using first_dashboards_shown [OF new(3,2,1) ok, of c wanted True] w unfolding ids by simp
  have "d_id (hd (dashboards ?cc)) = d_id (hd (dashboards cc))" using assms(4) by (simp add: hd_map)
  then have "map_option d_id (current_dashboard (k_window k)) =
      (if wanted \<in> (Some \<circ> d_id) ` set (dashboards cc) then wanted else Some (d_id (hd (dashboards cc))))"
    using r nil by (auto split: if_splits)
  then show ?thesis using k r by (intro exI [of _ k] conjI) simp_all
qed

lemma restart_shows_cached_dashboards_witness:
  "\<exists>fs' k. attach [] True False (make_controller run_config run_window fs') = (None, k) \<and>
     map d_id (w_dashboards (k_window k)) = [''b'', ''a''] \<and>
     map_option d_id (current_dashboard (k_window k)) = Some ''a''"
proof -
  let ?u = "\<lambda>_. Answer ''application/json'' (JsonText (JDict [(''defaultDashboardId'', JStr ''a''),
     (''allowedDashboards'', JList
      [JDict [(''id'', JStr ''a''), (''order'', JInt 2), (''group'', JStr ''g'')],
       JDict [(''id'', JStr ''b''), (''order'', JInt 1)]])]))"
  let ?a = "\<lparr>d_id = ''a'', d_name = ''a'', d_url = ''http://vt/view/a'', d_order = 2, d_group = ''g''\<rparr>"
  let ?b = "\<lparr>d_id = ''b'', d_name = ''b'', d_url = ''http://vt/view/b'', d_order = 1, d_group = []\<rparr>"
  let ?cc = "\<lparr>dashboards = [?b, ?a], default_dashboard_id = Some ''a''\<rparr>"
  have f: "fetch_client_config run_config ?u = Inr ?cc" by code_simp
  have "base_url run_config = ''http://vt''" by code_simp
  with example_address have a: "address_ok (base_url run_config)" by simp
  have c: "server_url run_config \<noteq> []" "start_dashboard run_config = []" by code_simp+
  have s: "cache_save (\<lambda>_. False) (cache_dir []) ?cc (\<lambda>_. Absent) =
      (None, snd (cache_save (\<lambda>_. False) (cache_dir []) ?cc (\<lambda>_. Absent)))"
    by (rule prod_eqI) (simp_all add: cache_save_def run_ops_never_fails)
  let ?fs = "snd (cache_save (\<lambda>_. False) (cache_dir []) ?cc (\<lambda>_. Absent))"
  obtain k where "attach [] True False (make_controller run_config run_window ?fs) = (None, k)"
    and "map d_id (w_dashboards (k_window k)) = [''b'', ''a'']"
    and "map_option d_id (current_dashboard (k_window k)) = Some ''a''"
    using restart_shows_cached_dashboards [OF f _ a _ _ s run_window_made c(1) refl, of True False] c(2)
    by auto
  then show ?thesis by (intro exI [of _ ?fs] exI [of _ k] conjI)
qed

end
